(* ===== verification/Pitaya_Prelude.thy ===== *)
theory Pitaya_Prelude
  imports Main "HOL-Library.Word"
begin

text \<open>
  What every theory of the development shares: the Go types of the model (bytes, the 64-bit
  \<open>int\<close>, \<open>int64\<close> and \<open>uint\<close>, strings as byte sequences, results with an error), the parts of
  Go's \<open>strings\<close> package the sources call (\<open>Split\<close> and \<open>TrimSpace\<close>), the iteration of Go
  maps in an unspecified order, and the generic lemmas on them.
\<close>

unbundle bit_operations_syntax

section \<open>Types\<close>

type_synonym byte = "8 word"
type_synonym u16 = "16 word"
type_synonym u64 = "64 word"
type_synonym i64 = "64 word"

text \<open>
  A Go string is a sequence of bytes. It is a \<^typ>\<open>string\<close> here, one \<^typ>\<open>char\<close> per byte;
  \<open>str_bytes\<close> and \<open>bytes_str\<close> are the conversions \<open>[]byte(s)\<close> and \<open>string(b)\<close>.
\<close>

definition str_bytes :: "string \<Rightarrow> byte list" where
  "str_bytes s = map (\<lambda>c. word_of_nat (of_char c)) s"

definition bytes_str :: "byte list \<Rightarrow> string" where
  "bytes_str b = map (\<lambda>w. char_of (unat w)) b"

text \<open>The collections of simplification rules the component theories extend.\<close>

named_theorems codec_simps \<open>equations of the wire formats\<close>
named_theorems inv_intros \<open>preservation of component invariants\<close>

section \<open>Conversions between strings and bytes\<close>

lemma length_str_bytes [simp]: "length (str_bytes s) = length s"
  by (simp add: str_bytes_def)

lemma length_bytes_str [simp]: "length (bytes_str b) = length b"
  by (simp add: bytes_str_def)

lemma unat_of_char_byte [simp]: "unat (word_of_nat (of_char c) :: byte) = of_char c"
proof -
  have "(of_char c :: nat) < 256" by simp
  then show ?thesis by (simp add: unat_of_nat)
qed

lemma bytes_str_str_bytes [simp]: "bytes_str (str_bytes s) = s"
  by (simp add: bytes_str_def str_bytes_def comp_def)

lemma str_bytes_bytes_str [simp]: "str_bytes (bytes_str b) = b"
proof -
  have "word_of_nat (of_char (char_of (unat w) :: char)) = w" for w :: byte
  proof -
    have "unat w < 256" using unsigned_less [of w] by simp
    then show ?thesis by simp
  qed
  then show ?thesis by (induction b) (simp_all add: bytes_str_def str_bytes_def)
qed

lemma str_bytes_inject [simp]: "str_bytes s = str_bytes t \<longleftrightarrow> s = t"
  by (metis bytes_str_str_bytes)

section \<open>The strings package\<close>

text \<open>
  \<open>strings.Split(s, sep)\<close> for a one-byte separator: the pieces between the separators, one more
  than there are separators.
\<close>

fun split_on :: "char \<Rightarrow> string \<Rightarrow> string list" where
  "split_on sep [] = [[]]"
| "split_on sep (c # cs) =
     (if c = sep then [] # split_on sep cs
      else (case split_on sep cs of [] \<Rightarrow> [[c]] | p # ps \<Rightarrow> (c # p) # ps))"

text \<open>
  \<open>strings.TrimSpace\<close> strips leading and trailing Unicode white space. Its runes, in their UTF-8
  encoding, are the entries of \<open>space_runes\<close>: the six ASCII ones, U+0085, U+00A0, U+1680,
  U+2000 to U+200A, U+2028, U+2029, U+202F, U+205F and U+3000. An encoding starts with a byte
  that no other encoding of the list continues with, so a rune is found at the front (or the
  back) of the bytes exactly when one of the encodings is a prefix (or a suffix).
\<close>

definition space_runes :: "nat list list" where
  "space_runes =
     [[0x09], [0x0A], [0x0B], [0x0C], [0x0D], [0x20], [0xC2, 0x85], [0xC2, 0xA0],
      [0xE1, 0x9A, 0x80], [0xE2, 0x80, 0x80], [0xE2, 0x80, 0x81], [0xE2, 0x80, 0x82],
      [0xE2, 0x80, 0x83], [0xE2, 0x80, 0x84], [0xE2, 0x80, 0x85], [0xE2, 0x80, 0x86],
      [0xE2, 0x80, 0x87], [0xE2, 0x80, 0x88], [0xE2, 0x80, 0x89], [0xE2, 0x80, 0x8A],
      [0xE2, 0x80, 0xA8], [0xE2, 0x80, 0xA9], [0xE2, 0x80, 0xAF], [0xE2, 0x81, 0x9F],
      [0xE3, 0x80, 0x80]]"

definition starts_with :: "nat list \<Rightarrow> string \<Rightarrow> bool" where
  "starts_with r s \<longleftrightarrow> length r \<le> length s \<and> map of_char (take (length r) s) = r"

function trim_left :: "nat list list \<Rightarrow> string \<Rightarrow> string" where
  "trim_left rs s =
     (case find (\<lambda>r. r \<noteq> [] \<and> starts_with r s) rs of
        None \<Rightarrow> s
      | Some r \<Rightarrow> trim_left rs (drop (length r) s))"
  by pat_completeness auto
termination
  by (relation "measure (\<lambda>(rs, s). length s)")
    (auto simp: find_Some_iff starts_with_def intro!: diff_less Nat.gr0I)

declare trim_left.simps [simp del]

definition TrimSpace :: "string \<Rightarrow> string" where
  "TrimSpace s = rev (trim_left (map rev space_runes) (rev (trim_left space_runes s)))"

lemma split_on_nonempty [simp]: "split_on sep s \<noteq> []"
  by (induction s) (auto split: list.splits)

lemma split_on_no_sep [simp]: "sep \<notin> set s \<Longrightarrow> split_on sep s = [s]"
  by (induction s) auto

lemma split_on_append [simp]:
  "sep \<notin> set s \<Longrightarrow> split_on sep (s @ sep # t) = s # split_on sep t"
  by (induction s) auto

lemma split_on_pieces: "p \<in> set (split_on sep s) \<Longrightarrow> sep \<notin> set p"
  by (induction s arbitrary: p) (auto split: if_splits list.splits)

text \<open>Joining the pieces with the separator gives the string back.\<close>

fun join_with :: "char \<Rightarrow> string list \<Rightarrow> string" where
  "join_with sep [] = []"
| "join_with sep [p] = p"
| "join_with sep (p # q # ps) = p @ sep # join_with sep (q # ps)"

lemma join_split_on: "join_with sep (split_on sep s) = s"
proof (induction s)
  case (Cons c cs)
  obtain p ps where p: "split_on sep cs = p # ps"
    by (cases "split_on sep cs") auto
  show ?case
    using Cons.IH p by (cases ps) auto
qed simp

lemma trim_left_Nil [simp]: "trim_left rs [] = []"
proof -
  have "find (\<lambda>r. r \<noteq> [] \<and> starts_with r []) rs = None"
    by (auto simp: find_None_iff starts_with_def)
  then show ?thesis by (simp add: trim_left.simps)
qed

lemma TrimSpace_Nil [simp]: "TrimSpace [] = []"
  by (simp add: TrimSpace_def)

section \<open>Indexing and slicing\<close>

text \<open>
  Where the sources index or slice with a computed position, the model keeps the run-time check of
  Go: the result is an option, and \<open>None\<close> is the panic of an index that is out of range.
\<close>

definition index :: "'a list \<Rightarrow> nat \<Rightarrow> 'a option" where
  "index xs i = (if i < length xs then Some (xs ! i) else None)"

definition subslice :: "'a list \<Rightarrow> nat \<Rightarrow> nat \<Rightarrow> 'a list option" where
  "subslice xs lo hi = (if lo \<le> hi \<and> hi \<le> length xs then Some (take (hi - lo) (drop lo xs)) else None)"

lemma index_Some [simp]: "i < length xs \<Longrightarrow> index xs i = Some (xs ! i)"
  by (simp add: index_def)

lemma subslice_Some [simp]:
  "lo \<le> hi \<Longrightarrow> hi \<le> length xs \<Longrightarrow> subslice xs lo hi = Some (take (hi - lo) (drop lo xs))"
  by (simp add: subslice_def)

lemma subslice_append [simp]:
  "subslice (xs @ ys @ zs) (length xs) (length xs + length ys) = Some ys"
  by simp

section \<open>Ranging over a map\<close>

text \<open>
  Go iterates a map in an order it does not specify. A loop over a map is modelled by a recursion
  over a list of its keys, and a statement about the loop holds for every such list.
\<close>

definition enumerates :: "'k list \<Rightarrow> ('k \<rightharpoonup> 'v) \<Rightarrow> bool" where
  "enumerates ks m \<longleftrightarrow> distinct ks \<and> set ks = dom m"

lemma enumeratesD [dest]:
  assumes "enumerates ks m"
  shows "distinct ks" and "set ks = dom m"
  using assms by (simp_all add: enumerates_def)

lemma enumerates_empty [simp]: "enumerates ks Map.empty \<longleftrightarrow> ks = []"
  by (auto simp: enumerates_def)

lemma enumerates_finite: "enumerates ks m \<Longrightarrow> finite (dom m)"
  by (metis List.finite_set enumeratesD(2))

lemma ex_enumerates: "finite (dom m) \<Longrightarrow> \<exists>ks. enumerates ks m"
  by (metis enumerates_def finite_distinct_list)

section \<open>Lists\<close>

lemma take_drop_split: "n \<le> length xs \<Longrightarrow> take n xs @ drop n xs = xs \<and> length (take n xs) = n"
  by simp

end
