(* ===== verification/Pitaya_Errors.thy ===== *)
theory Pitaya_Errors
  imports Pitaya_Prelude
begin

text \<open>
  The error values of the program. Go compares errors by identity (\<open>errors.Is\<close>), so a sentinel
  variable is a constructor; wrapping with \<open>errors.WithStack\<close> or with \<open>fmt.Errorf\<close> and \<open>%w\<close>
  keeps the identity and is left out, the formatted text with it. An error built on the spot from
  a message alone is \<open>ErrNew\<close> with the fixed part of that message, and an error that a call
  outside the repository returns is \<open>ErrExternal\<close>.
\<close>

section \<open>Error values\<close>

datatype (plugins only: code size) goerr =
    \<comment> \<open>constants/errors.go, those the modelled components return\<close>
    ErrBrokenPipe | ErrCloseClosedSession | ErrEmptyUID | ErrEtcdGrantLeaseTimeout |
    ErrFrontSessionCantPushToFront | ErrGroupAlreadyExists | ErrGroupNotFound | ErrIllegalUID |
    ErrMemberAlreadyExists | ErrEtcdLeaseNotFound | ErrMemberNotFound | ErrMemoryTTLNotFound | ErrNilCondition |
    ErrNoServerWithID | ErrNoServersAvailableOfType | ErrNoUIDBind | ErrNotImplemented |
    ErrOnCloseBackend | ErrReplyShouldBeNotNull | ErrServerNotFound |
    ErrServiceDiscoveryNotInitialized | ErrSessionAlreadyBound | ErrSessionNotFound |
    ErrSessionOnNotify | ErrWrongValueType | ErrReceivedMsgSmallerThanExpected |
    ErrReceivedMsgBiggerThanExpected | ErrConnectionClosed | ErrDeveloperLogicFatal |
    ErrIllegalBindBackendID | ErrSessionNotBoundBackend | ErrNotifyAllSvTypeNotEmpty |
    ErrRequestOnNotify | ErrNotifyOnRequest | ErrPushingToUsers | ErrKickingUsers |
    ErrFrontendTypeNotSpecified | ErrNonsenseRPC | ErrRPCServerNotInitialized |
    ErrNoServerTypeChosenForRPC | ErrReplyShouldBePtr | ErrRPCClientNotInitialized |
    ErrNoNatsConnectionString | ErrNatsNoRequestTimeout | ErrNatsMessagesBufferSizeZero | ErrNatsPushBufferSizeZero |
    ErrNoContextFound | ErrNoConnectionToServer | ErrNoBindingStorageModule
    \<comment> \<open>conn/packet, conn/codec, conn/message, route\<close>
  | ErrWrongPomeloPacketType | ErrInvalidPomeloHeader | ErrPacketSizeExcced |
    ErrWrongMessageType | ErrInvalidMessage | ErrRouteInfoNotFound | ErrRouteFieldCantEmpty |
    ErrInvalidRoute
    \<comment> \<open>protos/error.proto, by the reason of the error\<close>
  | ErrSessionNotFound_proto | ErrForbiddenServerOfSession
    \<comment> \<open>errors with a message of their own, and errors of the environment\<close>
  | ErrNew string | ErrExternal string

type_synonym 'a res = "goerr + 'a"

section \<open>Results\<close>

text \<open>Running the rest of a function after a call that may fail and whose error is returned.\<close>

definition and_then :: "'a res \<Rightarrow> ('a \<Rightarrow> 'b res) \<Rightarrow> 'b res" where
  "and_then r f = (case r of Inl e \<Rightarrow> Inl e | Inr x \<Rightarrow> f x)"

lemma and_then_Inl [simp]: "and_then (Inl e) f = Inl e"
  by (simp add: and_then_def)

lemma and_then_Inr [simp]: "and_then (Inr x) f = f x"
  by (simp add: and_then_def)

lemma and_then_eq_Inr [simp]: "and_then r f = Inr y \<longleftrightarrow> (\<exists>x. r = Inr x \<and> f x = Inr y)"
  by (cases r) auto

lemma and_then_eq_Inl: "and_then r f = Inl e \<longleftrightarrow> r = Inl e \<or> (\<exists>x. r = Inr x \<and> f x = Inl e)"
  by (cases r) auto

end
