(* ===== verification/Packet.thy ===== *)
theory Packet
  imports Pitaya_Errors
begin

text \<open>
  The packet layer: \<open>conn/packet\<close> and \<open>conn/codec\<close>. A packet on the wire is one byte of type, three
  bytes of big-endian length and the data. \<open>PacketEncode\<close> builds one, \<open>PacketDecode\<close> splits a
  buffer into the packets it holds. The two are proved inverse to each other on every sequence of
  packets whose data is shorter than \<open>2 ^ 24\<close> bytes, and a decoded buffer is always the framing
  of the packets returned followed by an incomplete rest.
\<close>

section \<open>Packets\<close>

text \<open>The packet types of \<open>conn/packet/constants.go\<close>.\<close>

abbreviation Handshake :: byte where "Handshake \<equiv> 0x01"
abbreviation HandshakeAck :: byte where "HandshakeAck \<equiv> 0x02"
abbreviation Heartbeat :: byte where "Heartbeat \<equiv> 0x03"
abbreviation DataPacket :: byte where "DataPacket \<equiv> 0x04"
abbreviation KickPacket :: byte where "KickPacket \<equiv> 0x05"
abbreviation HeartbeatAck :: byte where "HeartbeatAck \<equiv> 0x06"

record packet =
  pkt_Type :: byte
  pkt_Length :: i64
  pkt_Data :: "byte list"

definition HeadLength :: nat where
  "HeadLength = 4"

definition MaxPacketSize :: nat where
  "MaxPacketSize = 2 ^ 24"

definition validPacketType :: "byte \<Rightarrow> bool" where
  "validPacketType ty \<longleftrightarrow> \<not> (ty < Handshake \<or> ty > HeartbeatAck)"

section \<open>Codec\<close>

definition BytesToInt :: "byte list \<Rightarrow> i64" where
  "BytesToInt b = foldl (\<lambda>result v. push_bit 8 result + ucast v) 0 b"

definition IntToBytes :: "i64 \<Rightarrow> byte list" where
  "IntToBytes n =
     [ucast (signed_drop_bit 16 n AND 0xFF), ucast (signed_drop_bit 8 n AND 0xFF),
      ucast (n AND 0xFF)]"

definition ParseHeader :: "byte list \<Rightarrow> (i64 \<times> byte) res" where
  "ParseHeader header =
     (if length header \<noteq> HeadLength then Inl ErrInvalidPomeloHeader
      else let ty = header ! 0 in
        if ty < Handshake \<or> ty > HeartbeatAck then Inl ErrWrongPomeloPacketType
        else let sz = BytesToInt (tl header) in
          if sint sz > int MaxPacketSize then Inl ErrPacketSizeExcced
          else Inr (sz, ty))"

definition PacketEncode :: "byte \<Rightarrow> byte list \<Rightarrow> byte list res" where
  "PacketEncode ty data =
     (if ty < Handshake \<or> ty > HeartbeatAck then Inl ErrWrongPomeloPacketType
      else if length data > MaxPacketSize then Inl ErrPacketSizeExcced
      else Inr (ty # IntToBytes (word_of_nat (length data)) @ data))"

text \<open>
  \<open>forward\<close> reads the header off the front of the buffer and returns what \<open>ParseHeader\<close> makes of
  it, with the rest of the buffer. \<open>bytes.Buffer.Next\<close> returns what is left when fewer bytes are
  there than asked for.
\<close>

definition forward :: "byte list \<Rightarrow> (i64 \<times> byte) res \<times> byte list" where
  "forward buf = (ParseHeader (take HeadLength buf), drop HeadLength buf)"

function decode_loop :: "i64 \<Rightarrow> byte \<Rightarrow> byte list \<Rightarrow> packet list \<Rightarrow> packet list res" where
  "decode_loop sz ty buf packets =
     (if sint sz \<le> int (length buf) then
        let p = \<lparr>pkt_Type = ty, pkt_Length = sz, pkt_Data = take (nat (sint sz)) buf\<rparr>;
            buf' = drop (nat (sint sz)) buf;
            packets' = packets @ [p]
        in if length buf' < HeadLength then Inr packets'
           else (case forward buf' of
                   (Inl e, _) \<Rightarrow> Inl e
                 | (Inr (sz', ty'), buf'') \<Rightarrow> decode_loop sz' ty' buf'' packets')
      else Inr packets)"
  by pat_completeness auto
termination
  by (relation "measure (\<lambda>(sz, ty, buf, packets). length buf)")
    (auto simp: forward_def HeadLength_def)

declare decode_loop.simps [simp del]

definition PacketDecode :: "byte list \<Rightarrow> packet list res" where
  "PacketDecode data =
     (if length data < HeadLength then Inr []
      else (case forward data of
              (Inl e, _) \<Rightarrow> Inl e
            | (Inr (sz, ty), buf) \<Rightarrow> decode_loop sz ty buf []))"

section \<open>Lengths\<close>

lemma low_byte_of_shift:
  fixes n :: i64
  assumes "k + 8 \<le> 64"
  shows "(ucast (signed_drop_bit k n AND 0xFF) :: byte) = ucast (drop_bit k n)"
proof (rule bit_word_eqI)
  fix i
  assume i: "i < LENGTH(8)"
  have "bit (0xFF :: i64) i"
    using i bit_mask_iff [of 8 i, where ?'a = i64] by (simp add: mask_eq_exp_minus_1)
  with i assms show "bit (ucast (signed_drop_bit k n AND 0xFF) :: byte) i
      = bit (ucast (drop_bit k n) :: byte) i"
    by (auto simp: bit_ucast_iff bit_and_iff bit_signed_drop_bit_iff bit_drop_bit_eq)
qed

lemma unat_low_byte: "unat (ucast (drop_bit k n) :: byte) = unat (n :: i64) div 2 ^ k mod 256"
  by (simp add: unsigned_ucast_eq take_bit_eq_mod unat_drop_bit_eq)
    (simp add: drop_bit_eq_div)

lemma unat_BytesToInt_3:
  "unat (BytesToInt [a, b, c]) = unat a * 65536 + unat b * 256 + unat c"
proof -
  have "unat a < 256" "unat b < 256" "unat c < 256"
    using unsigned_less [of a] unsigned_less [of b] unsigned_less [of c] by auto
  then show ?thesis
    by (simp add: BytesToInt_def push_bit_eq_mult unat_word_ariths unsigned_ucast_eq take_bit_eq_mod)
qed

lemma IntToBytes_eq:
  "IntToBytes n = [ucast (drop_bit 16 n), ucast (drop_bit 8 n), ucast (drop_bit 0 n)]"
  using low_byte_of_shift [of 16 n] low_byte_of_shift [of 8 n] low_byte_of_shift [of 0 n]
  by (simp add: IntToBytes_def)

lemma length_IntToBytes [simp]: "length (IntToBytes n) = 3"
  by (simp add: IntToBytes_def)

lemma unat_BytesToInt_IntToBytes: "unat (BytesToInt (IntToBytes n)) = unat n mod 2 ^ 24"
proof -
  have "unat n div 65536 mod 256 * 65536 + unat n div 256 mod 256 * 256 + unat n mod 256
      = unat n mod 16777216"
    using mod_mult2_eq [of "unat n" 65536 256] mod_mult2_eq [of "unat n" 256 256] by simp
  then show ?thesis
    using unat_low_byte [of 16 n] unat_low_byte [of 8 n] unat_low_byte [of 0 n]
    by (simp add: IntToBytes_eq unat_BytesToInt_3)
qed

lemma sint_word_of_nat [simp]: "n < 2 ^ 63 \<Longrightarrow> sint (word_of_nat n :: i64) = int n"
  by (simp add: signed_of_nat signed_take_bit_int_eq_self)

lemma word_of_nat_eq_iff:
  fixes w :: i64
  assumes "n < 2 ^ 64"
  shows "w = word_of_nat n \<longleftrightarrow> unat w = n"
  using assms by (auto simp: unat_of_nat simp flip: unsigned_word_eqI)

lemma BytesToInt_length:
  "n < MaxPacketSize \<Longrightarrow> BytesToInt (IntToBytes (word_of_nat n)) = word_of_nat n"
  by (simp add: word_of_nat_eq_iff unat_BytesToInt_IntToBytes unat_of_nat MaxPacketSize_def)

section \<open>Framing\<close>

text \<open>The bytes \<open>PacketEncode\<close> puts on the wire, and the packet a decoder reads from them.\<close>

definition frame :: "byte \<Rightarrow> byte list \<Rightarrow> byte list" where
  "frame ty data = ty # IntToBytes (word_of_nat (length data)) @ data"

definition packet_of :: "byte \<Rightarrow> byte list \<Rightarrow> packet" where
  "packet_of ty data =
     \<lparr>pkt_Type = ty, pkt_Length = word_of_nat (length data), pkt_Data = data\<rparr>"

lemma packet_of_simps [simp]:
  "pkt_Type (packet_of ty data) = ty" "pkt_Data (packet_of ty data) = data"
  "pkt_Length (packet_of ty data) = word_of_nat (length data)"
  by (simp_all add: packet_of_def)

lemma PacketEncode_Inr_iff:
  "PacketEncode ty data = Inr b \<longleftrightarrow>
     validPacketType ty \<and> length data \<le> MaxPacketSize \<and> b = frame ty data"
  by (auto simp: PacketEncode_def validPacketType_def frame_def)

lemma length_frame [simp]: "length (frame ty data) = HeadLength + length data"
  by (simp add: frame_def HeadLength_def)

lemma frame_head:
  "take HeadLength (frame ty data @ rest) = ty # IntToBytes (word_of_nat (length data))"
  "drop HeadLength (frame ty data @ rest) = data @ rest"
  by (simp_all add: frame_def HeadLength_def eval_nat_numeral)

lemma ParseHeader_head:
  assumes "validPacketType ty" and "n < MaxPacketSize"
  shows "ParseHeader (ty # IntToBytes (word_of_nat n)) = Inr (word_of_nat n, ty)"
proof -
  have "n < 2 ^ 63" using assms(2) by (simp add: MaxPacketSize_def)
  with assms show ?thesis
    by (simp add: ParseHeader_def HeadLength_def BytesToInt_length validPacketType_def Let_def)
qed

lemma forward_frame:
  "validPacketType ty \<Longrightarrow> length data < MaxPacketSize \<Longrightarrow>
     forward (frame ty data @ rest) = (Inr (word_of_nat (length data), ty), data @ rest)"
  by (simp add: forward_def frame_head ParseHeader_head del: take_append drop_append)

section \<open>Decoding arbitrary bytes\<close>

text \<open>A rest is incomplete when it has no whole header or less data than its header announces.\<close>

definition incomplete :: "byte list \<Rightarrow> bool" where
  "incomplete rest \<longleftrightarrow> length rest < HeadLength \<or>
     (\<exists>sz ty. ParseHeader (take HeadLength rest) = Inr (sz, ty) \<and>
        int (length rest - HeadLength) < sint sz)"

lemma base256_digits:
  fixes a b c :: nat
  assumes "b < 256" and "c < 256"
  shows "(a * 65536 + b * 256 + c) div 65536 = a"
    and "(a * 65536 + b * 256 + c) div 256 mod 256 = b"
    and "(a * 65536 + b * 256 + c) mod 256 = c"
proof -
  define x where "x = a * 256 + b"
  have eq: "a * 65536 + b * 256 + c = x * 256 + c" by (simp add: x_def)
  show "(a * 65536 + b * 256 + c) div 65536 = a" using assms by simp
  have "(x * 256 + c) div 256 = x" using assms by simp
  then show "(a * 65536 + b * 256 + c) div 256 mod 256 = b"
    unfolding eq using assms by (simp add: x_def)
  show "(a * 65536 + b * 256 + c) mod 256 = c" unfolding eq using assms by simp
qed

lemma ParseHeader_InrD:
  assumes "ParseHeader header = Inr (sz, ty)"
  shows "validPacketType ty" and "header = ty # IntToBytes sz" and "unat sz < MaxPacketSize"
    and "sint sz = int (unat sz)"
proof -
  have len: "length header = 4" and ty: "validPacketType ty" "ty = header ! 0"
    and sz: "sz = BytesToInt (tl header)"
    using assms by (auto simp: ParseHeader_def HeadLength_def validPacketType_def Let_def
        split: if_splits)
  then obtain a b c where h: "header = [ty, a, b, c]"
    by (auto simp: length_Suc_conv eval_nat_numeral)
  have u: "unat sz = unat a * 65536 + unat b * 256 + unat c"
    using sz h by (simp add: unat_BytesToInt_3)
  have abc: "unat a < 256" "unat b < 256" "unat c < 256"
    using unsigned_less [of a] unsigned_less [of b] unsigned_less [of c] by auto
  with u show "unat sz < MaxPacketSize" by (simp add: MaxPacketSize_def)
  then show "sint sz = int (unat sz)"
    using sint_word_of_nat [of "unat sz"] by (simp add: MaxPacketSize_def)
  have "unat (ucast (drop_bit 16 sz) :: byte) = unat a"
    and "unat (ucast (drop_bit 8 sz) :: byte) = unat b"
    and "unat (ucast (drop_bit 0 sz) :: byte) = unat c"
    unfolding unat_low_byte u using abc by (simp_all add: base256_digits)
  note this [THEN unsigned_word_eqI]
  then have "IntToBytes sz = [a, b, c]"
    by (simp only: IntToBytes_eq)
  with h show "header = ty # IntToBytes sz" by simp
  show "validPacketType ty" by (rule ty)
qed

lemma ParseHeader_total:
  assumes "length header = HeadLength"
  shows "if validPacketType (header ! 0) then \<exists>sz. ParseHeader header = Inr (sz, header ! 0)
         else ParseHeader header = Inl ErrWrongPomeloPacketType"
proof -
  obtain t a b c where h: "header = [t, a, b, c]"
    using assms by (auto simp: HeadLength_def length_Suc_conv eval_nat_numeral)
  have "unat a < 256" "unat b < 256" "unat c < 256"
    using unsigned_less [of a] unsigned_less [of b] unsigned_less [of c] by auto
  then have "unat (BytesToInt [a, b, c]) \<le> MaxPacketSize"
    by (simp add: unat_BytesToInt_3 MaxPacketSize_def)
  moreover from this have "sint (BytesToInt [a, b, c]) = int (unat (BytesToInt [a, b, c]))"
    using sint_word_of_nat [of "unat (BytesToInt [a, b, c])"] by (simp add: MaxPacketSize_def)
  ultimately have "\<not> int MaxPacketSize < sint (BytesToInt [a, b, c])"
    by (metis not_less of_nat_le_iff)
  then show ?thesis
    by (simp add: h ParseHeader_def HeadLength_def validPacketType_def Let_def)
qed

text \<open>A rest is refused when it has a whole header whose type is none of the packet types.\<close>

definition bad_header :: "byte list \<Rightarrow> bool" where
  "bad_header rest \<longleftrightarrow> HeadLength \<le> length rest \<and> \<not> validPacketType (rest ! 0)"

lemma head_of_take [simp]: "take HeadLength rest ! 0 = rest ! 0"
  by (simp add: HeadLength_def)

lemma frames_split:
  "\<exists>qs rest. data = concat (map (\<lambda>(t, d). frame t d) qs) @ rest \<and>
     (\<forall>(t, d) \<in> set qs. validPacketType t \<and> length d < MaxPacketSize) \<and>
     (incomplete rest \<or> bad_header rest)"
proof (induction data rule: length_induct)
  case (1 data)
  show ?case
  proof (cases "incomplete data \<or> bad_header data")
    case True
    then show ?thesis by (intro exI [of _ "[]"] exI [of _ data]) simp
  next
    case False
    then obtain sz where hd: "ParseHeader (take HeadLength data) = Inr (sz, data ! 0)"
      and sz: "sint sz \<le> int (length data - HeadLength)" and len: "HeadLength \<le> length data"
      using ParseHeader_total [of "take HeadLength data"]
      by (auto simp: incomplete_def bad_header_def not_less split: if_splits)
    define d where "d = take (unat sz) (drop HeadLength data)"
    define data' where "data' = drop (unat sz) (drop HeadLength data)"
    note h = ParseHeader_InrD [OF hd]
    have "unat sz \<le> length data - HeadLength"
      using sz unfolding h(4) by (simp only: of_nat_le_iff)
    then have d: "length d = unat sz" by (simp add: d_def)
    have "data = (data ! 0 # IntToBytes sz) @ d @ data'"
      using append_take_drop_id [of HeadLength data]
      unfolding d_def data'_def h(2) append_take_drop_id by simp
    then have eq: "data = frame (data ! 0) d @ data'"
      using d by (simp add: frame_def)
    then have "length data' < length data"
      by (metis length_append length_frame HeadLength_def less_add_same_cancel2 trans_less_add1
          zero_less_numeral)
    with "1.IH" obtain qs rest where "data' = concat (map (\<lambda>(t, d). frame t d) qs) @ rest"
        "\<forall>(t, d) \<in> set qs. validPacketType t \<and> length d < MaxPacketSize"
        "incomplete rest \<or> bad_header rest"
      by blast
    with eq d h show ?thesis
      by (intro exI [of _ "(data ! 0, d) # qs"] exI [of _ rest]) simp
  qed
qed

text \<open>
  The decoder on a sequence of frames followed by a rest of either kind. The outcome is the packets
  of the frames, or the error of the refused header.
\<close>

definition decoded :: "(byte \<times> byte list) list \<Rightarrow> byte list \<Rightarrow> packet list res" where
  "decoded qs rest =
     (if bad_header rest then Inl ErrWrongPomeloPacketType
      else Inr (map (\<lambda>(t, d). packet_of t d) qs))"

lemma forward_bad_header:
  "bad_header rest \<Longrightarrow> forward rest = (Inl ErrWrongPomeloPacketType, drop HeadLength rest)"
  using ParseHeader_total [of "take HeadLength rest"]
  by (auto simp: forward_def bad_header_def)

lemma incomplete_not_bad: "incomplete rest \<Longrightarrow> \<not> bad_header rest"
  using ParseHeader_total [of "take HeadLength rest"]
  by (auto simp: incomplete_def bad_header_def split: if_splits)

lemma decode_loop_rest:
  assumes "length data < MaxPacketSize" and "incomplete rest \<or> bad_header rest"
  shows "decode_loop (word_of_nat (length data)) ty (data @ rest) acc =
         map_sum (\<lambda>e. e) (append acc) (decoded [(ty, data)] rest)"
proof -
  have small: "length data < 2 ^ 63" using assms(1) by (simp add: MaxPacketSize_def)
  show ?thesis
  proof (cases "length rest < HeadLength")
    case True
    then show ?thesis using small
      by (simp add: decode_loop.simps packet_of_def decoded_def bad_header_def)
  next
    case False
    with assms(2) consider (bad) "bad_header rest"
      | (inc) sz t where "ParseHeader (take HeadLength rest) = Inr (sz, t)"
          "int (length rest - HeadLength) < sint sz" "\<not> bad_header rest"
      using incomplete_not_bad by (auto simp: incomplete_def)
    then show ?thesis
    proof cases
      case bad
      with False small show ?thesis
        by (simp add: decode_loop.simps [of "word_of_nat (length data)"] forward_bad_header decoded_def)
    next
      case inc
      with False small show ?thesis
        by (simp add: decode_loop.simps [of "word_of_nat (length data)"] decode_loop.simps [of sz]
            forward_def decoded_def packet_of_def)
    qed
  qed
qed

section \<open>The outcome of decoding\<close>

lemma decode_loop_frames:
  assumes "length data < MaxPacketSize" and "incomplete rest \<or> bad_header rest"
    and "\<forall>(t, d) \<in> set qs. validPacketType t \<and> length d < MaxPacketSize"
  shows "decode_loop (word_of_nat (length data)) ty
           (data @ concat (map (\<lambda>(t, d). frame t d) qs) @ rest) acc
         = map_sum (\<lambda>e. e) (append acc) (decoded ((ty, data) # qs) rest)"
  using assms
proof (induction qs arbitrary: data ty acc)
  case Nil
  then show ?case by (simp add: decode_loop_rest)
next
  case (Cons q qs)
  obtain t d where q: "q = (t, d)" by (cases q)
  let ?rest = "concat (map (\<lambda>(t, d). frame t d) qs) @ rest"
  have small: "length data < 2 ^ 63" using Cons.prems(1) by (simp add: MaxPacketSize_def)
  have fw: "forward (frame t d @ ?rest) = (Inr (word_of_nat (length d), t), d @ ?rest)"
    using Cons.prems(3) q by (simp add: forward_frame)
  have "decode_loop (word_of_nat (length d)) t (d @ ?rest) (acc @ [packet_of ty data])
      = map_sum (\<lambda>e. e) (append (acc @ [packet_of ty data])) (decoded ((t, d) # qs) rest)"
    using Cons.prems q by (intro Cons.IH) auto
  with small fw q show ?case
    by (simp add: decode_loop.simps [of "word_of_nat (length data)"] decoded_def
        packet_of_def [of ty data])
qed

lemma PacketDecode_rest:
  "incomplete rest \<Longrightarrow> PacketDecode rest = Inr []"
  "bad_header rest \<Longrightarrow> PacketDecode rest = Inl ErrWrongPomeloPacketType"
proof -
  assume "incomplete rest"
  then show "PacketDecode rest = Inr []"
    by (auto simp: PacketDecode_def incomplete_def forward_def decode_loop.simps)
next
  assume "bad_header rest"
  then show "PacketDecode rest = Inl ErrWrongPomeloPacketType"
    using forward_bad_header [of rest] by (auto simp: PacketDecode_def bad_header_def)
qed

lemma decoded_append [simp]: "map_sum (\<lambda>e. e) (append []) (decoded qs rest) = decoded qs rest"
  by (simp add: decoded_def)

lemma PacketDecode_frames:
  assumes "incomplete rest \<or> bad_header rest"
    and "\<forall>(t, d) \<in> set qs. validPacketType t \<and> length d < MaxPacketSize"
  shows "PacketDecode (concat (map (\<lambda>(t, d). frame t d) qs) @ rest) = decoded qs rest"
proof (cases qs)
  case Nil
  then show ?thesis
    using assms(1) incomplete_not_bad [of rest] PacketDecode_rest [of rest]
    by (auto simp: decoded_def)
next
  case (Cons q qs')
  obtain t d where "q = (t, d)" by (cases q)
  with Cons assms show ?thesis
    by (simp add: PacketDecode_def forward_frame decode_loop_frames del: append_Nil)
qed

text \<open>
  C1. The decoder is total and exact on arbitrary bytes. Every buffer is a sequence of frames that
  \<open>Encode\<close> produces, of packets of a valid type, followed by a rest. If the rest is incomplete,
  \<open>Decode\<close> returns exactly the packets of the frames, with their types, lengths and data, in order.
  Otherwise the rest starts with a whole header of an unknown type, and \<open>Decode\<close> returns the
  wrong-type error and no packet.
\<close>

theorem PacketDecode_spec:
  "\<exists>qs bs rest. data = concat bs @ rest \<and>
     list_all2 (\<lambda>(t, d) b. PacketEncode t d = Inr b) qs bs \<and>
     (incomplete rest \<and> PacketDecode data = Inr (map (\<lambda>(t, d). packet_of t d) qs) \<or>
      bad_header rest \<and> PacketDecode data = Inl ErrWrongPomeloPacketType)"
proof -
  obtain qs rest where *: "data = concat (map (\<lambda>(t, d). frame t d) qs) @ rest"
      "\<forall>(t, d) \<in> set qs. validPacketType t \<and> length d < MaxPacketSize"
      "incomplete rest \<or> bad_header rest"
    using frames_split by blast
  have "list_all2 (\<lambda>(t, d) b. PacketEncode t d = Inr b) qs (map (\<lambda>(t, d). frame t d) qs)"
    using *(2) by (auto simp: list_all2_conv_all_nth PacketEncode_Inr_iff split: prod.splits
        dest!: nth_mem intro: less_imp_le)
  moreover have "PacketDecode data = decoded qs rest"
    using PacketDecode_frames [OF *(3,2)] *(1) by simp
  ultimately show ?thesis
    using * incomplete_not_bad by (intro exI [of _ qs]) (auto simp: decoded_def)
qed

text \<open>
  C2. Round trip of the packet codec on a stream. Whatever packets are encoded one after the other
  into one buffer, decoding the buffer gives them back, each with its type, data and length, as
  long as the data of each is shorter than \<open>MaxPacketSize\<close>.
\<close>

theorem PacketDecode_Encode:
  assumes "list_all2 (\<lambda>(t, d) b. PacketEncode t d = Inr b) ps bs"
    and "\<forall>(t, d) \<in> set ps. length d < MaxPacketSize"
  shows "PacketDecode (concat bs) = Inr (map (\<lambda>(t, d). packet_of t d) ps)"
proof -
  have bs: "bs = map (\<lambda>(t, d). frame t d) ps"
    using assms(1) by (induction rule: list_all2_induct) (auto simp: PacketEncode_Inr_iff)
  have "\<forall>(t, d) \<in> set ps. validPacketType t \<and> length d < MaxPacketSize"
    using assms by (induction ps bs rule: list_all2_induct) (auto simp: PacketEncode_Inr_iff)
  moreover have "incomplete []" "\<not> bad_header []"
    by (simp_all add: incomplete_def bad_header_def HeadLength_def)
  ultimately show ?thesis
    using PacketDecode_frames [of "[]" ps] by (simp add: bs decoded_def)
qed

lemma PacketDecode_Encode_witness:
  "PacketDecode (concat [[4, 0, 0, 2, 7, 9], [3, 0, 0, 0]])
     = Inr (map (\<lambda>(t, d). packet_of t d) [(DataPacket, [7, 9]), (Heartbeat, [])])"
  by (rule PacketDecode_Encode)
    (simp_all add: PacketEncode_def MaxPacketSize_def IntToBytes_eq)

text \<open>
  The size check of \<open>Encode\<close> is off by one. Data of exactly \<open>MaxPacketSize = 2 ^ 24\<close> bytes is
  accepted, but its length does not fit the three length bytes: the header written announces an
  empty packet, and the first packet \<open>Decode\<close> reads back is empty.
\<close>

theorem PacketEncode_max_size_truncates:
  assumes "validPacketType ty" and "length data = MaxPacketSize"
  shows "\<exists>b. PacketEncode ty data = Inr b \<and> drop HeadLength b = data \<and>
    ParseHeader (take HeadLength b) = Inr (0, ty) \<and>
    (\<forall>ps. PacketDecode b = Inr ps \<longrightarrow> ps \<noteq> [] \<and> hd ps = packet_of ty [])"
proof -
  have "IntToBytes (word_of_nat (length data)) = IntToBytes 0"
    unfolding assms(2) by (simp add: MaxPacketSize_def IntToBytes_def)
  then have b: "frame ty data = frame ty [] @ data" by (simp add: frame_def)
  obtain qs rest where *: "data = concat (map (\<lambda>(t, d). frame t d) qs) @ rest"
      "\<forall>(t, d) \<in> set qs. validPacketType t \<and> length d < MaxPacketSize"
      "incomplete rest \<or> bad_header rest"
    using frames_split by blast
  have "PacketDecode (frame ty [] @ data) = decoded ((ty, []) # qs) rest"
    using PacketDecode_frames [OF *(3), of "(ty, []) # qs"] *(1,2) assms(1)
    by (simp add: MaxPacketSize_def)
  moreover have "ParseHeader (take HeadLength (frame ty [] @ data)) = Inr (0, ty)"
    using ParseHeader_head [OF assms(1), of 0] unfolding frame_head by (simp add: MaxPacketSize_def)
  moreover have "PacketEncode ty data = Inr (frame ty [] @ data)"
    using assms by (simp add: PacketEncode_Inr_iff b)
  ultimately show ?thesis
    by (intro exI [of _ "frame ty [] @ data"]) (simp add: decoded_def frame_head(2))
qed

lemma PacketEncode_max_size_truncates_witness:
  "\<exists>b. PacketEncode DataPacket (replicate MaxPacketSize 0) = Inr b \<and>
    drop HeadLength b = replicate MaxPacketSize 0 \<and>
    ParseHeader (take HeadLength b) = Inr (0, DataPacket)"
  using PacketEncode_max_size_truncates [of DataPacket "replicate MaxPacketSize 0"]
  by (auto simp: validPacketType_def)

end
