(* ===== verification/Message.thy ===== *)
theory Message
  imports Pitaya_Errors "HOL-Library.Monad_Syntax"
begin

text \<open>
  The message layer: \<open>conn/message\<close>. The route dictionary shared by the codec, \<open>SetDictionary\<close> and
  \<open>GetDictionary\<close>; \<open>MessageEncode\<close> and \<open>MessageDecode\<close>, the marshalling of a message with its
  flag byte, variable-length id, full or compressed route and optionally deflated payload. The
  dictionary stays a one-to-one correspondence whatever it is fed, a decoded encoding is the
  message, and decoding never indexes out of range.
\<close>

section \<open>Messages\<close>

abbreviation Request :: byte where "Request \<equiv> 0x00"
abbreviation Notify :: byte where "Notify \<equiv> 0x01"
abbreviation Response :: byte where "Response \<equiv> 0x02"
abbreviation Push :: byte where "Push \<equiv> 0x03"

abbreviation errorMask :: byte where "errorMask \<equiv> 0x20"
abbreviation gzipMask :: byte where "gzipMask \<equiv> 0x10"
abbreviation msgRouteCompressMask :: byte where "msgRouteCompressMask \<equiv> 0x01"
abbreviation msgTypeMask :: byte where "msgTypeMask \<equiv> 0x07"
abbreviation msgHeadLength :: nat where "msgHeadLength \<equiv> 2"

record message =
  msg_Type :: byte
  msg_ID :: u64
  msg_Route :: string
  msg_Data :: "byte list"
  msg_compressed :: bool
  msg_Err :: bool

definition NewMessage :: "bool list \<Rightarrow> message" where
  "NewMessage err =
     \<lparr>msg_Type = 0, msg_ID = 0, msg_Route = [], msg_Data = [], msg_compressed = False,
      msg_Err = (case err of [] \<Rightarrow> False | e # _ \<Rightarrow> e)\<rparr>"

definition routable :: "byte \<Rightarrow> bool" where
  "routable t \<longleftrightarrow> t = Request \<or> t = Notify \<or> t = Push"

definition invalidType :: "byte \<Rightarrow> bool" where
  "invalidType t \<longleftrightarrow> t < Request \<or> t > Push"

section \<open>The route dictionary\<close>

record dictionary =
  routes :: "string \<rightharpoonup> u16"
  codes :: "u16 \<rightharpoonup> string"

text \<open>
  The loop of \<open>SetDictionary\<close>: \<open>ks\<close> are the keys of the argument in the order the range statement
  visits them. The dictionary is returned with the error, since an early return leaves the entries
  added before it in place.
\<close>

fun set_dictionary_loop ::
  "(string \<rightharpoonup> u16) \<Rightarrow> string list \<Rightarrow> dictionary \<Rightarrow> dictionary \<times> goerr option" where
  "set_dictionary_loop dict [] d = (d, None)"
| "set_dictionary_loop dict (route # ks) d =
     (let code = the (dict route); r = TrimSpace route in
      if routes d r \<noteq> None then (d, Some (ErrNew ''duplicated route''))
      else if codes d code \<noteq> None then (d, Some (ErrNew ''duplicated route''))
      else set_dictionary_loop dict ks
             (d\<lparr>routes := (routes d)(r \<mapsto> code), codes := (codes d)(code \<mapsto> r)\<rparr>))"

definition SetDictionary ::
  "(string \<rightharpoonup> u16) option \<Rightarrow> string list \<Rightarrow> dictionary \<Rightarrow> dictionary \<times> goerr option" where
  "SetDictionary dict ks d =
     (case dict of None \<Rightarrow> (d, None) | Some m \<Rightarrow> set_dictionary_loop m ks d)"

definition GetDictionary :: "dictionary \<Rightarrow> (string \<rightharpoonup> u16)" where
  "GetDictionary d = routes d"

section \<open>Compression\<close>

text \<open>
  The operations of \<open>compress/zlib\<close> that \<open>util/compression\<close> calls are parameters: deflating a
  whole buffer, opening a reader on a buffer, which may fail on the stream's header, and reading
  it to its end.
\<close>

record 'r zlib =
  zlib_write :: "byte list \<Rightarrow> byte list res"
  zlib_NewReader :: "byte list \<Rightarrow> 'r res"
  zlib_ReadAll :: "'r \<Rightarrow> byte list res"

definition DeflateData :: "'r zlib \<Rightarrow> byte list \<Rightarrow> byte list res" where
  "DeflateData z data = zlib_write z data"

definition InflateData :: "'r zlib \<Rightarrow> byte list \<Rightarrow> byte list res" where
  "InflateData z data = and_then (zlib_NewReader z data) (zlib_ReadAll z)"

definition IsCompressed :: "byte list \<Rightarrow> bool" where
  "IsCompressed data \<longleftrightarrow> length data > 2 \<and>
     (data ! 0 = 0x78 \<and>
        (data ! 1 = 0x9C \<or> data ! 1 = 0x01 \<or> data ! 1 = 0xDA \<or> data ! 1 = 0x5E) \<or>
      data ! 0 = 0x1F \<and> data ! 1 = 0x8B)"

section \<open>Encoding\<close>

lemma drop_bit_7_less: "drop_bit 7 n \<noteq> 0 \<Longrightarrow> unat (drop_bit 7 n) < unat (n :: u64)"
proof -
  assume "drop_bit 7 n \<noteq> 0"
  then have "n \<noteq> 0" by auto
  then have "unat n > 0" by (simp add: unat_gt_0)
  then have "drop_bit 7 (unat n) < unat n" by (simp add: drop_bit_eq_div)
  then show ?thesis by (simp only: unat_drop_bit_eq)
qed

text \<open>The variable-length id: seven bits a byte, the lowest first, the top bit set on all but the last.\<close>

function encode_id :: "u64 \<Rightarrow> byte list" where
  "encode_id n =
     (let b = ucast (n mod 128); n' = drop_bit 7 n in
      if n' \<noteq> 0 then (b + 128) # encode_id n' else [b])"
  by pat_completeness auto
termination
  by (relation "measure unat") (auto simp: drop_bit_7_less)

declare encode_id.simps [simp del]

text \<open>
  \<open>MessageEncode\<close> is given the compression switch of the encoder, the compression library and the
  dictionary. It returns the bytes and the message, whose data it replaces when the deflated data
  is shorter.
\<close>

definition MessageEncode ::
  "bool \<Rightarrow> 'r zlib \<Rightarrow> dictionary \<Rightarrow> message \<Rightarrow> (byte list \<times> message) res" where
  "MessageEncode dataCompression z d m =
     (if invalidType (msg_Type m) then Inl ErrWrongMessageType
      else
        let flag = push_bit 1 (msg_Type m);
            compressed = (routes d (msg_Route m) \<noteq> None);
            code = the (routes d (msg_Route m));
            flag = (if compressed then flag OR msgRouteCompressMask else flag);
            flag = (if msg_Err m then flag OR errorMask else flag);
            buf = (if msg_Type m = Request \<or> msg_Type m = Response then encode_id (msg_ID m)
                   else []);
            buf = buf @
              (if routable (msg_Type m) then
                 if compressed then [ucast (drop_bit 8 code AND 0xFF), ucast (code AND 0xFF)]
                 else word_of_nat (length (msg_Route m)) # str_bytes (msg_Route m)
               else [])
        in if dataCompression then
             (case DeflateData z (msg_Data m) of
                Inl e \<Rightarrow> Inl e
              | Inr dd \<Rightarrow>
                  if length dd < length (msg_Data m)
                  then Inr ((flag OR gzipMask) # buf @ dd, m\<lparr>msg_Data := dd\<rparr>)
                  else Inr (flag # buf @ msg_Data m, m))
           else Inr (flag # buf @ msg_Data m, m))"

section \<open>Decoding\<close>

text \<open>
  The loop that reads the id. The second component is the position after the byte that ends it,
  counted from where the loop started. \<open>None\<close> stands for a buffer that ends first, after which
  the offset is the one before the loop.
\<close>

fun decode_id :: "nat \<Rightarrow> byte list \<Rightarrow> u64 \<Rightarrow> u64 \<times> nat option" where
  "decode_id k [] ident = (ident, None)"
| "decode_id k (b # bs) ident =
     (let ident = ident + push_bit (7 * k) (ucast (b AND 0x7F)) in
      if b < 128 then (ident, Some (Suc k)) else decode_id (Suc k) bs ident)"

definition read_id :: "byte list \<Rightarrow> nat \<Rightarrow> u64 \<times> nat" where
  "read_id data offset =
     (case decode_id 0 (drop offset data) 0 of
        (ident, None) \<Rightarrow> (ident, offset)
      | (ident, Some k) \<Rightarrow> (ident, offset + k))"

definition BigEndian_Uint16 :: "byte list \<Rightarrow> u16 option" where
  "BigEndian_Uint16 b =
     do { b1 \<leftarrow> index b 1; b0 \<leftarrow> index b 0; Some (ucast b1 OR push_bit 8 (ucast b0)) }"

text \<open>The route: whether it was compressed, the route itself and the offset after it.\<close>

definition decode_route ::
  "dictionary \<Rightarrow> byte \<Rightarrow> byte list \<Rightarrow> nat \<Rightarrow> (bool \<times> string \<times> nat) res option" where
  "decode_route d flag data offset =
     (let sz = length data in
      if flag AND msgRouteCompressMask = 1 then
        if offset > sz \<or> offset + 2 > sz then Some (Inl ErrInvalidMessage)
        else do {
          b \<leftarrow> subslice data offset (offset + 2);
          code \<leftarrow> BigEndian_Uint16 b;
          (case codes d code of
             None \<Rightarrow> Some (Inl ErrRouteInfoNotFound)
           | Some route \<Rightarrow> Some (Inr (True, route, offset + 2))) }
      else
        if offset \<ge> sz then Some (Inl ErrInvalidMessage)
        else do {
          rl \<leftarrow> index data offset;
          let offset = offset + 1;
          if offset > sz \<or> offset + unat rl > sz then Some (Inl ErrInvalidMessage)
          else do {
            b \<leftarrow> subslice data offset (offset + unat rl);
            Some (Inr (False, bytes_str b, offset + unat rl)) } })"

text \<open>The payload, inflated when the flag says so.\<close>

definition decode_data :: "'r zlib \<Rightarrow> byte \<Rightarrow> byte list \<Rightarrow> nat \<Rightarrow> byte list res option" where
  "decode_data z flag data offset =
     (if offset > length data then Some (Inl ErrInvalidMessage)
      else do {
        body \<leftarrow> subslice data offset (length data);
        Some (if flag AND gzipMask = gzipMask then InflateData z body else Inr body) })"

definition MessageDecode :: "'r zlib \<Rightarrow> dictionary \<Rightarrow> byte list \<Rightarrow> message res option" where
  "MessageDecode z d data =
     (if length data < msgHeadLength then Some (Inl ErrInvalidMessage)
      else do {
        flag \<leftarrow> index data 0;
        let ty = drop_bit 1 flag AND msgTypeMask;
        if invalidType ty then Some (Inl ErrWrongMessageType)
        else do {
          let (ident, offset) =
            (if ty = Request \<or> ty = Response then read_id data 1 else (0, 1));
          let err = (flag AND errorMask = errorMask);
          route \<leftarrow> (if routable ty then decode_route d flag data offset
                   else Some (Inr (False, [], offset)));
          (case route of
             Inl e \<Rightarrow> Some (Inl e)
           | Inr (compressed, r, offset) \<Rightarrow> do {
               body \<leftarrow> decode_data z flag data offset;
               Some (and_then body (\<lambda>b. Inr ((NewMessage [])
                 \<lparr>msg_Type := ty, msg_ID := ident, msg_Route := r, msg_Data := b,
                  msg_compressed := compressed, msg_Err := err\<rparr>))) }) } })"

section \<open>The dictionary is one to one\<close>

definition dict_ok :: "dictionary \<Rightarrow> bool" where
  "dict_ok d \<longleftrightarrow> (\<forall>r c. routes d r = Some c \<longleftrightarrow> codes d c = Some r)"

lemma dict_okD: "dict_ok d \<Longrightarrow> routes d r = Some c \<longleftrightarrow> codes d c = Some r"
  by (simp add: dict_ok_def)

lemma dict_ok_extend [inv_intros]:
  assumes "dict_ok d" and "routes d r = None" and "codes d c = None"
  shows "dict_ok (d\<lparr>routes := (routes d)(r \<mapsto> c), codes := (codes d)(c \<mapsto> r)\<rparr>)"
  using assms unfolding dict_ok_def by (auto, (metis option.distinct(1))+)

text \<open>
  The entries a run of the loop has to find free: the keys not yet visited, trimmed, are new routes
  and pairwise different, and so are their codes.
\<close>

definition fresh_entries :: "(string \<rightharpoonup> u16) \<Rightarrow> string list \<Rightarrow> dictionary \<Rightarrow> bool" where
  "fresh_entries dict ks d \<longleftrightarrow>
     distinct (map TrimSpace ks) \<and> distinct (map (the \<circ> dict) ks) \<and>
     (\<forall>k \<in> set ks. routes d (TrimSpace k) = None \<and> codes d (the (dict k)) = None)"

lemma set_dictionary_loop_spec:
  assumes "dict_ok d" and "set_dictionary_loop dict ks d = (d', e)"
  shows "dict_ok d' \<and> routes d \<subseteq>\<^sub>m routes d' \<and> (e = None \<longleftrightarrow> fresh_entries dict ks d) \<and>
    (e = None \<longrightarrow> (\<forall>r c. routes d' r = Some c \<longleftrightarrow>
       routes d r = Some c \<or> (\<exists>k \<in> set ks. TrimSpace k = r \<and> the (dict k) = c)))"
  using assms
proof (induction dict ks d rule: set_dictionary_loop.induct)
  case (1 dict d)
  then show ?case by (simp add: fresh_entries_def)
next
  case (2 dict k ks d)
  let ?r = "TrimSpace k" and ?c = "the (dict k)"
  let ?d = "d\<lparr>routes := (routes d)(?r \<mapsto> ?c), codes := (codes d)(?c \<mapsto> ?r)\<rparr>"
  show ?case
  proof (cases "routes d ?r = None \<and> codes d ?c = None")
    case False
    then have "d' = d" "e \<noteq> None" using "2.prems"(2) by (auto simp: Let_def split: if_splits)
    with False "2.prems"(1) show ?thesis by (auto simp: fresh_entries_def)
  next
    case True
    have loop: "set_dictionary_loop dict ks ?d = (d', e)"
      using True "2.prems"(2) by (simp add: Let_def)
    have ok: "dict_ok ?d" using True "2.prems"(1) by (auto intro: inv_intros)
    have fresh: "fresh_entries dict (k # ks) d \<longleftrightarrow> fresh_entries dict ks ?d"
      using True by (auto simp: fresh_entries_def image_iff split: if_splits)
    have "\<not> routes d ?r \<noteq> None" "\<not> codes d ?c \<noteq> None" using True by auto
    note ih = "2.IH" [OF refl refl this ok loop]
    have "routes d \<subseteq>\<^sub>m routes ?d" using True by (auto simp: map_le_def)
    then have "routes d \<subseteq>\<^sub>m routes d'" by (rule map_le_trans) (use ih in blast)
    with True ih fresh show ?thesis by auto
  qed
qed

text \<open>
  C5. Whatever \<open>SetDictionary\<close> is given and in whatever order it visits it, the dictionary stays a
  one-to-one correspondence of routes and codes and loses no entry, also when it returns an error
  half way. It succeeds exactly when the trimmed routes are new and pairwise different and the codes
  are too, and the dictionary then holds the former entries and the new ones.
\<close>

theorem SetDictionary_correct:
  assumes "dict_ok d" and "enumerates ks dict" and "SetDictionary (Some dict) ks d = (d', e)"
  shows "dict_ok d' \<and> routes d \<subseteq>\<^sub>m routes d' \<and>
    (e = None \<longleftrightarrow> inj_on TrimSpace (dom dict) \<and> inj_on dict (dom dict) \<and>
       TrimSpace ` dom dict \<inter> dom (routes d) = {} \<and> ran dict \<inter> dom (codes d) = {}) \<and>
    (e = None \<longrightarrow> (\<forall>r c. routes d' r = Some c \<longleftrightarrow>
       routes d r = Some c \<or> (\<exists>k. dict k = Some c \<and> TrimSpace k = r)))"
proof -
  have ks: "distinct ks" "set ks = dom dict" using assms(2) by auto
  have loop: "set_dictionary_loop dict ks d = (d', e)"
    using assms(3) by (simp add: SetDictionary_def)
  note spec = set_dictionary_loop_spec [OF assms(1) loop]
  have inj: "inj_on dict (dom dict) \<longleftrightarrow> inj_on (the \<circ> dict) (dom dict)"
    by (auto simp: inj_on_def dom_def)
  have free: "(\<forall>k \<in> dom dict. routes d (TrimSpace k) = None \<and> codes d (the (dict k)) = None) \<longleftrightarrow>
      TrimSpace ` dom dict \<inter> dom (routes d) = {} \<and> ran dict \<inter> dom (codes d) = {}"
    by (fastforce simp: ran_def dom_def)
  have new: "(\<exists>k \<in> dom dict. TrimSpace k = r \<and> the (dict k) = c) \<longleftrightarrow>
      (\<exists>k. dict k = Some c \<and> TrimSpace k = r)" for r c
    by (auto simp: dom_def)
  show ?thesis
    using spec unfolding fresh_entries_def distinct_map ks(2) inj free new using ks(1) by blast
qed

lemma SetDictionary_correct_witness:
  "dict_ok (fst (SetDictionary (Some [''a.b'' \<mapsto> 1, ''c.d'' \<mapsto> 1]) [''a.b'', ''c.d'']
     \<lparr>routes = Map.empty, codes = Map.empty\<rparr>))"
proof -
  define d :: dictionary where "d = \<lparr>routes = Map.empty, codes = Map.empty\<rparr>"
  define m :: "string \<rightharpoonup> u16" where "m = [''a.b'' \<mapsto> 1, ''c.d'' \<mapsto> 1]"
  have "dict_ok d" by (simp add: d_def dict_ok_def)
  moreover have "enumerates [''a.b'', ''c.d''] m" by (auto simp: m_def enumerates_def)
  ultimately show ?thesis
    using SetDictionary_correct [of d "[''a.b'', ''c.d'']" m, OF _ _ surjective_pairing]
    unfolding d_def m_def by blast
qed

section \<open>Variable-length ids\<close>

lemma low_id_byte:
  fixes n :: u64
  defines "b \<equiv> ucast (n mod 128) :: byte"
  shows "b < 128" and "\<not> b + 128 < 128" and "ucast (b AND 0x7F) = n mod 128"
    and "ucast ((b + 128) AND 0x7F) = n mod 128"
proof -
  have m: "unat n mod 128 < 128" by simp
  have b: "unat b = unat n mod 128"
    by (simp add: b_def unsigned_ucast_eq take_bit_eq_mod unat_word_ariths)
  have s: "unat (b + 128) = unat n mod 128 + 128"
    using m by (simp add: unat_word_ariths b)
  show "b < 128" "\<not> b + 128 < 128" using b s by (simp_all add: word_less_nat_alt)
  have k: "unat (w AND 0x7F) = unat w mod 128" for w :: byte
    using unsigned_take_bit_eq [of 7 w, where ?'a = nat] take_bit_eq_mod [of 7 "unat w"]
    by (simp add: take_bit_eq_mask mask_eq_exp_minus_1)
  have "unat (ucast (w AND 0x7F) :: u64) = unat w mod 128" for w :: byte
    by (simp add: unsigned_ucast_eq take_bit_eq_mod k)
  then have "unat (ucast (b AND 0x7F) :: u64) = unat (n mod 128)"
    "unat (ucast ((b + 128) AND 0x7F) :: u64) = unat (n mod 128)"
    by (simp_all add: b s unat_word_ariths mod_add_right_eq)
  then show "ucast (b AND 0x7F) = n mod 128" "ucast ((b + 128) AND 0x7F) = n mod 128"
    by (simp_all add: unsigned_word_eqI)
qed

lemma decode_id_encode_id:
  "decode_id k (encode_id n @ rest) ident =
     (ident + push_bit (7 * k) n, Some (k + length (encode_id n)))"
proof (induction n arbitrary: k ident rule: encode_id.induct)
  case (1 n)
  have split: "push_bit (7 * k) n =
      push_bit (7 * k) (n mod 128) + push_bit (7 * Suc k) (drop_bit 7 n)"
  proof -
    have "n = n mod 128 + push_bit 7 (drop_bit 7 n)"
      by (simp add: push_bit_eq_mult drop_bit_eq_div mod_mult_div_eq mult.commute)
    then show ?thesis
      using push_bit_add [of "7 * k" "n mod 128" "push_bit 7 (drop_bit 7 n)"]
      by (simp only: push_bit_push_bit add.commute [of "7 * k"] mult_Suc_right)
  qed
  show ?case
  proof (cases "drop_bit 7 n = 0")
    case True
    then show ?thesis
      using split low_id_byte [of n] by (simp add: encode_id.simps [of n])
  next
    case False
    then show ?thesis
      using split low_id_byte [of n] "1.IH" [OF refl refl]
      by (simp add: encode_id.simps [of n] Let_def ac_simps)
  qed
qed

section \<open>Round trip\<close>

lemma BigEndian_Uint16_code [simp]:
  "BigEndian_Uint16 [ucast (drop_bit 8 code AND 0xFF), ucast (code AND 0xFF)] = Some code"
proof -
  have m: "w AND 0xFF = take_bit 8 w" for w :: u16
    by (simp add: take_bit_eq_mask mask_eq_exp_minus_1)
  have "ucast (ucast (code AND 0xFF) :: byte) OR
      push_bit 8 (ucast (ucast (drop_bit 8 code AND 0xFF) :: byte)) = code"
    unfolding m by (rule bit_word_eqI)
      (auto simp: bit_ucast_iff bit_or_iff bit_push_bit_iff bit_take_bit_iff bit_drop_bit_eq)
  then show ?thesis by (simp add: BigEndian_Uint16_def)
qed

text \<open>The header of an encoded message and how it is read back, for each type of message.\<close>

lemma valid_type_cases:
  assumes "\<not> invalidType t"
  obtains "t = Request" | "t = Notify" | "t = Response" | "t = Push"
proof -
  have "unat t \<le> 3" using assms by (simp add: invalidType_def word_le_nat_alt not_less)
  then have "unat t = unat (0 :: byte) \<or> unat t = unat (1 :: byte) \<or> unat t = unat (2 :: byte) \<or>
      unat t = unat (3 :: byte)"
    by auto
  then show ?thesis using that unsigned_word_eqI by blast
qed

definition flag_of :: "byte \<Rightarrow> bool \<Rightarrow> bool \<Rightarrow> bool \<Rightarrow> byte" where
  "flag_of ty compressed err gz =
     (let f = push_bit 1 ty; f = (if compressed then f OR msgRouteCompressMask else f);
          f = (if err then f OR errorMask else f)
      in if gz then f OR gzipMask else f)"

lemma flag_of_read:
  assumes "\<not> invalidType ty"
  shows "drop_bit 1 (flag_of ty compressed err gz) AND msgTypeMask = ty"
    and "flag_of ty compressed err gz AND msgRouteCompressMask = 1 \<longleftrightarrow> compressed"
    and "flag_of ty compressed err gz AND errorMask = errorMask \<longleftrightarrow> err"
    and "flag_of ty compressed err gz AND gzipMask = gzipMask \<longleftrightarrow> gz"
  by (rule valid_type_cases [OF assms];
      cases compressed; cases err; cases gz; simp add: flag_of_def)+

text \<open>
  The parts of an encoded message after the flag: the id, the route and the payload, with whether the
  payload is deflated.
\<close>

definition enc_id :: "message \<Rightarrow> byte list" where
  "enc_id m = (if msg_Type m = Request \<or> msg_Type m = Response then encode_id (msg_ID m) else [])"

definition enc_route :: "dictionary \<Rightarrow> message \<Rightarrow> byte list" where
  "enc_route d m =
     (if routable (msg_Type m) then
        (case routes d (msg_Route m) of
           Some code \<Rightarrow> [ucast (drop_bit 8 code AND 0xFF), ucast (code AND 0xFF)]
         | None \<Rightarrow> word_of_nat (length (msg_Route m)) # str_bytes (msg_Route m))
      else [])"

lemma MessageEncode_eq:
  "MessageEncode dc z d m =
     (if invalidType (msg_Type m) then Inl ErrWrongMessageType
      else
        let flag = flag_of (msg_Type m) (routes d (msg_Route m) \<noteq> None) (msg_Err m);
            buf = enc_id m @ enc_route d m
        in if dc then
             (case DeflateData z (msg_Data m) of
                Inl e \<Rightarrow> Inl e
              | Inr dd \<Rightarrow>
                  if length dd < length (msg_Data m)
                  then Inr (flag True # buf @ dd, m\<lparr>msg_Data := dd\<rparr>)
                  else Inr (flag False # buf @ msg_Data m, m))
           else Inr (flag False # buf @ msg_Data m, m))"
proof -
  have "(if routes d (msg_Route m) \<noteq> None then [ucast (drop_bit 8 (the (routes d (msg_Route m))) AND 0xFF),
        ucast (the (routes d (msg_Route m)) AND 0xFF)]
      else word_of_nat (length (msg_Route m)) # str_bytes (msg_Route m)) =
     (case routes d (msg_Route m) of
        Some code \<Rightarrow> [ucast (drop_bit 8 code AND 0xFF), ucast (code AND 0xFF)]
      | None \<Rightarrow> word_of_nat (length (msg_Route m)) # str_bytes (msg_Route m))"
    by (cases "routes d (msg_Route m)") auto
  then show ?thesis
    unfolding MessageEncode_def flag_of_def enc_id_def enc_route_def Let_def
    by (simp only: if_True if_False)
qed

lemma MessageEncode_InrD:
  assumes "MessageEncode dc z d m = Inr (b, m')"
  obtains gz body where "b = flag_of (msg_Type m) (routes d (msg_Route m) \<noteq> None) (msg_Err m) gz #
      enc_id m @ enc_route d m @ body"
    and "\<not> invalidType (msg_Type m)" and "m' = m\<lparr>msg_Data := body\<rparr>"
    and "if gz then DeflateData z (msg_Data m) = Inr body else body = msg_Data m"
proof -
  define flag where "flag = flag_of (msg_Type m) (routes d (msg_Route m) \<noteq> None) (msg_Err m)"
  define buf where "buf = enc_id m @ enc_route d m"
  have ok: "\<not> invalidType (msg_Type m)"
    using assms unfolding MessageEncode_eq by (rule contrapos_pn) simp
  have eq: "(if dc then (case DeflateData z (msg_Data m) of Inl e \<Rightarrow> Inl e
        | Inr dd \<Rightarrow> if length dd < length (msg_Data m)
            then Inr (flag True # buf @ dd, m\<lparr>msg_Data := dd\<rparr>)
            else Inr (flag False # buf @ msg_Data m, m))
      else Inr (flag False # buf @ msg_Data m, m)) = Inr (b, m')"
    using assms ok unfolding MessageEncode_eq Let_def flag_def buf_def by (simp only: if_False)
  show ?thesis
  proof (cases "\<exists>dd. DeflateData z (msg_Data m) = Inr dd \<and> b = flag True # buf @ dd \<and>
      m' = m\<lparr>msg_Data := dd\<rparr>")
    case True
    then show ?thesis using that [of True] ok unfolding flag_def buf_def by auto
  next
    case False
    then have "b = flag False # buf @ msg_Data m" "m' = m"
      using eq by (auto split: if_split_asm sum.split_asm)
    then show ?thesis using that [of False "msg_Data m"] ok unfolding flag_def buf_def by simp
  qed
qed

lemma decode_route_enc:
  assumes "dict_ok d" and "routable (msg_Type m)"
    and "flag AND msgRouteCompressMask = 1 \<longleftrightarrow> routes d (msg_Route m) \<noteq> None"
    and "routes d (msg_Route m) = None \<Longrightarrow> length (msg_Route m) < 256"
  shows "decode_route d flag (pre @ enc_route d m @ rest) (length pre) =
    Some (Inr (routes d (msg_Route m) \<noteq> None, msg_Route m, length pre + length (enc_route d m)))"
proof (cases "routes d (msg_Route m)")
  case None
  with assms have len: "unat (word_of_nat (length (msg_Route m)) :: byte) = length (msg_Route m)"
    by (simp add: unat_of_nat)
  from None assms show ?thesis
    by (simp add: decode_route_def enc_route_def nth_append len)
next
  case (Some code)
  then have "codes d code = Some (msg_Route m)" using assms(1) by (simp add: dict_okD)
  with Some assms(2,3) show ?thesis
    by (simp add: decode_route_def enc_route_def)
qed

lemma read_id_enc:
  "msg_Type m = Request \<or> msg_Type m = Response \<Longrightarrow>
     read_id (flag # enc_id m @ rest) 1 = (msg_ID m, 1 + length (enc_id m))"
  by (simp add: read_id_def enc_id_def decode_id_encode_id)

lemma encode_id_nonempty [simp]: "encode_id n \<noteq> []"
  by (simp add: encode_id.simps [of n] Let_def)

lemma enc_header_length:
  "\<not> invalidType (msg_Type m) \<Longrightarrow> 0 < length (enc_id m @ enc_route d m)"
  by (erule valid_type_cases) (auto simp: enc_id_def enc_route_def routable_def split: option.splits)

text \<open>What the receiver of a message sees of it.\<close>

definition received :: "dictionary \<Rightarrow> message \<Rightarrow> message" where
  "received d m = m
     \<lparr>msg_ID := (if msg_Type m = Request \<or> msg_Type m = Response then msg_ID m else 0),
      msg_Route := (if routable (msg_Type m) then msg_Route m else []),
      msg_compressed := routable (msg_Type m) \<and> routes d (msg_Route m) \<noteq> None\<rparr>"

lemma MessageDecode_encoded:
  assumes "dict_ok d"
    and zlib: "\<And>x y. DeflateData z x = Inr y \<Longrightarrow> InflateData z y = Inr x"
    and "routable (msg_Type m) \<Longrightarrow> routes d (msg_Route m) = None \<Longrightarrow> length (msg_Route m) < 256"
    and "MessageEncode dataCompression z d m = Inr (b, m')"
  shows "MessageDecode z d b = Some (Inr (received d m))"
proof -
  let ?c = "routes d (msg_Route m) \<noteq> None"
  obtain gz body where b: "b = flag_of (msg_Type m) ?c (msg_Err m) gz # enc_id m @ enc_route d m @ body"
    and ok: "\<not> invalidType (msg_Type m)"
    and gz: "if gz then DeflateData z (msg_Data m) = Inr body else body = msg_Data m"
    by (rule MessageEncode_InrD [OF assms(4)]) blast
  define flag where "flag = flag_of (msg_Type m) ?c (msg_Err m) gz"
  define offset where "offset = 1 + length (enc_id m)"
  note flag = flag_of_read [OF ok, of ?c "msg_Err m" gz, folded flag_def]
  have b: "b = flag # enc_id m @ enc_route d m @ body" using b by (simp add: flag_def)
  have data: "decode_data z flag b (offset + length (enc_route d m)) = Some (Inr (msg_Data m))"
    using gz flag(4) zlib by (cases gz) (auto simp: decode_data_def b offset_def)
  have route: "decode_route d flag b offset =
      Some (Inr (?c, msg_Route m, offset + length (enc_route d m)))" if "routable (msg_Type m)"
    using decode_route_enc [OF assms(1) that flag(2), of "flag # enc_id m" body] assms(3) that
    by (simp add: b offset_def)
  have len: "\<not> length b < msgHeadLength" using enc_header_length [OF ok, of d] by (auto simp: b)
  have ident: "(if msg_Type m = Request \<or> msg_Type m = Response then read_id b 1 else (0, 1)) =
      (if msg_Type m = Request \<or> msg_Type m = Response then msg_ID m else 0, offset)"
    using read_id_enc [of m flag "enc_route d m @ body"] by (simp add: b offset_def enc_id_def)
  have "(if routable (msg_Type m) then decode_route d flag b offset else Some (Inr (False, [], offset)))
      = Some (Inr (routable (msg_Type m) \<and> ?c, if routable (msg_Type m) then msg_Route m else [],
          offset + length (enc_route d m)))"
    using route by (simp add: enc_route_def)
  moreover have "index b 0 = Some flag" by (simp add: b)
  ultimately show ?thesis
    using ok len flag(1,3) data
    by (simp only: MessageDecode_def ident Let_def prod.case if_False Option.bind.bind_lunit
        bind.bind_lunit)
       (simp add: received_def NewMessage_def)
qed


text \<open>A compression library with one compressible input, for the examples.\<close>

definition zlib_example :: "byte list zlib" where
  "zlib_example =
     \<lparr>zlib_write = (\<lambda>x. Inr (if x = [7, 7, 7, 7] then [1] else 0 # x)),
      zlib_NewReader = Inr,
      zlib_ReadAll = (\<lambda>y. Inr (if y = [1] then [7, 7, 7, 7] else tl y))\<rparr>"

lemma zlib_example_inverse:
  "DeflateData zlib_example x = Inr y \<Longrightarrow> InflateData zlib_example y = Inr x"
  by (auto simp: zlib_example_def DeflateData_def InflateData_def split: if_splits)


section \<open>Decoding arbitrary bytes\<close>

lemma decode_id_bound: "decode_id k bs ident = (i, Some n) \<Longrightarrow> n \<le> k + length bs"
  by (induction k bs ident rule: decode_id.induct) (auto simp: Let_def split: if_splits)

lemma read_id_bound:
  assumes "offset \<le> length data"
  shows "snd (read_id data offset) \<le> length data"
proof -
  obtain i n where "decode_id 0 (drop offset data) 0 = (i, n)" by fastforce
  then show ?thesis
    using assms decode_id_bound [of 0 "drop offset data" 0 i]
    by (cases n) (auto simp: read_id_def)
qed

lemma decode_route_total:
  obtains e where "decode_route d flag data offset = Some (Inl e)"
      and "e = ErrInvalidMessage \<or> e = ErrRouteInfoNotFound"
  | route code offset' where "decode_route d flag data offset = Some (Inr (True, route, offset'))"
      and "codes d code = Some route" and "offset' \<le> length data"
  | route offset' where "decode_route d flag data offset = Some (Inr (False, route, offset'))"
      and "length route < 256" and "offset' \<le> length data"
proof (cases "flag AND msgRouteCompressMask = 1")
  case True
  show ?thesis
  proof (cases "offset + 2 \<le> length data")
    case in_range: True
    define b where "b = take 2 (drop offset data)"
    obtain code where code: "BigEndian_Uint16 b = Some code"
      using in_range by (auto simp: BigEndian_Uint16_def b_def)
    then have eq: "decode_route d flag data offset = (case codes d code of
        None \<Rightarrow> Some (Inl ErrRouteInfoNotFound) | Some route \<Rightarrow> Some (Inr (True, route, offset + 2)))"
      using True in_range by (simp add: decode_route_def b_def)
    show ?thesis
    proof (cases "codes d code")
      case None
      with eq show ?thesis by (intro that(1) [of ErrRouteInfoNotFound]) simp_all
    next
      case (Some route)
      with eq in_range show ?thesis by (intro that(2)) simp_all
    qed
  next
    case False
    with True show ?thesis by (intro that(1) [of ErrInvalidMessage]) (simp_all add: decode_route_def)
  qed
next
  case False
  show ?thesis
  proof (cases "offset < length data \<and> offset + 1 + unat (data ! offset) \<le> length data")
    case True
    have "unat (data ! offset) < 256" using unsigned_less [of "data ! offset"] by simp
    with True False show ?thesis
      by (intro that(3) [of "bytes_str (take (unat (data ! offset)) (drop (offset + 1) data))"
            "offset + 1 + unat (data ! offset)"]) (simp_all add: decode_route_def)
  next
    case False': False
    with False show ?thesis
      by (intro that(1) [of ErrInvalidMessage]) (auto simp: decode_route_def Let_def not_less index_def)
  qed
qed

text \<open>What a result of \<open>Decode\<close> is: an error of the package or of the decompression, or a message.\<close>

definition decode_outcome_ok :: "'r zlib \<Rightarrow> dictionary \<Rightarrow> message res \<Rightarrow> bool" where
  "decode_outcome_ok z d r \<longleftrightarrow>
     (case r of
        Inl e \<Rightarrow> e = ErrInvalidMessage \<or> e = ErrWrongMessageType \<or> e = ErrRouteInfoNotFound \<or>
          (\<exists>x. InflateData z x = Inl e)
      | Inr m \<Rightarrow> \<not> invalidType (msg_Type m) \<and>
          (if \<not> routable (msg_Type m) then msg_Route m = [] \<and> \<not> msg_compressed m
           else if msg_compressed m then msg_Route m \<in> ran (codes d)
           else length (msg_Route m) < 256))"

lemma decode_body_outcome:
  assumes "offset \<le> length data" and "\<And>b. decode_outcome_ok z d (Inr (mk b))"
  shows "\<exists>r. Option.bind (decode_data z flag data offset) (\<lambda>body.
      Some (and_then body (\<lambda>b. Inr (mk b)))) = Some r \<and> decode_outcome_ok z d r"
proof -
  let ?body = "if flag AND gzipMask = gzipMask then InflateData z (drop offset data)
    else Inr (drop offset data)"
  have "decode_data z flag data offset = Some ?body"
    using assms(1) by (simp add: decode_data_def)
  moreover have "decode_outcome_ok z d (and_then ?body (\<lambda>b. Inr (mk b)))"
  proof (cases ?body)
    case (Inl e)
    then have "InflateData z (drop offset data) = Inl e" by (auto split: if_splits)
    with Inl show ?thesis by (auto simp: decode_outcome_ok_def)
  next
    case (Inr b)
    then show ?thesis using assms(2) by simp
  qed
  ultimately show ?thesis by simp
qed

text \<open>
  C4. Decoding never panics. On every sequence of bytes, whatever the dictionary and the compression
  library, \<open>Decode\<close> stays within the buffer and returns. An error is one of the three of the
  package or one of the decompression. A message has a valid type, and its route is empty when the
  type carries none, an entry of the dictionary when it was compressed and shorter than 256 bytes
  otherwise.
\<close>

theorem MessageDecode_safe: "\<exists>r. MessageDecode z d data = Some r \<and> decode_outcome_ok z d r"
proof (cases "length data < msgHeadLength")
  case True
  then show ?thesis by (simp add: MessageDecode_def decode_outcome_ok_def)
next
  case False
  define flag where "flag = data ! 0"
  define ty where "ty = drop_bit 1 flag AND msgTypeMask"
  have flag: "index data 0 = Some flag" using False by (cases data) (simp_all add: flag_def)
  obtain ident offset where io:
      "(if ty = Request \<or> ty = Response then read_id data 1 else (0, 1)) = (ident, offset)"
    by fastforce
  have offset: "offset \<le> length data"
    using io False read_id_bound [of 1 data] by (auto split: if_splits)
  define mk where "mk c r b = (NewMessage [])\<lparr>msg_Type := ty, msg_ID := ident, msg_Route := r,
      msg_Data := b, msg_compressed := c, msg_Err := (flag AND errorMask = errorMask)\<rparr>" for c r b
  have mk: "msg_Type (mk c r b) = ty" "msg_Route (mk c r b) = r" "msg_compressed (mk c r b) = c"
    for c r b by (simp_all add: mk_def)
  show ?thesis
  proof (cases "invalidType ty")
    case True
    then have "MessageDecode z d data = Some (Inl ErrWrongMessageType)"
      using False flag
      by (simp only: MessageDecode_def Let_def if_False if_True Option.bind.simps flip: ty_def)
    then show ?thesis by (simp add: decode_outcome_ok_def)
  next
    case valid: False
    have eq: "MessageDecode z d data = Option.bind (if routable ty then decode_route d flag data offset
        else Some (Inr (False, [], offset))) (\<lambda>x. case x of
          Inl e \<Rightarrow> Some (Inl e)
        | Inr (c, r, off) \<Rightarrow> Option.bind (decode_data z flag data off)
            (\<lambda>body. Some (and_then body (\<lambda>b. Inr (mk c r b)))))"
      using False flag valid io
      by (simp only: MessageDecode_def Let_def mk_def if_False Option.bind.simps flip: ty_def) simp
    show ?thesis
    proof (cases "routable ty")
      case True
      then show ?thesis
        by (rule_tac decode_route_total [of d flag data offset])
          (auto simp: eq decode_outcome_ok_def [of _ _ "Inl _"]
            intro!: decode_body_outcome ranI, auto simp: decode_outcome_ok_def mk valid ran_def)
    next
      case False
      then have "decode_outcome_ok z d (Inr (mk False [] b))" for b
        by (simp add: decode_outcome_ok_def mk valid)
      with False offset show ?thesis by (simp add: eq decode_body_outcome)
    qed
  qed
qed

text \<open>
  A route that is sent in full has to be shorter than 256 bytes, and \<open>Encode\<close> does not check
  it. The length byte wraps around: the receiver takes the first \<open>length route mod 256\<close> bytes of
  a longer route for the route, and the rest of it for the start of the payload.
\<close>

theorem MessageEncode_long_route:
  assumes "msg_Type m = Notify \<or> msg_Type m = Push" and "routes d (msg_Route m) = None"
    and "n = length (msg_Route m) mod 256"
    and "MessageEncode False z d m = Inr (b, m')"
  shows "MessageDecode z d b = Some (Inr (m\<lparr>msg_ID := 0, msg_Route := take n (msg_Route m),
    msg_Data := drop n (str_bytes (msg_Route m)) @ msg_Data m, msg_compressed := False\<rparr>))"
proof -
  define flag where "flag = flag_of (msg_Type m) False (msg_Err m) False"
  define data where "data = drop n (str_bytes (msg_Route m)) @ msg_Data m"
  have ty: "\<not> invalidType (msg_Type m)" "routable (msg_Type m)" "enc_id m = []"
      "\<not> (msg_Type m = Request \<or> msg_Type m = Response)"
    using assms(1) by (auto simp: invalidType_def routable_def enc_id_def)
  note flag = flag_of_read [OF ty(1), of False "msg_Err m" False, folded flag_def]
  have "b = flag # word_of_nat (length (msg_Route m)) # str_bytes (msg_Route m) @ msg_Data m"
    using assms(2,4) ty by (auto simp: MessageEncode_eq flag_def enc_route_def)
  also have "\<dots> = flag # word_of_nat (length (msg_Route m)) # str_bytes (take n (msg_Route m)) @ data"
    using append_take_drop_id [of n "str_bytes (msg_Route m)"]
    by (simp add: data_def str_bytes_def take_map flip: append_assoc del: append_take_drop_id)
  finally have b: "b = \<dots>" .
  have n: "unat (word_of_nat (length (msg_Route m)) :: byte) = n"
    by (simp add: unat_of_nat assms(3))
  have le: "n \<le> length (msg_Route m)" by (simp add: assms(3))
  have "decode_route d flag b 1 = Some (Inr (False, take n (msg_Route m), 2 + n))"
    using flag(2) le by (simp add: decode_route_def b n)
  moreover have "decode_data z flag b (2 + n) = Some (Inr data)"
    using flag(4) le by (simp add: decode_data_def b)
  moreover have "index b 0 = Some flag" "\<not> length b < msgHeadLength" by (simp_all add: b)
  ultimately show ?thesis
    using ty flag(1,3)
    by (simp only: MessageDecode_def Let_def prod.case if_False if_True Option.bind.simps)
      (simp add: NewMessage_def data_def)
qed

lemma MessageEncode_long_route_witness:
  "\<exists>b m'. MessageEncode False zlib_example \<lparr>routes = Map.empty, codes = Map.empty\<rparr>
      ((NewMessage [])\<lparr>msg_Type := Push, msg_Route := replicate 258 CHR ''r''\<rparr>) = Inr (b, m') \<and>
    MessageDecode zlib_example \<lparr>routes = Map.empty, codes = Map.empty\<rparr> b =
      Some (Inr ((NewMessage [])\<lparr>msg_Type := Push, msg_ID := 0, msg_Route := take 2 (replicate 258 CHR ''r''),
        msg_Data := drop 2 (str_bytes (replicate 258 CHR ''r'')), msg_compressed := False\<rparr>))"
proof -
  define d :: dictionary where "d = \<lparr>routes = Map.empty, codes = Map.empty\<rparr>"
  define r where "r = replicate 258 CHR ''r''"
  define m where "m = (NewMessage [])\<lparr>msg_Type := Push, msg_Route := r\<rparr>"
  have r: "length r mod 256 = 2" unfolding r_def length_replicate by simp
  have "\<not> invalidType (msg_Type m)" by (simp add: m_def invalidType_def)
  then obtain b m' where enc: "MessageEncode False zlib_example d m = Inr (b, m')"
    unfolding MessageEncode_eq Let_def by (simp only: if_False)
  have "MessageDecode zlib_example d b = Some (Inr (m\<lparr>msg_ID := 0, msg_Route := take 2 (msg_Route m),
      msg_Data := drop 2 (str_bytes (msg_Route m)) @ msg_Data m, msg_compressed := False\<rparr>))"
    by (rule MessageEncode_long_route [OF _ _ _ enc]) (simp_all add: m_def d_def r)
  with enc show ?thesis
    unfolding r_def [symmetric] d_def [symmetric] m_def NewMessage_def by auto
qed

end
