(* ===== verification/Route.thy ===== *)
theory Route
  imports Pitaya_Errors
begin

text \<open>
  Routes: \<open>route/route.go\<close>. A route names a server type, a service and a method, or a service and a
  method of the server itself. Parsing and printing are inverse to each other, exactly on the routes
  whose fields are not blank and hold no dot.
\<close>

section \<open>Definitions\<close>

record route =
  SvType :: string
  Service :: string
  Method :: string

definition NewRoute :: "string \<Rightarrow> string \<Rightarrow> string \<Rightarrow> route" where
  "NewRoute server service method = \<lparr>SvType = server, Service = service, Method = method\<rparr>"

definition RouteShort :: "route \<Rightarrow> string" where
  "RouteShort r = Service r @ ''.'' @ Method r"

definition RouteString :: "route \<Rightarrow> string" where
  "RouteString r =
     (if SvType r \<noteq> [] then SvType r @ ''.'' @ Service r @ ''.'' @ Method r else RouteShort r)"

definition RouteDecode :: "string \<Rightarrow> route res" where
  "RouteDecode s =
     (let r = split_on CHR ''.'' s in
      if \<exists>p \<in> set r. TrimSpace p = [] then Inl ErrRouteFieldCantEmpty
      else (case r of
              [a, b, c] \<Rightarrow> Inr (NewRoute a b c)
            | [a, b] \<Rightarrow> Inr (NewRoute [] a b)
            | _ \<Rightarrow> Inl ErrInvalidRoute))"

section \<open>Parsing and printing\<close>

text \<open>A field of a route: no dot, and something that is not white space.\<close>

definition field_ok :: "string \<Rightarrow> bool" where
  "field_ok p \<longleftrightarrow> CHR ''.'' \<notin> set p \<and> TrimSpace p \<noteq> []"

definition route_ok :: "route \<Rightarrow> bool" where
  "route_ok r \<longleftrightarrow> (SvType r = [] \<or> field_ok (SvType r)) \<and> field_ok (Service r) \<and> field_ok (Method r)"

lemma split_String:
  assumes "route_ok r"
  shows "split_on CHR ''.'' (RouteString r) =
    (if SvType r = [] then [Service r, Method r] else [SvType r, Service r, Method r])"
  using assms by (auto simp: route_ok_def field_ok_def RouteString_def RouteShort_def)

lemma RouteDecode_String:
  assumes "route_ok r"
  shows "RouteDecode (RouteString r) = Inr r"
proof -
  note split = split_String [OF assms]
  have "\<not> (\<exists>p \<in> set (split_on CHR ''.'' (RouteString r)). TrimSpace p = [])"
    using assms unfolding split by (auto simp: route_ok_def field_ok_def)
  then show ?thesis by (simp add: RouteDecode_def NewRoute_def split)
qed

text \<open>Fields of lower-case letters, and decoding of literal routes with three and with two fields.\<close>

definition letters :: "string \<Rightarrow> bool" where
  "letters p \<longleftrightarrow> p \<noteq> [] \<and> list_all (\<lambda>c. 97 \<le> (of_char c :: nat) \<and> (of_char c :: nat) \<le> 122) p"

lemma trim_left_letter:
  assumes "97 \<le> (of_char c :: nat)" "(of_char c :: nat) \<le> 122"
  shows "trim_left space_runes (c # cs) = c # cs" "trim_left (map rev space_runes) (c # cs) = c # cs"
  using assms
  by (subst trim_left.simps, simp add: space_runes_def starts_with_def)+

lemma field_ok_letters:
  assumes "letters p"
  shows "field_ok p"
proof -
  obtain c cs where p: "p = c # cs" "97 \<le> (of_char c :: nat)" "(of_char c :: nat) \<le> 122"
    using assms by (cases p) (auto simp: letters_def)
  have "rev p \<noteq> [] \<and> list_all (\<lambda>c. 97 \<le> (of_char c :: nat) \<and> (of_char c :: nat) \<le> 122) (rev p)"
    using assms by (simp add: letters_def list_all_iff)
  then obtain d ds where d: "rev p = d # ds" "97 \<le> (of_char d :: nat)" "(of_char d :: nat) \<le> 122"
    by (cases "rev p") auto
  have "TrimSpace p = p"
    using p d trim_left_letter(1) [of c cs] trim_left_letter(2) [of d ds]
    by (metis TrimSpace_def rev_rev_ident)
  moreover have "CHR ''.'' \<notin> set p"
    using assms by (auto simp: letters_def list_all_iff)
  ultimately show ?thesis using assms by (simp add: field_ok_def letters_def)
qed

lemma RouteDecode_literal:
  assumes "field_ok b" and "field_ok c"
  shows "a \<noteq> [] \<Longrightarrow> field_ok a \<Longrightarrow> RouteDecode (a @ ''.'' @ b @ ''.'' @ c) = Inr (NewRoute a b c)"
    and "RouteDecode (b @ ''.'' @ c) = Inr (NewRoute [] b c)"
  using assms RouteDecode_String [of "NewRoute a b c"] RouteDecode_String [of "NewRoute [] b c"]
  by (simp_all add: route_ok_def NewRoute_def RouteString_def RouteShort_def)

lemma RouteDecode_fields:
  assumes "RouteDecode s = Inr r"
  shows "if SvType r = [] then split_on CHR ''.'' s = [Service r, Method r]
         else split_on CHR ''.'' s = [SvType r, Service r, Method r]"
    and "p \<in> set (split_on CHR ''.'' s) \<Longrightarrow> field_ok p"
proof -
  have blank: "\<forall>p \<in> set (split_on CHR ''.'' s). TrimSpace p \<noteq> []"
    using assms by (auto simp: RouteDecode_def Let_def split: if_splits)
  then show "p \<in> set (split_on CHR ''.'' s) \<Longrightarrow> field_ok p"
    using split_on_pieces by (auto simp: field_ok_def)
  show "if SvType r = [] then split_on CHR ''.'' s = [Service r, Method r]
        else split_on CHR ''.'' s = [SvType r, Service r, Method r]"
    using assms blank TrimSpace_Nil
    by (auto simp: RouteDecode_def Let_def NewRoute_def split: list.splits)
qed

text \<open>
  C6. Parsing and printing of routes are inverse to each other. A string is decoded to a route exactly
  when the route is well formed (a service and a method, and a server type or none, each without a
  dot and not blank) and the string is what the route prints as.
\<close>

theorem RouteDecode_iff: "RouteDecode s = Inr r \<longleftrightarrow> route_ok r \<and> RouteString r = s"
proof
  assume dec: "RouteDecode s = Inr r"
  note f = RouteDecode_fields [OF dec]
  have "join_with CHR ''.'' (split_on CHR ''.'' s) = s" by (rule join_split_on)
  with f show "route_ok r \<and> RouteString r = s"
    by (cases "SvType r = []") (auto simp: route_ok_def RouteString_def RouteShort_def)
next
  assume "route_ok r \<and> RouteString r = s"
  then show "RouteDecode s = Inr r" using RouteDecode_String by blast
qed

end
