(* ===== verification/Memory_Groups.thy ===== *)
theory Memory_Groups
  imports Pitaya_Errors
begin

text \<open>
  Groups of users: the interface \<open>GroupService\<close> of \<open>groups/group_service.go\<close> as a locale, and its
  implementation in memory, \<open>groups/memory_group_service.go\<close>. The contract speaks of the members of
  each group as a set; the implementation keeps them in a slice, in which removal moves the last
  element into the gap. The theory \<open>Etcd_Groups\<close> has the other implementation.
\<close>

section \<open>The interface\<close>

text \<open>
  A value of the interface type: the operations as functions on the state of the service. An
  operation that changes the state returns the new state and its error.
\<close>

record 'st group_service =
  svc_GroupCreate :: "string \<Rightarrow> 'st \<Rightarrow> 'st \<times> goerr option"
  svc_GroupMembers :: "string \<Rightarrow> 'st \<Rightarrow> string list res"
  svc_GroupContainsMember :: "string \<Rightarrow> string \<Rightarrow> 'st \<Rightarrow> bool res"
  svc_GroupAddMember :: "string \<Rightarrow> string \<Rightarrow> 'st \<Rightarrow> 'st \<times> goerr option"
  svc_GroupRemoveMember :: "string \<Rightarrow> string \<Rightarrow> 'st \<Rightarrow> 'st \<times> goerr option"
  svc_GroupRemoveAll :: "string \<Rightarrow> 'st \<Rightarrow> 'st \<times> goerr option"
  svc_GroupDelete :: "string \<Rightarrow> 'st \<Rightarrow> 'st \<times> goerr option"
  svc_GroupCountMembers :: "string \<Rightarrow> 'st \<Rightarrow> nat res"

section \<open>The service in memory\<close>

record memory_group =
  Uids :: "string list"
  LastRefresh :: i64
  TTL :: i64

type_synonym memory_groups = "string \<rightharpoonup> memory_group"

text \<open>\<open>&MemoryGroup{}\<close>, the zero value.\<close>

definition empty_group :: memory_group where
  "empty_group = \<lparr>Uids = [], LastRefresh = 0, TTL = 0\<rparr>"

text \<open>The position of an element, with the zero position for an element that is not there.\<close>

fun elementIndex_from :: "nat \<Rightarrow> string list \<Rightarrow> string \<Rightarrow> nat \<times> bool" where
  "elementIndex_from i [] element = (0, False)"
| "elementIndex_from i (x # xs) element =
     (if element = x then (i, True) else elementIndex_from (Suc i) xs element)"

definition elementIndex :: "string list \<Rightarrow> string \<Rightarrow> nat \<times> bool" where
  "elementIndex xs element = elementIndex_from 0 xs element"

definition GroupCreate :: "string \<Rightarrow> memory_groups \<Rightarrow> memory_groups \<times> goerr option" where
  "GroupCreate groupName groups =
     (if groups groupName \<noteq> None then (groups, Some ErrGroupAlreadyExists)
      else (groups(groupName \<mapsto> empty_group), None))"

definition GroupCreateWithTTL ::
  "i64 \<Rightarrow> string \<Rightarrow> i64 \<Rightarrow> memory_groups \<Rightarrow> memory_groups \<times> goerr option" where
  "GroupCreateWithTTL now groupName ttlTime groups =
     (if groups groupName \<noteq> None then (groups, Some ErrGroupAlreadyExists)
      else (groups(groupName \<mapsto> empty_group\<lparr>LastRefresh := now, TTL := ttlTime\<rparr>), None))"

definition GroupMembers :: "string \<Rightarrow> memory_groups \<Rightarrow> string list res" where
  "GroupMembers groupName groups =
     (case groups groupName of None \<Rightarrow> Inl ErrGroupNotFound | Some mg \<Rightarrow> Inr (Uids mg))"

definition GroupContainsMember :: "string \<Rightarrow> string \<Rightarrow> memory_groups \<Rightarrow> bool res" where
  "GroupContainsMember groupName uid groups =
     (case groups groupName of
        None \<Rightarrow> Inl ErrGroupNotFound
      | Some mg \<Rightarrow> Inr (snd (elementIndex (Uids mg) uid)))"

definition GroupAddMember ::
  "string \<Rightarrow> string \<Rightarrow> memory_groups \<Rightarrow> memory_groups \<times> goerr option" where
  "GroupAddMember groupName uid groups =
     (case groups groupName of
        None \<Rightarrow> (groups, Some ErrGroupNotFound)
      | Some mg \<Rightarrow>
          if snd (elementIndex (Uids mg) uid) then (groups, Some ErrMemberAlreadyExists)
          else (groups(groupName \<mapsto> mg\<lparr>Uids := Uids mg @ [uid]\<rparr>), None))"

definition GroupRemoveMember ::
  "string \<Rightarrow> string \<Rightarrow> memory_groups \<Rightarrow> memory_groups \<times> goerr option" where
  "GroupRemoveMember groupName uid groups =
     (case groups groupName of
        None \<Rightarrow> (groups, Some ErrGroupNotFound)
      | Some mg \<Rightarrow>
          let (index, contains) = elementIndex (Uids mg) uid in
          if contains then
            let uids = (Uids mg)[index := Uids mg ! (length (Uids mg) - 1)];
                uids = take (length uids - 1) uids
            in (groups(groupName \<mapsto> mg\<lparr>Uids := uids\<rparr>), None)
          else (groups, Some ErrMemberNotFound))"

definition GroupRemoveAll :: "string \<Rightarrow> memory_groups \<Rightarrow> memory_groups \<times> goerr option" where
  "GroupRemoveAll groupName groups =
     (case groups groupName of
        None \<Rightarrow> (groups, Some ErrGroupNotFound)
      | Some mg \<Rightarrow> (groups(groupName \<mapsto> mg\<lparr>Uids := []\<rparr>), None))"

definition GroupDelete :: "string \<Rightarrow> memory_groups \<Rightarrow> memory_groups \<times> goerr option" where
  "GroupDelete groupName groups =
     (if groups groupName = None then (groups, Some ErrGroupNotFound)
      else (groups(groupName := None), None))"

definition GroupCountMembers :: "string \<Rightarrow> memory_groups \<Rightarrow> nat res" where
  "GroupCountMembers groupName groups =
     (case groups groupName of None \<Rightarrow> Inl ErrGroupNotFound | Some mg \<Rightarrow> Inr (length (Uids mg)))"

definition GroupRenewTTL :: "i64 \<Rightarrow> string \<Rightarrow> memory_groups \<Rightarrow> memory_groups \<times> goerr option" where
  "GroupRenewTTL now groupName groups =
     (case groups groupName of
        None \<Rightarrow> (groups, Some ErrGroupNotFound)
      | Some mg \<Rightarrow>
          if TTL mg \<noteq> 0 then (groups(groupName \<mapsto> mg\<lparr>LastRefresh := now\<rparr>), None)
          else (groups, Some ErrMemoryTTLNotFound))"

text \<open>One tick of the clean-up: \<open>ks\<close> are the names of the groups in the order of the range loop.\<close>

definition expired :: "i64 \<Rightarrow> memory_group \<Rightarrow> bool" where
  "expired now mg \<longleftrightarrow> TTL mg \<noteq> 0 \<and> sint (now - LastRefresh mg) > sint (TTL mg)"

fun groupTTLCleanup :: "i64 \<Rightarrow> string list \<Rightarrow> memory_groups \<Rightarrow> memory_groups" where
  "groupTTLCleanup now [] groups = groups"
| "groupTTLCleanup now (groupName # ks) groups =
     groupTTLCleanup now ks
       (if expired now (the (groups groupName)) then groups(groupName := None) else groups)"

definition memory_service :: "memory_groups group_service" where
  "memory_service =
     \<lparr>svc_GroupCreate = GroupCreate, svc_GroupMembers = GroupMembers,
      svc_GroupContainsMember = GroupContainsMember, svc_GroupAddMember = GroupAddMember,
      svc_GroupRemoveMember = GroupRemoveMember, svc_GroupRemoveAll = GroupRemoveAll,
      svc_GroupDelete = GroupDelete, svc_GroupCountMembers = GroupCountMembers\<rparr>"

section \<open>The contract\<close>

text \<open>
  What a client of the interface relies on. \<open>view\<close> reads the groups of a state, each with the set
  of its members; \<open>inv\<close> is the invariant of the implementation, and \<open>name_ok\<close> the names and user
  ids it is given. The laws fix the view after each operation and the errors of the operations on
  a group that exists. For a group that does not exist they only ask that nothing changes and
  that a change reports an error.
\<close>

locale group_contract =
  fixes svc :: "'st group_service"
    and view :: "'st \<Rightarrow> string \<rightharpoonup> string set"
    and inv :: "'st \<Rightarrow> bool"
    and name_ok :: "string \<Rightarrow> bool"
  assumes create: "inv st \<Longrightarrow> name_ok g \<Longrightarrow> svc_GroupCreate svc g st = (st', e) \<Longrightarrow>
      inv st' \<and> (if view st g = None then view st' = (view st)(g \<mapsto> {}) \<and> e = None
        else view st' = view st \<and> e = Some ErrGroupAlreadyExists)"
    and members: "inv st \<Longrightarrow> name_ok g \<Longrightarrow> view st g = Some U \<Longrightarrow>
      \<exists>us. svc_GroupMembers svc g st = Inr us \<and> distinct us \<and> set us = U"
    and members_none: "inv st \<Longrightarrow> name_ok g \<Longrightarrow> view st g = None \<Longrightarrow>
      svc_GroupMembers svc g st = Inl ErrGroupNotFound"
    and contains: "inv st \<Longrightarrow> name_ok g \<Longrightarrow> name_ok u \<Longrightarrow> view st g = Some U \<Longrightarrow>
      svc_GroupContainsMember svc g u st = Inr (u \<in> U)"
    and add: "inv st \<Longrightarrow> name_ok g \<Longrightarrow> name_ok u \<Longrightarrow> svc_GroupAddMember svc g u st = (st', e) \<Longrightarrow>
      inv st' \<and> (case view st g of
        None \<Rightarrow> view st' = view st \<and> e = Some ErrGroupNotFound
      | Some U \<Rightarrow> if u \<in> U then view st' = view st \<and> e = Some ErrMemberAlreadyExists
          else view st' = (view st)(g \<mapsto> insert u U) \<and> e = None)"
    and remove: "inv st \<Longrightarrow> name_ok g \<Longrightarrow> name_ok u \<Longrightarrow>
      svc_GroupRemoveMember svc g u st = (st', e) \<Longrightarrow>
      inv st' \<and> (case view st g of
        None \<Rightarrow> view st' = view st \<and> e \<noteq> None
      | Some U \<Rightarrow> if u \<in> U then view st' = (view st)(g \<mapsto> U - {u}) \<and> e = None
          else view st' = view st \<and> e = Some ErrMemberNotFound)"
    and remove_all: "inv st \<Longrightarrow> name_ok g \<Longrightarrow> svc_GroupRemoveAll svc g st = (st', e) \<Longrightarrow>
      inv st' \<and> (if view st g = None then view st' = view st \<and> e = Some ErrGroupNotFound
        else view st' = (view st)(g \<mapsto> {}) \<and> e = None)"
    and delete: "inv st \<Longrightarrow> name_ok g \<Longrightarrow> svc_GroupDelete svc g st = (st', e) \<Longrightarrow>
      inv st' \<and> (if view st g = None then view st' = view st \<and> e = Some ErrGroupNotFound
        else view st' = (view st)(g := None) \<and> e = None)"
    and count: "inv st \<Longrightarrow> name_ok g \<Longrightarrow> view st g = Some U \<Longrightarrow>
      svc_GroupCountMembers svc g st = Inr (card U)"

section \<open>Sequences of operations\<close>

text \<open>
  The operations that change groups, run one after the other: what the service makes of them, and
  what they mean on sets. A command of the abstract side that is refused changes nothing.
\<close>

datatype group_cmd =
    Create string | AddMember string string | RemoveMember string string
  | RemoveAll string | DeleteGroup string

fun exec_cmd :: "'st group_service \<Rightarrow> group_cmd \<Rightarrow> 'st \<Rightarrow> 'st \<times> goerr option" where
  "exec_cmd svc (Create g) st = svc_GroupCreate svc g st"
| "exec_cmd svc (AddMember g u) st = svc_GroupAddMember svc g u st"
| "exec_cmd svc (RemoveMember g u) st = svc_GroupRemoveMember svc g u st"
| "exec_cmd svc (RemoveAll g) st = svc_GroupRemoveAll svc g st"
| "exec_cmd svc (DeleteGroup g) st = svc_GroupDelete svc g st"

fun exec_cmds :: "'st group_service \<Rightarrow> group_cmd list \<Rightarrow> 'st \<Rightarrow> 'st \<times> bool list" where
  "exec_cmds svc [] st = (st, [])"
| "exec_cmds svc (c # cs) st =
     (let (st1, e) = exec_cmd svc c st; (st2, oks) = exec_cmds svc cs st1 in (st2, (e = None) # oks))"

fun spec_cmd :: "group_cmd \<Rightarrow> (string \<rightharpoonup> string set) \<Rightarrow> (string \<rightharpoonup> string set) option" where
  "spec_cmd (Create g) v = (if v g = None then Some (v(g \<mapsto> {})) else None)"
| "spec_cmd (AddMember g u) v =
     (case v g of None \<Rightarrow> None | Some U \<Rightarrow> if u \<in> U then None else Some (v(g \<mapsto> insert u U)))"
| "spec_cmd (RemoveMember g u) v =
     (case v g of None \<Rightarrow> None | Some U \<Rightarrow> if u \<in> U then Some (v(g \<mapsto> U - {u})) else None)"
| "spec_cmd (RemoveAll g) v = (if v g = None then None else Some (v(g \<mapsto> {})))"
| "spec_cmd (DeleteGroup g) v = (if v g = None then None else Some (v(g := None)))"

fun spec_cmds ::
  "group_cmd list \<Rightarrow> (string \<rightharpoonup> string set) \<Rightarrow> (string \<rightharpoonup> string set) \<times> bool list" where
  "spec_cmds [] v = (v, [])"
| "spec_cmds (c # cs) v =
     (case spec_cmd c v of
        None \<Rightarrow> (let (v', oks) = spec_cmds cs v in (v', False # oks))
      | Some v1 \<Rightarrow> (let (v', oks) = spec_cmds cs v1 in (v', True # oks)))"

fun cmd_names :: "group_cmd \<Rightarrow> string set" where
  "cmd_names (Create g) = {g}"
| "cmd_names (AddMember g u) = {g, u}"
| "cmd_names (RemoveMember g u) = {g, u}"
| "cmd_names (RemoveAll g) = {g}"
| "cmd_names (DeleteGroup g) = {g}"

context group_contract
begin

lemma exec_cmd_simulates:
  assumes "inv st" and "\<forall>n \<in> cmd_names c. name_ok n" and "exec_cmd svc c st = (st', e)"
  shows "inv st' \<and> (case spec_cmd c (view st) of
      None \<Rightarrow> view st' = view st \<and> e \<noteq> None
    | Some v \<Rightarrow> view st' = v \<and> e = None)"
proof (cases c)
  case (Create g)
  with assms show ?thesis using create [of st g st' e] by (simp split: if_splits)
next
  case (AddMember g u)
  with assms show ?thesis using add [of st g u st' e] by (simp split: option.splits if_splits)
next
  case (RemoveMember g u)
  with assms show ?thesis using remove [of st g u st' e] by (simp split: option.splits if_splits)
next
  case (RemoveAll g)
  with assms show ?thesis using remove_all [of st g st' e] by (simp split: if_splits)
next
  case (DeleteGroup g)
  with assms show ?thesis using delete [of st g st' e] by (simp split: if_splits)
qed

lemma exec_cmds_simulates:
  assumes "inv st" and "\<forall>c \<in> set cs. \<forall>n \<in> cmd_names c. name_ok n"
    and "exec_cmds svc cs st = (st', oks)"
  shows "inv st' \<and> spec_cmds cs (view st) = (view st', oks)"
  using assms
proof (induction cs arbitrary: st st' oks)
  case (Cons c cs)
  obtain st1 e where c: "exec_cmd svc c st = (st1, e)" by fastforce
  obtain oks1 where cs: "exec_cmds svc cs st1 = (st', oks1)" "oks = (e = None) # oks1"
    using Cons.prems(3) c by (auto split: prod.splits)
  have *: "inv st1" "case spec_cmd c (view st) of
      None \<Rightarrow> view st1 = view st \<and> e \<noteq> None | Some v \<Rightarrow> view st1 = v \<and> e = None"
    using exec_cmd_simulates [OF Cons.prems(1) _ c] Cons.prems(2) by auto
  have "inv st' \<and> spec_cmds cs (view st1) = (view st', oks1)"
    using Cons.IH [OF *(1) _ cs(1)] Cons.prems(2) by auto
  with * cs(2) show ?case by (auto split: option.splits)
qed simp

end

section \<open>The service in memory keeps the contract\<close>

lemma elementIndex_from_spec:
  "elementIndex_from i xs x = (j, b) \<Longrightarrow>
     b = (x \<in> set xs) \<and> (b \<longrightarrow> i \<le> j \<and> j - i < length xs \<and> xs ! (j - i) = x)"
proof (induction i xs x rule: elementIndex_from.induct)
  case (2 i y xs x)
  then show ?case
    by (cases "x = y") (auto simp: Suc_diff_le nth_Cons split: nat.splits,
        (metis Suc_diff_Suc Suc_le_lessD diff_Suc_1 not_less_eq nat.simps(3) diff_is_0_eq)+)
qed simp

lemma elementIndex_contains [simp]: "snd (elementIndex xs x) \<longleftrightarrow> x \<in> set xs"
  using elementIndex_from_spec [of 0 xs x] by (cases "elementIndex xs x") (auto simp: elementIndex_def)

lemma elementIndex_nth:
  "x \<in> set xs \<Longrightarrow> fst (elementIndex xs x) < length xs \<and> xs ! fst (elementIndex xs x) = x"
  using elementIndex_from_spec [of 0 xs x] by (cases "elementIndex xs x") (auto simp: elementIndex_def)

text \<open>Moving the last element into the gap removes the element from a list without repetitions.\<close>

lemma swap_remove:
  assumes "distinct xs" and "i < length xs"
  defines "ys \<equiv> take (length xs - 1) (xs[i := xs ! (length xs - 1)])"
  shows "distinct ys" and "set ys = set xs - {xs ! i}"
proof -
  obtain zs z where xs: "xs = zs @ [z]" using assms(2) by (cases xs rule: rev_cases) auto
  have ys: "ys = (if i < length zs then zs[i := z] else zs)"
    using assms(2) by (auto simp: ys_def xs list_update_append nth_append)
  have "distinct zs" "z \<notin> set zs" using assms(1) xs by auto
  then show "distinct ys" using ys by (auto intro: distinct_list_update)
  show "set ys = set xs - {xs ! i}"
  proof (cases "i < length zs")
    case True
    then have "set (zs[i := z]) = insert z (set zs - {zs ! i})"
      using \<open>distinct zs\<close> by (simp add: set_update_distinct)
    then show ?thesis
      using True ys \<open>z \<notin> set zs\<close> by (auto simp: xs nth_append)
  next
    case False
    with ys \<open>z \<notin> set zs\<close> assms(2) show ?thesis by (auto simp: xs nth_append)
  qed
qed

definition memory_view :: "memory_groups \<Rightarrow> string \<rightharpoonup> string set" where
  "memory_view groups g = map_option (\<lambda>mg. set (Uids mg)) (groups g)"

definition memory_inv :: "memory_groups \<Rightarrow> bool" where
  "memory_inv groups \<longleftrightarrow> (\<forall>g mg. groups g = Some mg \<longrightarrow> distinct (Uids mg))"

lemma memory_view_upd [simp]:
  "memory_view (groups(g \<mapsto> mg)) = (memory_view groups)(g \<mapsto> set (Uids mg))"
  "memory_view (groups(g := None)) = (memory_view groups)(g := None)"
  by (auto simp: memory_view_def)

lemma memory_view_None [simp]: "memory_view groups g = None \<longleftrightarrow> groups g = None"
  by (simp add: memory_view_def)

lemma memory_inv_upd:
  "memory_inv groups \<Longrightarrow> distinct (Uids mg) \<Longrightarrow> memory_inv (groups(g \<mapsto> mg))"
  "memory_inv groups \<Longrightarrow> memory_inv (groups(g := None))"
  by (auto simp: memory_inv_def)

lemmas memory_ops = GroupCreate_def GroupMembers_def GroupContainsMember_def GroupAddMember_def
  GroupRemoveAll_def GroupDelete_def GroupCountMembers_def

lemma GroupRemoveMember_eq:
  assumes "memory_inv groups" and "groups g = Some mg" and "u \<in> set (Uids mg)"
  shows "\<exists>us. GroupRemoveMember g u groups = (groups(g \<mapsto> mg\<lparr>Uids := us\<rparr>), None) \<and>
    distinct us \<and> set us = set (Uids mg) - {u}"
proof -
  obtain i where i: "elementIndex (Uids mg) u = (i, True)"
    using assms(3) elementIndex_contains [of "Uids mg" u] by (metis prod.collapse)
  then have "i < length (Uids mg)" "Uids mg ! i = u"
    using elementIndex_nth [OF assms(3)] by auto
  moreover have "distinct (Uids mg)" using assms(1,2) by (auto simp: memory_inv_def)
  ultimately show ?thesis
    using assms(2) i swap_remove [of "Uids mg" i]
    by (intro exI [of _ "take (length (Uids mg) - 1)
          ((Uids mg)[i := Uids mg ! (length (Uids mg) - 1)])"]) (simp add: GroupRemoveMember_def)
qed

lemma GroupRemoveMember_absent:
  "groups g = Some mg \<Longrightarrow> u \<notin> set (Uids mg) \<Longrightarrow>
     GroupRemoveMember g u groups = (groups, Some ErrMemberNotFound)"
  using elementIndex_contains [of "Uids mg" u]
  by (cases "elementIndex (Uids mg) u") (auto simp: GroupRemoveMember_def)

lemma memory_view_Some: "memory_view groups g = Some U \<Longrightarrow>
    \<exists>mg. groups g = Some mg \<and> U = set (Uids mg)"
  by (auto simp: memory_view_def)

lemma GroupAddMember_view:
  assumes "memory_inv groups" and "GroupAddMember g u groups = (groups', e)"
  shows "memory_inv groups' \<and> (case memory_view groups g of
      None \<Rightarrow> memory_view groups' = memory_view groups \<and> e = Some ErrGroupNotFound
    | Some U \<Rightarrow> if u \<in> U then memory_view groups' = memory_view groups \<and> e = Some ErrMemberAlreadyExists
        else memory_view groups' = (memory_view groups)(g \<mapsto> insert u U) \<and> e = None)"
proof (cases "groups g")
  case None
  with assms show ?thesis by (auto simp: GroupAddMember_def memory_view_def)
next
  case (Some mg)
  then have v: "memory_view groups g = Some (set (Uids mg))" by (simp add: memory_view_def)
  have d: "distinct (Uids mg)" using assms(1) Some by (auto simp: memory_inv_def)
  show ?thesis
  proof (cases "u \<in> set (Uids mg)")
    case True
    then have "groups' = groups" "e = Some ErrMemberAlreadyExists"
      using assms(2) Some by (simp_all add: GroupAddMember_def)
    with True v assms(1) show ?thesis by simp
  next
    case False
    then have "groups' = groups(g \<mapsto> mg\<lparr>Uids := Uids mg @ [u]\<rparr>)" "e = None"
      using assms(2) Some by (simp_all add: GroupAddMember_def)
    with False v d assms(1) show ?thesis by (simp add: memory_inv_upd)
  qed
qed

lemma GroupRemoveMember_view:
  assumes "memory_inv groups" and "GroupRemoveMember g u groups = (groups', e)"
  shows "memory_inv groups' \<and> (case memory_view groups g of
      None \<Rightarrow> memory_view groups' = memory_view groups \<and> e \<noteq> None
    | Some U \<Rightarrow> if u \<in> U then memory_view groups' = (memory_view groups)(g \<mapsto> U - {u}) \<and> e = None
        else memory_view groups' = memory_view groups \<and> e = Some ErrMemberNotFound)"
proof (cases "groups g")
  case None
  with assms show ?thesis by (auto simp: GroupRemoveMember_def memory_view_def)
next
  case (Some mg)
  then have v: "memory_view groups g = Some (set (Uids mg))" by (simp add: memory_view_def)
  show ?thesis
  proof (cases "u \<in> set (Uids mg)")
    case True
    then obtain us where "groups' = groups(g \<mapsto> mg\<lparr>Uids := us\<rparr>)" "e = None" "distinct us"
        "set us = set (Uids mg) - {u}"
      using GroupRemoveMember_eq [OF assms(1) Some True] assms(2) by auto
    with True v assms(1) show ?thesis by (simp add: memory_inv_upd)
  next
    case False
    then show ?thesis
      using GroupRemoveMember_absent [of groups g mg u] Some False assms v by simp
  qed
qed

interpretation mem: group_contract memory_service memory_view memory_inv "\<lambda>_. True"
proof (unfold_locales, goal_cases)
  case (1 st g st' e)
  then show ?case
    by (auto simp: memory_service_def GroupCreate_def empty_group_def intro!: memory_inv_upd)
next
  case (2 st g U)
  then show ?case
    by (auto simp: memory_service_def GroupMembers_def memory_inv_def dest!: memory_view_Some)
next
  case (3 st g)
  then show ?case by (simp add: memory_service_def GroupMembers_def)
next
  case (4 st g u U)
  then show ?case
    by (auto simp: memory_service_def GroupContainsMember_def dest!: memory_view_Some)
next
  case (5 st g u st' e)
  then show ?case using GroupAddMember_view by (simp add: memory_service_def)
next
  case (6 st g u st' e)
  then show ?case using GroupRemoveMember_view by (simp add: memory_service_def)
next
  case (7 st g st' e)
  then show ?case
    by (auto simp: memory_service_def GroupRemoveAll_def intro!: memory_inv_upd split: option.splits)
next
  case (8 st g st' e)
  then show ?case
    by (auto simp: memory_service_def GroupDelete_def intro!: memory_inv_upd)
next
  case (9 st g U)
  then show ?case
    by (auto simp: memory_service_def GroupCountMembers_def memory_inv_def distinct_card
        dest!: memory_view_Some)
qed

text \<open>
  C7. The group service in memory refines groups as sets. On every sequence of operations that create
  and delete groups and add and remove members, it succeeds and fails exactly where the operations on
  sets do, and ends with the same groups and members. No member is ever stored twice.
\<close>

theorem memory_service_refines:
  assumes "memory_inv groups" and "exec_cmds memory_service cs groups = (groups', oks)"
  shows "memory_inv groups' \<and> spec_cmds cs (memory_view groups) = (memory_view groups', oks)"
  using mem.exec_cmds_simulates [OF assms(1) _ assms(2)] by simp

lemma memory_service_refines_witness:
  "memory_inv (fst (exec_cmds memory_service
     [Create ''g'', AddMember ''g'' ''a'', AddMember ''g'' ''b'', AddMember ''g'' ''a'',
      RemoveMember ''g'' ''a''] Map.empty))"
  using memory_service_refines [of Map.empty "[Create ''g'', AddMember ''g'' ''a'',
      AddMember ''g'' ''b'', AddMember ''g'' ''a'', RemoveMember ''g'' ''a'']", OF _ surjective_pairing]
  by (simp only: memory_inv_def empty_iff) simp

section \<open>Expiry\<close>

lemma groupTTLCleanup_other:
  "g \<notin> set ks \<Longrightarrow> groupTTLCleanup now ks groups g = groups g"
  by (induction now ks groups rule: groupTTLCleanup.induct) auto

lemma groupTTLCleanup_visited:
  "distinct ks \<Longrightarrow> g \<in> set ks \<Longrightarrow> groups g = Some mg \<Longrightarrow>
     groupTTLCleanup now ks groups g = (if expired now mg then None else Some mg)"
proof (induction now ks groups rule: groupTTLCleanup.induct)
  case (2 now k ks groups)
  then show ?case by (cases "g = k") (auto simp: groupTTLCleanup_other)
qed simp

text \<open>
  A tick of the clean-up removes exactly the groups whose time to live is set and has run out,
  in whatever order it visits them; in particular a group that \<open>GroupRenewTTL\<close> has just renewed at
  time \<open>t\<close> survives the tick at \<open>now\<close> exactly when no more than its time to live has passed
  since \<open>t\<close>.
\<close>

theorem groupTTLCleanup_renewed:
  assumes "GroupRenewTTL t g groups = (groups1, None)" and "enumerates ks groups1"
    and "groups1 h = Some mg"
  shows "groupTTLCleanup now ks groups1 h = (if expired now mg then None else Some mg) \<and>
    (\<exists>mg0. groups g = Some mg0 \<and> groups1 g = Some (mg0\<lparr>LastRefresh := t\<rparr>) \<and>
      (groupTTLCleanup now ks groups1 g = None \<longleftrightarrow> sint (now - t) > sint (TTL mg0)))"
proof -
  have ks: "distinct ks" "x \<in> set ks \<longleftrightarrow> groups1 x \<noteq> None" for x
    using assms(2) by (auto dest: enumeratesD)
  obtain mg0 where mg0: "groups g = Some mg0" "TTL mg0 \<noteq> 0" "groups1 = groups(g \<mapsto> mg0\<lparr>LastRefresh := t\<rparr>)"
    using assms(1) by (auto simp: GroupRenewTTL_def split: option.splits if_splits)
  have "groupTTLCleanup now ks groups1 g =
      (if expired now (mg0\<lparr>LastRefresh := t\<rparr>) then None else Some (mg0\<lparr>LastRefresh := t\<rparr>))"
    using ks mg0 by (intro groupTTLCleanup_visited) auto
  then have "groupTTLCleanup now ks groups1 g = None \<longleftrightarrow> sint (now - t) > sint (TTL mg0)"
    using mg0(2) by (simp add: expired_def)
  moreover have "groupTTLCleanup now ks groups1 h = (if expired now mg then None else Some mg)"
    using ks assms(3) by (intro groupTTLCleanup_visited) auto
  ultimately show ?thesis using mg0 by simp
qed

lemma groupTTLCleanup_renewed_witness:
  "groupTTLCleanup 30 [''g''] [''g'' \<mapsto> \<lparr>Uids = [], LastRefresh = 25, TTL = 10\<rparr>] ''g''
     = Some \<lparr>Uids = [], LastRefresh = 25, TTL = 10\<rparr>"
proof -
  define groups :: memory_groups where "groups = [''g'' \<mapsto> \<lparr>Uids = [], LastRefresh = 5, TTL = 10\<rparr>]"
  define groups1 :: memory_groups where "groups1 = [''g'' \<mapsto> \<lparr>Uids = [], LastRefresh = 25, TTL = 10\<rparr>]"
  have "GroupRenewTTL 25 ''g'' groups = (groups1, None)"
    by (simp add: GroupRenewTTL_def groups_def groups1_def)
  moreover have "enumerates [''g''] groups1" by (simp add: enumerates_def groups1_def)
  ultimately have "groupTTLCleanup 30 [''g''] groups1 ''g'' =
      (if expired 30 \<lparr>Uids = [], LastRefresh = 25, TTL = 10\<rparr> then None
       else Some \<lparr>Uids = [], LastRefresh = 25, TTL = 10\<rparr>)"
    using groupTTLCleanup_renewed by (simp add: groups1_def)
  then show ?thesis by (simp add: groups1_def expired_def)
qed

end
