(* ===== verification/Etcd_Groups.thy ===== *)
theory Etcd_Groups
  imports Memory_Groups "HOL-Library.Sublist"
begin

text \<open>
  The group service on etcd: \<open>groups/etcd_group_service.go\<close>. A group is a key, each of its members
  is a key below it, and every operation is a transaction on the key-value store. The etcd client
  is a parameter; what the service relies on is stated as \<open>etcd_laws\<close>, in terms of the meaning of
  the comparisons and operations of a transaction. Under these laws the service keeps the contract
  of \<open>Memory_Groups\<close> for names without a slash.
\<close>

section \<open>The etcd client\<close>

text \<open>
  The parts of \<open>clientv3\<close> the service uses. A transaction is a list of comparisons and a list of
  operations; its result is whether the comparisons held, with the keys found by each get. The
  operations return an error when the call fails. A lease is a number, zero for none.
\<close>

datatype etcd_cmp = Exists string | Missing string

datatype etcd_op =
    OpPut string i64
  | OpGet string
  | OpGetPrefix string
  | OpDelete string
  | OpDeletePrefix string

record 'st etcd =
  etcd_Txn :: "etcd_cmp list \<Rightarrow> etcd_op list \<Rightarrow> 'st \<Rightarrow> (bool \<times> string list list) res \<times> 'st"
  etcd_Get :: "string \<Rightarrow> 'st \<Rightarrow> (string \<times> i64) list res"
  etcd_CountPrefix :: "string \<Rightarrow> 'st \<Rightarrow> nat res"
  etcd_Grant :: "i64 \<Rightarrow> 'st \<Rightarrow> i64 res \<times> 'st"
  etcd_KeepAliveOnce :: "i64 \<Rightarrow> 'st \<Rightarrow> goerr option \<times> 'st"

section \<open>The service\<close>

definition groupKey :: "string \<Rightarrow> string" where
  "groupKey groupName = ''groups/'' @ groupName"

definition memberKey :: "string \<Rightarrow> string \<Rightarrow> string" where
  "memberKey groupName uid = groupKey groupName @ ''/uids/'' @ uid"

definition getGroupKV :: "'st etcd \<Rightarrow> string \<Rightarrow> 'st \<Rightarrow> (string \<times> i64) res" where
  "getGroupKV c groupName st =
     and_then (etcd_Get c (groupKey groupName) st)
       (\<lambda>kvs. case kvs of [] \<Rightarrow> Inl ErrGroupNotFound | kv # _ \<Rightarrow> Inr kv)"

text \<open>The result of a transaction that changes groups: its error, or the one for a failed comparison.\<close>

definition txn_error :: "goerr \<Rightarrow> (bool \<times> string list list) res \<times> 'st \<Rightarrow> 'st \<times> goerr option" where
  "txn_error e r =
     (case r of
        (Inl err, st) \<Rightarrow> (st, Some err)
      | (Inr (succeeded, _), st) \<Rightarrow> (st, if \<not> succeeded then Some e else None))"

definition etcd_createGroup :: "'st etcd \<Rightarrow> string \<Rightarrow> i64 \<Rightarrow> 'st \<Rightarrow> 'st \<times> goerr option" where
  "etcd_createGroup c groupName leaseID st =
     txn_error ErrGroupAlreadyExists
       (etcd_Txn c [Missing (groupKey groupName)] [OpPut (groupKey groupName) leaseID] st)"

definition etcd_GroupCreate :: "'st etcd \<Rightarrow> string \<Rightarrow> 'st \<Rightarrow> 'st \<times> goerr option" where
  "etcd_GroupCreate c groupName st = etcd_createGroup c groupName 0 st"

text \<open>The time to live is given in whole seconds, \<open>int64(ttlTime.Seconds())\<close>.\<close>

definition etcd_GroupCreateWithTTL ::
  "'st etcd \<Rightarrow> string \<Rightarrow> i64 \<Rightarrow> 'st \<Rightarrow> 'st \<times> goerr option" where
  "etcd_GroupCreateWithTTL c groupName seconds st =
     (case etcd_Grant c seconds st of
        (Inl e, st') \<Rightarrow> (st', Some e)
      | (Inr leaseID, st') \<Rightarrow> etcd_createGroup c groupName leaseID st')"

definition etcd_GroupMembers :: "'st etcd \<Rightarrow> string \<Rightarrow> 'st \<Rightarrow> string list res" where
  "etcd_GroupMembers c groupName st =
     (let pre = memberKey groupName [] in
      case fst (etcd_Txn c [Exists (groupKey groupName)] [OpGetPrefix pre] st) of
        Inl e \<Rightarrow> Inl e
      | Inr (succeeded, responses) \<Rightarrow>
          if \<not> succeeded then Inl ErrGroupNotFound
          else Inr (map (drop (length pre)) (responses ! 0)))"

definition etcd_GroupContainsMember :: "'st etcd \<Rightarrow> string \<Rightarrow> string \<Rightarrow> 'st \<Rightarrow> bool res" where
  "etcd_GroupContainsMember c groupName uid st =
     (case fst (etcd_Txn c [Exists (groupKey groupName)] [OpGet (memberKey groupName uid)] st) of
        Inl e \<Rightarrow> Inl e
      | Inr (succeeded, responses) \<Rightarrow>
          if \<not> succeeded then Inl ErrGroupNotFound else Inr (length (responses ! 0) > 0))"

definition etcd_GroupAddMember ::
  "'st etcd \<Rightarrow> string \<Rightarrow> string \<Rightarrow> 'st \<Rightarrow> 'st \<times> goerr option" where
  "etcd_GroupAddMember c groupName uid st =
     (case getGroupKV c groupName st of
        Inl e \<Rightarrow> (st, Some e)
      | Inr (_, lease) \<Rightarrow>
          txn_error ErrMemberAlreadyExists
            (etcd_Txn c [Exists (groupKey groupName), Missing (memberKey groupName uid)]
               [OpPut (memberKey groupName uid) lease] st))"

definition etcd_GroupRemoveMember ::
  "'st etcd \<Rightarrow> string \<Rightarrow> string \<Rightarrow> 'st \<Rightarrow> 'st \<times> goerr option" where
  "etcd_GroupRemoveMember c groupName uid st =
     txn_error ErrMemberNotFound
       (etcd_Txn c [Exists (memberKey groupName uid)] [OpDelete (memberKey groupName uid)] st)"

definition etcd_GroupRemoveAll :: "'st etcd \<Rightarrow> string \<Rightarrow> 'st \<Rightarrow> 'st \<times> goerr option" where
  "etcd_GroupRemoveAll c groupName st =
     txn_error ErrGroupNotFound
       (etcd_Txn c [Exists (groupKey groupName)] [OpDeletePrefix (memberKey groupName [])] st)"

definition etcd_GroupDelete :: "'st etcd \<Rightarrow> string \<Rightarrow> 'st \<Rightarrow> 'st \<times> goerr option" where
  "etcd_GroupDelete c groupName st =
     txn_error ErrGroupNotFound
       (etcd_Txn c [Exists (groupKey groupName)]
          [OpDeletePrefix (memberKey groupName []), OpDelete (groupKey groupName)] st)"

definition etcd_GroupCountMembers :: "'st etcd \<Rightarrow> string \<Rightarrow> 'st \<Rightarrow> nat res" where
  "etcd_GroupCountMembers c groupName st = etcd_CountPrefix c (memberKey groupName []) st"

definition etcd_GroupRenewTTL :: "'st etcd \<Rightarrow> string \<Rightarrow> 'st \<Rightarrow> 'st \<times> goerr option" where
  "etcd_GroupRenewTTL c groupName st =
     (case getGroupKV c groupName st of
        Inl e \<Rightarrow> (st, Some e)
      | Inr (_, lease) \<Rightarrow>
          if lease \<noteq> 0 then (case etcd_KeepAliveOnce c lease st of (e, st') \<Rightarrow> (st', e))
          else (st, Some ErrEtcdLeaseNotFound))"

definition etcd_service :: "'st etcd \<Rightarrow> 'st group_service" where
  "etcd_service c =
     \<lparr>svc_GroupCreate = etcd_GroupCreate c, svc_GroupMembers = etcd_GroupMembers c,
      svc_GroupContainsMember = etcd_GroupContainsMember c,
      svc_GroupAddMember = etcd_GroupAddMember c,
      svc_GroupRemoveMember = etcd_GroupRemoveMember c,
      svc_GroupRemoveAll = etcd_GroupRemoveAll c, svc_GroupDelete = etcd_GroupDelete c,
      svc_GroupCountMembers = etcd_GroupCountMembers c\<rparr>"

section \<open>What the service relies on\<close>

text \<open>
  The documented meaning of transactions on a store of keys with their leases. \<open>kv\<close> reads the store
  of a client state. A transaction whose comparisons hold applies its operations in order, and one
  whose comparisons do not hold changes nothing. The gets return the keys that match, each once.
\<close>

fun cmp_holds :: "(string \<rightharpoonup> i64) \<Rightarrow> etcd_cmp \<Rightarrow> bool" where
  "cmp_holds kv (Exists k) = (kv k \<noteq> None)"
| "cmp_holds kv (Missing k) = (kv k = None)"

fun op_effect :: "etcd_op \<Rightarrow> (string \<rightharpoonup> i64) \<Rightarrow> (string \<rightharpoonup> i64)" where
  "op_effect (OpPut k lease) kv = kv(k \<mapsto> lease)"
| "op_effect (OpGet k) kv = kv"
| "op_effect (OpGetPrefix p) kv = kv"
| "op_effect (OpDelete k) kv = kv(k := None)"
| "op_effect (OpDeletePrefix p) kv = (\<lambda>k. if prefix p k then None else kv k)"

fun op_found :: "etcd_op \<Rightarrow> (string \<rightharpoonup> i64) \<Rightarrow> string set" where
  "op_found (OpGet k) kv = (if kv k \<noteq> None then {k} else {})"
| "op_found (OpGetPrefix p) kv = {k \<in> dom kv. prefix p k}"
| "op_found _ kv = {}"

definition etcd_laws :: "'st etcd \<Rightarrow> ('st \<Rightarrow> string \<rightharpoonup> i64) \<Rightarrow> bool" where
  "etcd_laws c kv \<longleftrightarrow>
     (\<forall>cmps ops st. \<exists>st' found.
        etcd_Txn c cmps ops st = (Inr (list_all (cmp_holds (kv st)) cmps, found), st') \<and>
        kv st' = (if list_all (cmp_holds (kv st)) cmps then fold op_effect ops (kv st) else kv st)) \<and>
     (\<forall>cmps op st. list_all (cmp_holds (kv st)) cmps \<longrightarrow> (\<exists>st' ks.
        etcd_Txn c cmps [op] st = (Inr (True, [ks]), st') \<and>
        distinct ks \<and> set ks = op_found op (kv st))) \<and>
     (\<forall>k st. etcd_Get c k st = Inr (case kv st k of None \<Rightarrow> [] | Some lease \<Rightarrow> [(k, lease)])) \<and>
     (\<forall>p st. etcd_CountPrefix c p st = Inr (card {k \<in> dom (kv st). prefix p k}))"

lemma etcd_lawsD:
  assumes "etcd_laws c kv"
  shows "\<exists>st' found. etcd_Txn c cmps ops st = (Inr (list_all (cmp_holds (kv st)) cmps, found), st') \<and>
      kv st' = (if list_all (cmp_holds (kv st)) cmps then fold op_effect ops (kv st) else kv st)"
    and "list_all (cmp_holds (kv st)) cmps \<Longrightarrow>
      \<exists>st' ks. etcd_Txn c cmps [op] st = (Inr (True, [ks]), st') \<and> distinct ks \<and>
        set ks = op_found op (kv st)"
    and "etcd_Get c k st = Inr (case kv st k of None \<Rightarrow> [] | Some lease \<Rightarrow> [(k, lease)])"
    and "etcd_CountPrefix c p st = Inr (card {k \<in> dom (kv st). prefix p k})"
  using assms unfolding etcd_laws_def by blast+

lemma txn_error_law:
  assumes "etcd_laws c kv" and "txn_error e (etcd_Txn c cmps ops st) = (st', err)"
  shows "kv st' = (if list_all (cmp_holds (kv st)) cmps then fold op_effect ops (kv st) else kv st) \<and>
    err = (if list_all (cmp_holds (kv st)) cmps then None else Some e)"
  using etcd_lawsD(1) [OF assms(1), of cmps ops st] assms(2) by (auto simp: txn_error_def)

section \<open>Keys\<close>

definition slashless :: "string \<Rightarrow> bool" where
  "slashless s \<longleftrightarrow> CHR ''/'' \<notin> set s"

lemma sep_append_eq_iff:
  assumes "c \<notin> set a" and "c \<notin> set b"
  shows "a @ c # x = b @ c # y \<longleftrightarrow> a = b \<and> x = y"
  using assms by (induction a arbitrary: b) (case_tac b; auto)+

lemma sep_append_neq: "c \<notin> set a \<Longrightarrow> a \<noteq> b @ c # y"
  by auto

lemma key_eq_iff [simp]:
  "groupKey g = groupKey h \<longleftrightarrow> g = h"
  "memberKey g u = memberKey g v \<longleftrightarrow> u = v"
  by (simp_all add: groupKey_def memberKey_def)

lemma memberKey_eq_iff [simp]:
  "slashless g \<Longrightarrow> slashless h \<Longrightarrow> memberKey g u = memberKey h v \<longleftrightarrow> g = h \<and> u = v"
  by (auto simp: memberKey_def groupKey_def slashless_def sep_append_eq_iff)

lemma groupKey_not_memberKey [simp]:
  "slashless g \<Longrightarrow> groupKey g \<noteq> memberKey h u" "slashless g \<Longrightarrow> memberKey h u \<noteq> groupKey g"
  by (auto simp: memberKey_def groupKey_def slashless_def)

lemma memberKey_prefix: "prefix (memberKey g []) k \<longleftrightarrow> (\<exists>r. k = memberKey g r)"
  by (auto simp: prefix_def memberKey_def)

lemma drop_memberKey [simp]: "drop (length (memberKey g [])) (memberKey g u) = u"
  by (simp add: memberKey_def)

section \<open>The store of the service\<close>

text \<open>
  The invariant of the store: every key is the key of a group or of a member of a group that exists,
  of names without a slash, and a member has the lease of its group, so that both expire together.
\<close>

definition key_ok :: "(string \<rightharpoonup> i64) \<Rightarrow> string \<Rightarrow> i64 \<Rightarrow> bool" where
  "key_ok kv k lease \<longleftrightarrow>
     (\<exists>g. slashless g \<and> k = groupKey g) \<or>
     (\<exists>g u. slashless g \<and> slashless u \<and> k = memberKey g u \<and> kv (groupKey g) = Some lease)"

definition store_ok :: "(string \<rightharpoonup> i64) \<Rightarrow> bool" where
  "store_ok kv \<longleftrightarrow> finite (dom kv) \<and> (\<forall>k lease. kv k = Some lease \<longrightarrow> key_ok kv k lease)"

definition store_view :: "(string \<rightharpoonup> i64) \<Rightarrow> string \<rightharpoonup> string set" where
  "store_view kv g =
     (if slashless g \<and> kv (groupKey g) \<noteq> None then Some {u. kv (memberKey g u) \<noteq> None} else None)"

lemma store_ok_finite: "store_ok kv \<Longrightarrow> finite (dom kv)"
  by (simp add: store_ok_def)

lemma store_okI:
  assumes "finite (dom kv)" and "\<And>k lease. kv k = Some lease \<Longrightarrow> key_ok kv k lease"
  shows "store_ok kv"
  using assms by (auto simp: store_ok_def)

lemma key_okE:
  assumes "store_ok kv" and "kv k = Some lease"
  obtains (group) g where "slashless g" and "k = groupKey g"
  | (member) g u where "slashless g" and "slashless u" and "k = memberKey g u"
      and "kv (groupKey g) = Some lease"
  using assms unfolding store_ok_def key_ok_def by blast

lemma key_okI:
  "slashless g \<Longrightarrow> key_ok kv (groupKey g) lease"
  "slashless g \<Longrightarrow> slashless u \<Longrightarrow> kv (groupKey g) = Some lease \<Longrightarrow> key_ok kv (memberKey g u) lease"
  unfolding key_ok_def by blast+

lemma store_ok_member:
  assumes "store_ok kv" and "slashless g" and "kv (memberKey g u) = Some lease"
  shows "slashless u \<and> kv (groupKey g) = Some lease"
  using assms(1,3)
proof (cases rule: key_okE)
  case (group h)
  then show ?thesis by simp
next
  case (member h v)
  then show ?thesis using assms(2) by simp
qed

lemma store_view_None: "slashless g \<Longrightarrow> store_view kv g = None \<longleftrightarrow> kv (groupKey g) = None"
  by (simp add: store_view_def)

lemma store_put_group:
  assumes "store_ok kv" and "slashless g" and "kv (groupKey g) = None"
  shows "store_ok (kv(groupKey g \<mapsto> lease))"
    and "store_view (kv(groupKey g \<mapsto> lease)) = (store_view kv)(g \<mapsto> {})"
proof -
  have none: "kv (memberKey g u) = None" for u
    using store_ok_member [OF assms(1,2)] assms(3) by (metis not_Some_eq)
  show "store_ok (kv(groupKey g \<mapsto> lease))"
  proof (rule store_okI)
    show "finite (dom (kv(groupKey g \<mapsto> lease)))" using assms(1) by (simp add: store_ok_finite)
    fix k l
    assume k: "(kv(groupKey g \<mapsto> lease)) k = Some l"
    show "key_ok (kv(groupKey g \<mapsto> lease)) k l"
    proof (cases "k = groupKey g")
      case False
      with k have "kv k = Some l" by simp
      with assms(1) show ?thesis
      proof (cases rule: key_okE)
        case (member h v)
        then show ?thesis using assms(3) by (auto intro!: key_okI)
      qed (auto intro: key_okI)
    qed (simp add: key_okI assms(2))
  qed
  show "store_view (kv(groupKey g \<mapsto> lease)) = (store_view kv)(g \<mapsto> {})"
    using none assms(2) by (auto simp: store_view_def fun_eq_iff)
qed

lemma store_put_member:
  assumes "store_ok kv" and "slashless g" and "slashless u" and "kv (groupKey g) = Some lease"
    and "store_view kv g = Some U"
  shows "store_ok (kv(memberKey g u \<mapsto> lease))"
    and "store_view (kv(memberKey g u \<mapsto> lease)) = (store_view kv)(g \<mapsto> insert u U)"
proof -
  show "store_ok (kv(memberKey g u \<mapsto> lease))"
  proof (rule store_okI)
    show "finite (dom (kv(memberKey g u \<mapsto> lease)))" using assms(1) by (simp add: store_ok_finite)
    fix k l
    assume k: "(kv(memberKey g u \<mapsto> lease)) k = Some l"
    show "key_ok (kv(memberKey g u \<mapsto> lease)) k l"
    proof (cases "k = memberKey g u")
      case False
      with k have "kv k = Some l" by simp
      with assms(1) show ?thesis by (cases rule: key_okE) (auto intro!: key_okI)
    next
      case True
      with k assms(2-4) show ?thesis by (auto intro!: key_okI)
    qed
  qed
  show "store_view (kv(memberKey g u \<mapsto> lease)) = (store_view kv)(g \<mapsto> insert u U)"
    using assms by (auto simp: store_view_def fun_eq_iff)
qed

lemma store_delete_member:
  assumes "store_ok kv" and "slashless g" and "store_view kv g = Some U"
  shows "store_ok (kv(memberKey g u := None))"
    and "store_view (kv(memberKey g u := None)) = (store_view kv)(g \<mapsto> U - {u})"
proof -
  show "store_ok (kv(memberKey g u := None))"
  proof (rule store_okI)
    show "finite (dom (kv(memberKey g u := None)))" using assms(1) by (simp add: store_ok_finite)
    fix k l
    assume "(kv(memberKey g u := None)) k = Some l"
    then have "kv k = Some l" by (simp split: if_splits)
    with assms(1) show "key_ok (kv(memberKey g u := None)) k l"
      by (cases rule: key_okE) (auto intro!: key_okI)
  qed
  show "store_view (kv(memberKey g u := None)) = (store_view kv)(g \<mapsto> U - {u})"
    using assms by (auto simp: store_view_def fun_eq_iff)
qed

definition without_members :: "string \<Rightarrow> (string \<rightharpoonup> i64) \<Rightarrow> (string \<rightharpoonup> i64)" where
  "without_members g kv = (\<lambda>k. if prefix (memberKey g []) k then None else kv k)"

lemma without_members_simps [simp]:
  "slashless h \<Longrightarrow> without_members g kv (groupKey h) = kv (groupKey h)"
  "without_members g kv (memberKey g u) = None"
  "slashless g \<Longrightarrow> slashless h \<Longrightarrow> h \<noteq> g \<Longrightarrow> without_members g kv (memberKey h u) = kv (memberKey h u)"
  by (auto simp: without_members_def memberKey_prefix)

lemma without_members_Some:
  "without_members g kv k = Some l \<Longrightarrow> kv k = Some l"
  by (auto simp: without_members_def split: if_splits)

lemma store_without_members:
  assumes "store_ok kv" and "slashless g"
  shows "store_ok (without_members g kv)"
    and "kv (groupKey g) \<noteq> None \<Longrightarrow> store_view (without_members g kv) = (store_view kv)(g \<mapsto> {})"
proof -
  have "dom (without_members g kv) \<subseteq> dom kv" by (auto dest: without_members_Some)
  then have "finite (dom (without_members g kv))"
    using assms(1) finite_subset by (auto simp: store_ok_def)
  then show "store_ok (without_members g kv)"
  proof (rule store_okI)
    fix k l
    assume "without_members g kv k = Some l"
    then have "kv k = Some l" by (rule without_members_Some)
    with assms(1) show "key_ok (without_members g kv) k l"
      by (cases rule: key_okE) (auto intro!: key_okI)
  qed
  show "kv (groupKey g) \<noteq> None \<Longrightarrow> store_view (without_members g kv) = (store_view kv)(g \<mapsto> {})"
    using assms(2) by (auto simp: store_view_def fun_eq_iff)
qed

lemma store_delete_group:
  assumes "store_ok kv" and "slashless g"
  shows "store_ok ((without_members g kv)(groupKey g := None))"
    and "store_view ((without_members g kv)(groupKey g := None)) = (store_view kv)(g := None)"
proof -
  have ok: "store_ok (without_members g kv)" by (rule store_without_members [OF assms])
  show "store_ok ((without_members g kv)(groupKey g := None))"
  proof (rule store_okI)
    show "finite (dom ((without_members g kv)(groupKey g := None)))"
      using ok by (simp add: store_ok_finite)
    fix k l
    assume "((without_members g kv)(groupKey g := None)) k = Some l"
    then have k: "k \<noteq> groupKey g" "without_members g kv k = Some l" by (auto split: if_splits)
    from ok k(2) show "key_ok ((without_members g kv)(groupKey g := None)) k l"
    proof (cases rule: key_okE)
      case (member h u)
      then have "h \<noteq> g" using k(2) by auto
      with member show ?thesis by (auto intro!: key_okI)
    qed (auto intro: key_okI)
  qed
  show "store_view ((without_members g kv)(groupKey g := None)) = (store_view kv)(g := None)"
    using assms(2) by (auto simp: store_view_def fun_eq_iff)
qed

section \<open>The service keeps the contract\<close>

lemma fold_delete_group:
  "fold op_effect [OpDeletePrefix (memberKey g []), OpDelete (groupKey g)] kv
     = (without_members g kv)(groupKey g := None)"
  "fold op_effect [OpDeletePrefix (memberKey g [])] kv = without_members g kv"
  by (simp_all add: without_members_def)

lemma view_member:
  "store_view kv g = Some U \<Longrightarrow> kv (memberKey g u) \<noteq> None \<longleftrightarrow> u \<in> U"
  "store_view kv g = Some U \<Longrightarrow> slashless g \<and> kv (groupKey g) \<noteq> None"
  by (auto simp: store_view_def split: if_splits)

lemma found_members:
  assumes "store_view kv g = Some U"
  shows "{k \<in> dom kv. prefix (memberKey g []) k} = memberKey g ` U"
  using assms by (auto simp: memberKey_prefix store_view_def split: if_splits)

lemma etcd_create_law:
  assumes "etcd_laws c kv" and "store_ok (kv st)" and "slashless g"
    and "etcd_createGroup c g lease st = (st', e)"
  shows "store_ok (kv st') \<and> (if store_view (kv st) g = None
      then store_view (kv st') = (store_view (kv st))(g \<mapsto> {}) \<and> e = None
      else store_view (kv st') = store_view (kv st) \<and> e = Some ErrGroupAlreadyExists)"
  using txn_error_law [OF assms(1), of _ "[Missing (groupKey g)]"] assms(4)
    store_put_group [OF assms(2,3)] assms(2,3)
  by (fastforce simp: etcd_createGroup_def store_view_None)

lemma etcd_members_law:
  assumes "etcd_laws c kv" and "store_view (kv st) g = Some U"
  shows "\<exists>us. etcd_GroupMembers c g st = Inr us \<and> distinct us \<and> set us = U"
proof -
  have "list_all (cmp_holds (kv st)) [Exists (groupKey g)]" using view_member(2) [OF assms(2)] by simp
  from etcd_lawsD(2) [OF assms(1) this, of "OpGetPrefix (memberKey g [])"]
  obtain st' ks where "etcd_Txn c [Exists (groupKey g)] [OpGetPrefix (memberKey g [])] st
      = (Inr (True, [ks]), st')" and ks: "distinct ks" "set ks = memberKey g ` U"
    using found_members [OF assms(2)] by auto
  then have "etcd_GroupMembers c g st = Inr (map (drop (length (memberKey g []))) ks)"
    by (simp add: etcd_GroupMembers_def)
  moreover have "inj_on (drop (length (memberKey g []))) (set ks)"
    by (auto simp: ks(2) inj_on_def)
  then have "distinct (map (drop (length (memberKey g []))) ks)" using ks(1) by (simp add: distinct_map)
  moreover have "drop (length (memberKey g [])) ` set ks = U" by (auto simp: ks(2) image_iff)
  ultimately show ?thesis by auto
qed

lemma etcd_contains_law:
  assumes "etcd_laws c kv" and "store_view (kv st) g = Some U"
  shows "etcd_GroupContainsMember c g u st = Inr (u \<in> U)"
proof -
  have "list_all (cmp_holds (kv st)) [Exists (groupKey g)]" using view_member(2) [OF assms(2)] by simp
  from etcd_lawsD(2) [OF assms(1) this, of "OpGet (memberKey g u)"]
  obtain st' ks where txn: "etcd_Txn c [Exists (groupKey g)] [OpGet (memberKey g u)] st
      = (Inr (True, [ks]), st')" and "set ks = op_found (OpGet (memberKey g u)) (kv st)"
    by blast
  then have "set ks = {} \<longleftrightarrow> u \<notin> U" using view_member(1) [OF assms(2), of u] by simp
  with txn show ?thesis by (simp add: etcd_GroupContainsMember_def)
qed

lemma etcd_remove_all_law:
  assumes "etcd_laws c kv" and "store_ok (kv st)" and "slashless g"
    and "etcd_GroupRemoveAll c g st = (st', e)"
  shows "store_ok (kv st') \<and> (if store_view (kv st) g = None
      then store_view (kv st') = store_view (kv st) \<and> e = Some ErrGroupNotFound
      else store_view (kv st') = (store_view (kv st))(g \<mapsto> {}) \<and> e = None)"
  using txn_error_law [OF assms(1) assms(4) [unfolded etcd_GroupRemoveAll_def]] assms(2,3)
    store_without_members [OF assms(2,3)]
  unfolding fold_delete_group by (simp add: store_view_None)

lemma etcd_delete_law:
  assumes "etcd_laws c kv" and "store_ok (kv st)" and "slashless g"
    and "etcd_GroupDelete c g st = (st', e)"
  shows "store_ok (kv st') \<and> (if store_view (kv st) g = None
      then store_view (kv st') = store_view (kv st) \<and> e = Some ErrGroupNotFound
      else store_view (kv st') = (store_view (kv st))(g := None) \<and> e = None)"
  using txn_error_law [OF assms(1) assms(4) [unfolded etcd_GroupDelete_def]] assms(2,3)
    store_delete_group [OF assms(2,3)]
  unfolding fold_delete_group by (simp add: store_view_None)

lemma etcd_add_law:
  assumes "etcd_laws c kv" and "store_ok (kv st)" and "slashless g" and "slashless u"
    and "etcd_GroupAddMember c g u st = (st', e)"
  shows "store_ok (kv st') \<and> (case store_view (kv st) g of
      None \<Rightarrow> store_view (kv st') = store_view (kv st) \<and> e = Some ErrGroupNotFound
    | Some U \<Rightarrow> if u \<in> U then store_view (kv st') = store_view (kv st) \<and> e = Some ErrMemberAlreadyExists
        else store_view (kv st') = (store_view (kv st))(g \<mapsto> insert u U) \<and> e = None)"
proof (cases "store_view (kv st) g")
  case None
  then have "getGroupKV c g st = Inl ErrGroupNotFound"
    using assms(3) by (simp add: getGroupKV_def etcd_lawsD(3) [OF assms(1)] store_view_None)
  with None assms(2,5) show ?thesis by (auto simp: etcd_GroupAddMember_def)
next
  case (Some U)
  then obtain lease where lease: "kv st (groupKey g) = Some lease"
    using view_member(2) by blast
  let ?cmps = "[Exists (groupKey g), Missing (memberKey g u)]"
  have kv: "getGroupKV c g st = Inr (groupKey g, lease)"
    by (simp add: getGroupKV_def etcd_lawsD(3) [OF assms(1)] lease)
  have "txn_error ErrMemberAlreadyExists (etcd_Txn c ?cmps [OpPut (memberKey g u) lease] st) = (st', e)"
    using assms(5) kv by (simp add: etcd_GroupAddMember_def)
  note txn = txn_error_law [OF assms(1) this]
  show ?thesis
  proof (cases "u \<in> U")
    case True
    with Some txn assms(2) lease show ?thesis
      using view_member(1) [OF Some, of u] by simp
  next
    case False
    with Some txn lease show ?thesis
      using view_member(1) [OF Some, of u] store_put_member [OF assms(2-4) lease Some] by simp
  qed
qed

lemma etcd_remove_law:
  assumes "etcd_laws c kv" and "store_ok (kv st)" and "slashless g"
    and "etcd_GroupRemoveMember c g u st = (st', e)"
  shows "store_ok (kv st') \<and> (case store_view (kv st) g of
      None \<Rightarrow> store_view (kv st') = store_view (kv st) \<and> e \<noteq> None
    | Some U \<Rightarrow> if u \<in> U then store_view (kv st') = (store_view (kv st))(g \<mapsto> U - {u}) \<and> e = None
        else store_view (kv st') = store_view (kv st) \<and> e = Some ErrMemberNotFound)"
proof -
  note txn = txn_error_law [OF assms(1) assms(4) [unfolded etcd_GroupRemoveMember_def]]
  show ?thesis
  proof (cases "store_view (kv st) g")
    case None
    then have "kv st (memberKey g u) = None"
      using store_ok_member [OF assms(2,3)] assms(3) by (metis not_Some_eq store_view_None)
    with None txn assms(2) show ?thesis by simp
  next
    case (Some U)
    with txn assms(2) show ?thesis
      using view_member(1) [OF Some, of u] store_delete_member [OF assms(2,3) Some, of u] by auto
  qed
qed

lemma etcd_keeps_contract:
  assumes "etcd_laws c kv"
  shows "group_contract (etcd_service c) (\<lambda>st. store_view (kv st)) (\<lambda>st. store_ok (kv st)) slashless"
proof (unfold_locales, goal_cases)
  case (1 st g st' e)
  then show ?case
    using etcd_create_law [OF assms] by (simp add: etcd_service_def etcd_GroupCreate_def)
next
  case (2 st g U)
  then show ?case using etcd_members_law [OF assms] by (simp add: etcd_service_def)
next
  case (3 st g)
  then show ?case
    using etcd_lawsD(1) [OF assms, of "[Exists (groupKey g)]" "[OpGetPrefix (memberKey g [])]" st]
    by (auto simp: etcd_service_def etcd_GroupMembers_def store_view_None)
next
  case (4 st g u U)
  then show ?case using etcd_contains_law [OF assms] by (simp add: etcd_service_def)
next
  case (5 st g u st' e)
  then show ?case using etcd_add_law [OF assms] by (simp add: etcd_service_def)
next
  case (6 st g u st' e)
  then show ?case using etcd_remove_law [OF assms] by (simp add: etcd_service_def)
next
  case (7 st g st' e)
  then show ?case using etcd_remove_all_law [OF assms] by (simp add: etcd_service_def)
next
  case (8 st g st' e)
  then show ?case using etcd_delete_law [OF assms] by (simp add: etcd_service_def)
next
  case (9 st g U)
  then show ?case
    using found_members [of "kv st" g U]
    by (simp add: etcd_service_def etcd_GroupCountMembers_def etcd_lawsD(4) [OF assms] card_image inj_on_def)
qed


text \<open>A store that keeps the laws: an association list, in which a deleted key is filtered out.\<close>

fun example_effect :: "etcd_op \<Rightarrow> (string \<times> i64) list \<Rightarrow> (string \<times> i64) list" where
  "example_effect (OpPut k lease) st = (k, lease) # st"
| "example_effect (OpDelete k) st = filter (\<lambda>(x, _). x \<noteq> k) st"
| "example_effect (OpDeletePrefix p) st = filter (\<lambda>(x, _). \<not> prefix p x) st"
| "example_effect _ st = st"

fun example_found :: "etcd_op \<Rightarrow> (string \<times> i64) list \<Rightarrow> string list" where
  "example_found (OpGet k) st = remdups (filter (\<lambda>x. x = k) (map fst st))"
| "example_found (OpGetPrefix p) st = remdups (filter (prefix p) (map fst st))"
| "example_found _ st = []"

definition example_etcd :: "(string \<times> i64) list etcd" where
  "example_etcd =
     \<lparr>etcd_Txn = (\<lambda>cmps ops st.
        if list_all (cmp_holds (map_of st)) cmps
        then (Inr (True, map (\<lambda>op. example_found op st) ops), fold example_effect ops st)
        else (Inr (False, []), st)),
      etcd_Get = (\<lambda>k st. Inr (case map_of st k of None \<Rightarrow> [] | Some l \<Rightarrow> [(k, l)])),
      etcd_CountPrefix = (\<lambda>p st. Inr (length (remdups (filter (prefix p) (map fst st))))),
      etcd_Grant = (\<lambda>ttl st. (Inr 1, st)),
      etcd_KeepAliveOnce = (\<lambda>l st. (None, st))\<rparr>"

lemma map_of_filter_key: "map_of (filter (\<lambda>(x, _). P x) st) k = (if P k then map_of st k else None)"
  by (induction st) auto

lemma example_effect_law: "map_of (example_effect op st) = op_effect op (map_of st)"
  by (cases op) (auto simp: map_of_filter_key fun_eq_iff)

lemma example_effects_law: "map_of (fold example_effect ops st) = fold op_effect ops (map_of st)"
  by (induction ops arbitrary: st) (simp_all add: example_effect_law)

lemma example_found_law:
  "distinct (example_found op st) \<and> set (example_found op st) = op_found op (map_of st)"
  by (cases op) (auto simp: dom_map_of_conv_image_fst map_of_eq_None_iff)

lemma example_etcd_laws: "etcd_laws example_etcd map_of"
proof -
  have "card {k \<in> dom (map_of st). prefix p k} = length (remdups (filter (prefix p) (map fst st)))"
    for p and st :: "(string \<times> i64) list"
    by (simp add: dom_map_of_conv_image_fst conj_commute flip: length_remdups_card_conv set_filter)
      (simp add: length_remdups_card_conv image_iff, metis)
  then show ?thesis
    using example_found_law by (auto simp: etcd_laws_def example_etcd_def example_effects_law)
qed


section \<open>Leases\<close>

text \<open>When a lease runs out, etcd deletes the keys that are attached to it.\<close>

definition expire :: "i64 \<Rightarrow> (string \<rightharpoonup> i64) \<Rightarrow> (string \<rightharpoonup> i64)" where
  "expire lease kv = (\<lambda>k. if kv k = Some lease then None else kv k)"



section \<open>Where the two services differ\<close>

text \<open>
  On a group that does not exist the two services answer differently. Counting its members is
  zero without an error on etcd and the group-not-found error in memory, and removing a member
  reports that the member is not found on etcd and that the group is not found in memory.
\<close>

theorem etcd_missing_group:
  assumes "etcd_laws c kv" and "store_ok (kv st)" and "slashless g"
    and "store_view (kv st) g = None" and "memory_view groups g = None"
  shows "etcd_GroupCountMembers c g st = Inr 0 \<and>
    snd (etcd_GroupRemoveMember c g u st) = Some ErrMemberNotFound \<and>
    GroupCountMembers g groups = Inl ErrGroupNotFound \<and>
    snd (GroupRemoveMember g u groups) = Some ErrGroupNotFound"
proof -
  have none: "kv st (memberKey g v) = None" for v
    using store_ok_member [OF assms(2,3)] assms(3,4) by (metis not_Some_eq store_view_None)
  then have "{k \<in> dom (kv st). prefix (memberKey g []) k} = {}" by (auto simp: memberKey_prefix)
  then have "etcd_GroupCountMembers c g st = Inr 0"
    by (simp only: etcd_GroupCountMembers_def etcd_lawsD(4) [OF assms(1)] card.empty)
  moreover have "snd (etcd_GroupRemoveMember c g u st) = Some ErrMemberNotFound"
    using txn_error_law [OF assms(1), of _ "[Exists (memberKey g u)]", OF surjective_pairing] none
    by (simp add: etcd_GroupRemoveMember_def)
  ultimately show ?thesis
    using assms(5) by (simp add: GroupCountMembers_def GroupRemoveMember_def)
qed

lemma etcd_missing_group_witness:
  "etcd_GroupCountMembers example_etcd ''g'' [] = Inr 0 \<and>
   GroupCountMembers ''g'' Map.empty = Inl ErrGroupNotFound"
  using etcd_missing_group [OF example_etcd_laws, of "[]" "''g''" Map.empty]
  by (simp add: store_ok_def store_view_def memory_view_def slashless_def)

text \<open>
  Names with a slash break the isolation of groups on etcd. The key of member \<open>u\<close> of group \<open>g\<close>
  is the key of the group named \<open>g/uids/u\<close>: adding the member makes that group exist, without its
  ever having been created.
\<close>

theorem etcd_slash_collision:
  assumes "etcd_laws c kv" and "etcd_GroupAddMember c g u st = (st', None)"
  shows "kv st' (groupKey (g @ ''/uids/'' @ u)) \<noteq> None \<and>
    snd (etcd_GroupCreate c (g @ ''/uids/'' @ u) st') = Some ErrGroupAlreadyExists"
proof -
  have key: "groupKey (g @ ''/uids/'' @ u) = memberKey g u"
    by (simp add: groupKey_def memberKey_def)
  obtain k lease where "getGroupKV c g st = Inr (k, lease)"
    using assms(2) by (cases "getGroupKV c g st") (auto simp: etcd_GroupAddMember_def)
  then have "txn_error ErrMemberAlreadyExists (etcd_Txn c
      [Exists (groupKey g), Missing (memberKey g u)] [OpPut (memberKey g u) lease] st) = (st', None)"
    using assms(2) by (simp add: etcd_GroupAddMember_def)
  from txn_error_law [OF assms(1) this] have "kv st' (memberKey g u) = Some lease"
    by (auto split: if_splits)
  then show ?thesis
    using txn_error_law [OF assms(1), of _ "[Missing (memberKey g u)]", OF surjective_pairing]
    unfolding etcd_GroupCreate_def etcd_createGroup_def key by simp
qed

lemma etcd_slash_collision_witness:
  "snd (etcd_GroupCreate example_etcd ''g/uids/a''
     (fst (etcd_GroupAddMember example_etcd ''g'' ''a'' [(''groups/g'', 0)]))) = Some ErrGroupAlreadyExists"
proof -
  have "snd (etcd_GroupAddMember example_etcd ''g'' ''a'' [(''groups/g'', 0)]) = None"
    by code_simp
  then have "etcd_GroupAddMember example_etcd ''g'' ''a'' [(''groups/g'', 0)] =
      (fst (etcd_GroupAddMember example_etcd ''g'' ''a'' [(''groups/g'', 0)]), None)"
    by (metis prod.collapse)
  from etcd_slash_collision [OF example_etcd_laws this] show ?thesis by simp
qed

end
