(* ===== verification/Acceptor.thy ===== *)
theory Acceptor
  imports Packet
begin

text \<open>
  Connections of players: \<open>GetNextMessage\<close> of the TCP connection (\<open>acceptor/tcp_acceptor.go\<close>) and of
  the websocket connection (\<open>acceptor/ws_acceptor.go\<close>), with the contract that the reader of a
  connection relies on: every message is exactly one packet. The wrappers of \<open>acceptorwrapper\<close> are
  in the theory \<open>Rate_Limiter\<close>.
\<close>

section \<open>The TCP connection\<close>

text \<open>
  What is still to be read from a connection: its bytes, and how it ends after them, with an error of
  the connection or with the end of the stream.
\<close>

record tcp_conn =
  tcp_bytes :: "byte list"
  tcp_end :: "goerr option"

text \<open>
  \<open>ioutil.ReadAll\<close> on \<open>io.LimitReader(conn, n)\<close>: \<open>n\<close> bytes if they are there, otherwise the bytes
  before the end of the stream, or the error that the connection ends with.
\<close>

definition read_limited :: "nat \<Rightarrow> tcp_conn \<Rightarrow> byte list res \<times> tcp_conn" where
  "read_limited n conn =
     (if n \<le> length (tcp_bytes conn)
      then (Inr (take n (tcp_bytes conn)), conn\<lparr>tcp_bytes := drop n (tcp_bytes conn)\<rparr>)
      else (case tcp_end conn of
              None \<Rightarrow> (Inr (tcp_bytes conn), conn\<lparr>tcp_bytes := []\<rparr>)
            | Some e \<Rightarrow> (Inl e, conn\<lparr>tcp_bytes := []\<rparr>)))"

definition tcp_GetNextMessage :: "tcp_conn \<Rightarrow> byte list res \<times> tcp_conn" where
  "tcp_GetNextMessage conn =
     (case read_limited HeadLength conn of
        (Inl e, conn) \<Rightarrow> (Inl e, conn)
      | (Inr header, conn) \<Rightarrow>
          if length header = 0 then (Inl ErrConnectionClosed, conn)
          else (case ParseHeader header of
                  Inl e \<Rightarrow> (Inl e, conn)
                | Inr (msgSize, _) \<Rightarrow>
                    (case read_limited (nat (sint msgSize)) conn of
                       (Inl e, conn) \<Rightarrow> (Inl e, conn)
                     | (Inr msgData, conn) \<Rightarrow>
                         if int (length msgData) < sint msgSize
                         then (Inl ErrReceivedMsgSmallerThanExpected, conn)
                         else (Inr (header @ msgData), conn))))"

section \<open>The websocket connection\<close>

text \<open>
  A websocket delivers whole messages. The connection is the list of what \<open>ReadMessage\<close> returns,
  call after call; after the list it is closed.
\<close>

type_synonym ws_conn = "byte list res list"

definition ReadMessage :: "ws_conn \<Rightarrow> byte list res \<times> ws_conn" where
  "ReadMessage conn =
     (case conn of [] \<Rightarrow> (Inl (ErrExternal ''websocket: close''), []) | r # rs \<Rightarrow> (r, rs))"

definition ws_GetNextMessage :: "ws_conn \<Rightarrow> byte list res \<times> ws_conn" where
  "ws_GetNextMessage conn =
     (case ReadMessage conn of
        (Inl e, conn) \<Rightarrow> (Inl e, conn)
      | (Inr msgBytes, conn) \<Rightarrow>
          if length msgBytes < HeadLength then (Inl ErrInvalidPomeloHeader, conn)
          else (case ParseHeader (take HeadLength msgBytes) of
                  Inl e \<Rightarrow> (Inl e, conn)
                | Inr (msgSize, _) \<Rightarrow>
                    let dataLen = length (drop HeadLength msgBytes) in
                    if int dataLen < sint msgSize
                    then (Inl ErrReceivedMsgSmallerThanExpected, conn)
                    else if int dataLen > sint msgSize
                    then (Inl ErrReceivedMsgBiggerThanExpected, conn)
                    else (Inr msgBytes, conn)))"

section \<open>The contract of a connection\<close>

text \<open>
  \<open>PlayerConn\<close>: the next message of a connection is one packet as \<open>Encode\<close> writes it, never a part
  of one and never several.
\<close>

definition is_frame :: "byte list \<Rightarrow> bool" where
  "is_frame m \<longleftrightarrow> (\<exists>ty data. m = frame ty data \<and> validPacketType ty \<and> length data < MaxPacketSize)"

locale player_conn =
  fixes GetNextMessage :: "'c \<Rightarrow> byte list res \<times> 'c"
  assumes framed: "GetNextMessage c = (Inr m, c') \<Longrightarrow> is_frame m"
begin

lemma decodes_to_one_packet:
  assumes "GetNextMessage c = (Inr m, c')"
  shows "\<exists>p. PacketDecode m = Inr [p] \<and> PacketEncode (pkt_Type p) (pkt_Data p) = Inr m"
proof -
  obtain ty data where m: "m = frame ty data" "validPacketType ty" "length data < MaxPacketSize"
    using framed [OF assms] by (auto simp: is_frame_def)
  have "incomplete []" "\<not> bad_header []"
    by (simp_all add: incomplete_def bad_header_def HeadLength_def)
  then have "PacketDecode m = Inr [packet_of ty data]"
    using PacketDecode_frames [of "[]" "[(ty, data)]"] m by (simp add: decoded_def)
  moreover have "PacketEncode ty data = Inr m" using m by (simp add: PacketEncode_Inr_iff)
  ultimately show ?thesis by auto
qed

end

lemma header_data_frame:
  assumes "ParseHeader header = Inr (sz, ty)" and "int (length data) = sint sz"
  shows "is_frame (header @ data)"
proof -
  note h = ParseHeader_InrD [OF assms(1)]
  have len: "length data = unat sz"
    using assms(2) unfolding h(4) by (simp only: of_nat_eq_iff)
  have "header @ data = frame ty data"
    unfolding frame_def len h(2) by simp
  moreover have "length data < MaxPacketSize" unfolding len by (rule h(3))
  ultimately show ?thesis using h(1) unfolding is_frame_def by blast
qed

lemma read_limited_Inr:
  "read_limited n conn = (Inr b, conn') \<Longrightarrow> length b \<le> n"
  by (auto simp: read_limited_def split: if_splits option.splits)

lemma tcp_InrE:
  assumes "tcp_GetNextMessage conn = (Inr m, conn')"
  obtains header conn1 sz ty data where "ParseHeader header = Inr (sz, ty)"
    and "read_limited (nat (sint sz)) conn1 = (Inr data, conn')"
    and "m = header @ data" and "\<not> int (length data) < sint sz"
    and "read_limited HeadLength conn = (Inr header, conn1)" and "header \<noteq> []"
  using assms by (auto simp: tcp_GetNextMessage_def split: prod.splits sum.splits if_splits)

lemma tcp_framed:
  assumes "tcp_GetNextMessage conn = (Inr m, conn')"
  shows "is_frame m"
proof -
  from assms obtain header conn1 sz ty data where h: "ParseHeader header = Inr (sz, ty)"
    and d: "read_limited (nat (sint sz)) conn1 = (Inr data, conn')"
    and m: "m = header @ data" "\<not> int (length data) < sint sz"
    by (rule tcp_InrE)
  have "int (length data) = sint sz"
    using read_limited_Inr [OF d] m(2) ParseHeader_InrD(4) [OF h] by linarith
  with h m(1) show ?thesis by (simp add: header_data_frame)
qed

lemma ws_framed:
  assumes "ws_GetNextMessage conn = (Inr m, conn')"
  shows "is_frame m"
proof -
  from assms obtain sz ty where "ParseHeader (take HeadLength m) = Inr (sz, ty)"
    and "int (length (drop HeadLength m)) = sint sz"
    by (auto simp: ws_GetNextMessage_def Let_def split: prod.splits sum.splits if_splits)
  from header_data_frame [OF this] show ?thesis by simp
qed

interpretation tcp: player_conn tcp_GetNextMessage
  by unfold_locales (rule tcp_framed)

interpretation ws: player_conn ws_GetNextMessage
  by unfold_locales (rule ws_framed)

section \<open>Reading a stream\<close>

text \<open>Reading a connection until it fails: the messages in order and the error at the end.\<close>

lemma read_limited_le: "length (tcp_bytes (snd (read_limited n conn))) \<le> length (tcp_bytes conn)"
  by (auto simp: read_limited_def split: option.splits)

lemma tcp_consumes:
  assumes "tcp_GetNextMessage conn = (Inr m, conn')"
  shows "length (tcp_bytes conn') < length (tcp_bytes conn)"
proof -
  from assms obtain header conn1 data and sz :: i64 where "read_limited HeadLength conn = (Inr header, conn1)"
      "header \<noteq> []" "read_limited (nat (sint sz)) conn1 = (Inr data, conn')"
    by (elim tcp_InrE)
  moreover from this have "length (tcp_bytes conn1) < length (tcp_bytes conn)"
    by (auto simp: read_limited_def HeadLength_def split: if_splits option.splits)
  ultimately show ?thesis using read_limited_le [of "nat (sint sz)" conn1] by simp
qed

function tcp_messages :: "tcp_conn \<Rightarrow> byte list list \<times> goerr" where
  "tcp_messages conn =
     (case tcp_GetNextMessage conn of
        (Inl e, _) \<Rightarrow> ([], e)
      | (Inr m, conn') \<Rightarrow> (case tcp_messages conn' of (ms, e) \<Rightarrow> (m # ms, e)))"
  by pat_completeness auto
termination
  by (relation "measure (\<lambda>conn. length (tcp_bytes conn))") (auto dest: tcp_consumes [OF sym])

declare tcp_messages.simps [simp del]

lemma tcp_GetNextMessage_frame:
  assumes "validPacketType ty" and "length data < MaxPacketSize"
  shows "tcp_GetNextMessage \<lparr>tcp_bytes = frame ty data @ rest, tcp_end = e\<rparr> =
    (Inr (frame ty data), \<lparr>tcp_bytes = rest, tcp_end = e\<rparr>)"
proof -
  let ?head = "ty # IntToBytes (word_of_nat (length data))"
  have "read_limited HeadLength \<lparr>tcp_bytes = frame ty data @ rest, tcp_end = e\<rparr> =
      (Inr ?head, \<lparr>tcp_bytes = data @ rest, tcp_end = e\<rparr>)"
    unfolding read_limited_def by (simp only: tcp_conn.simps frame_head length_append length_frame) simp
  moreover have "length data < 2 ^ 63" using assms(2) by (simp add: MaxPacketSize_def)
  ultimately show ?thesis
    using ParseHeader_head [OF assms]
    by (simp add: tcp_GetNextMessage_def read_limited_def frame_def)
qed

text \<open>
  C11. A TCP stream is cut into packets exactly. From a stream that holds the encodings of any sequence
  of packets (each shorter than \<open>MaxPacketSize\<close>) and then ends, \<open>GetNextMessage\<close> returns the
  encodings one by one, in order and whole, and then the connection-closed error.
\<close>

theorem tcp_messages_frames:
  assumes "list_all2 (\<lambda>(t, d) b. PacketEncode t d = Inr b) ps bs"
    and "\<forall>(t, d) \<in> set ps. length d < MaxPacketSize"
  shows "tcp_messages \<lparr>tcp_bytes = concat bs, tcp_end = None\<rparr> = (bs, ErrConnectionClosed)"
  using assms
proof (induction ps bs rule: list_all2_induct)
  case Nil
  then show ?case
    by (simp add: tcp_messages.simps tcp_GetNextMessage_def read_limited_def HeadLength_def)
next
  case (Cons p ps b bs)
  obtain t d where p: "p = (t, d)" by (cases p)
  with Cons have "b = frame t d" "validPacketType t" "length d < MaxPacketSize"
    by (auto simp: PacketEncode_Inr_iff)
  with Cons p show ?case
    by (simp add: tcp_messages.simps [of "\<lparr>tcp_bytes = frame t d @ concat bs, tcp_end = None\<rparr>"]
        tcp_GetNextMessage_frame)
qed

lemma tcp_messages_frames_witness:
  "tcp_messages \<lparr>tcp_bytes = concat [[4, 0, 0, 2, 7, 9], [3, 0, 0, 0]], tcp_end = None\<rparr>
     = ([[4, 0, 0, 2, 7, 9], [3, 0, 0, 0]], ErrConnectionClosed)"
  by (rule tcp_messages_frames [of "[(DataPacket, [7, 9]), (Heartbeat, [])]"])
    (simp_all add: PacketEncode_def MaxPacketSize_def IntToBytes_eq)

text \<open>
  C12. Whatever bytes arrive, a message that a TCP or a websocket connection returns is one packet: the
  packet decoder makes exactly one packet of it, whose encoding is the message.
\<close>

theorem player_conn_one_packet:
  "(tcp_GetNextMessage c = (Inr m, c') \<or> ws_GetNextMessage w = (Inr m, w')) \<Longrightarrow>
     \<exists>p. PacketDecode m = Inr [p] \<and> PacketEncode (pkt_Type p) (pkt_Data p) = Inr m"
  using tcp.decodes_to_one_packet ws.decodes_to_one_packet by blast

lemma player_conn_one_packet_witness:
  "\<exists>p. PacketDecode [3, 0, 0, 0] = Inr [p] \<and> PacketEncode (pkt_Type p) (pkt_Data p) = Inr [3, 0, 0, 0]"
proof (rule player_conn_one_packet)
  have "ParseHeader [3, 0, 0, 0] = Inr (0, 3)"
    by (simp add: ParseHeader_def BytesToInt_def HeadLength_def MaxPacketSize_def)
  then show "tcp_GetNextMessage c = (Inr [3, 0, 0, 0], c') \<or>
      ws_GetNextMessage [Inr [3, 0, 0, 0]] = (Inr [3, 0, 0, 0], [])" for c c'
    by (simp add: ws_GetNextMessage_def ReadMessage_def HeadLength_def)
qed

end
