(* ===== verification/Rate_Limiter.thy ===== *)
theory Rate_Limiter
  imports Acceptor "HOL-Library.Sublist"
begin

text \<open>
  The rate limiter of \<open>acceptorwrapper/rate_limiter.go\<close>. It keeps the times of the last accepted
  messages in a queue of at most \<open>limit\<close> entries. The theorems show that this queue decides exactly
  like a sliding window over all messages accepted so far, and bound what passes in any interval.
\<close>

section \<open>Definitions\<close>

text \<open>
  Times are nanoseconds. \<open>time.Time.Sub\<close> saturates at the bounds of a \<open>Duration\<close>, which is a signed
  64-bit integer. The messages of the wrapped connection are the list of what its
  \<open>GetNextMessage\<close> returns, each with the time at which the limiter looks at the clock.
\<close>

type_synonym arrivals = "(byte list res \<times> int) list"

record rate_limiter =
  rl_limit :: int
  rl_interval :: int
  rl_times :: "int list"
  rl_forceDisable :: bool

definition NewRateLimiter :: "int \<Rightarrow> int \<Rightarrow> bool \<Rightarrow> rate_limiter" where
  "NewRateLimiter limit interval forceDisable =
     \<lparr>rl_limit = limit, rl_interval = interval, rl_times = [], rl_forceDisable = forceDisable\<rparr>"

definition time_Sub :: "int \<Rightarrow> int \<Rightarrow> int" where
  "time_Sub t u = max (- (2 ^ 63)) (min (2 ^ 63 - 1) (t - u))"

text \<open>The result is \<open>None\<close> when the queue has no front, whose value the code then dereferences.\<close>

definition shouldRateLimit :: "int \<Rightarrow> rate_limiter \<Rightarrow> (bool \<times> rate_limiter) option" where
  "shouldRateLimit now r =
     (if int (length (rl_times r)) < rl_limit r
      then Some (False, r\<lparr>rl_times := rl_times r @ [now]\<rparr>)
      else (case rl_times r of
              [] \<Rightarrow> None
            | front # rest \<Rightarrow>
                if time_Sub now front < rl_interval r then Some (True, r)
                else Some (False, r\<lparr>rl_times := rest @ [now]\<rparr>)))"

datatype rl_result = Waiting | Panicked | Returned "byte list res"

fun rl_GetNextMessage :: "rate_limiter \<Rightarrow> arrivals \<Rightarrow> rl_result \<times> rate_limiter \<times> arrivals" where
  "rl_GetNextMessage r [] = (Waiting, r, [])"
| "rl_GetNextMessage r ((m, now) # conn) =
     (if rl_forceDisable r then (Returned m, r, conn)
      else (case m of
              Inl e \<Rightarrow> (Returned (Inl e), r, conn)
            | Inr msg \<Rightarrow>
                (case shouldRateLimit now r of
                   None \<Rightarrow> (Panicked, r, conn)
                 | Some (True, r') \<Rightarrow> rl_GetNextMessage r' conn
                 | Some (False, r') \<Rightarrow> (Returned (Inr msg), r', conn))))"

section \<open>Calling it again and again\<close>

text \<open>What a reader gets that calls \<open>GetNextMessage\<close> until it waits for the connection.\<close>

lemma rl_GetNextMessage_consumes:
  "rl_GetNextMessage r conn = (Returned m, r', conn') \<Longrightarrow> length conn' < length conn"
proof (induction conn arbitrary: r)
  case (Cons a conn)
  then show ?case
    by (cases a) (fastforce split: if_splits sum.splits option.splits prod.splits bool.splits)
qed simp

function rl_results :: "rate_limiter \<Rightarrow> arrivals \<Rightarrow> byte list res list option" where
  "rl_results r conn =
     (case rl_GetNextMessage r conn of
        (Waiting, _, _) \<Rightarrow> Some []
      | (Panicked, _, _) \<Rightarrow> None
      | (Returned m, r', conn') \<Rightarrow> map_option (Cons m) (rl_results r' conn'))"
  by pat_completeness auto
termination
  by (relation "measure (\<lambda>(r, conn). length conn)")
    (auto dest: rl_GetNextMessage_consumes [OF sym])

declare rl_results.simps [simp del]

section \<open>The sliding window\<close>

text \<open>
  The specification. A message that arrives at \<open>now\<close> is passed on exactly when fewer than \<open>limit\<close>
  messages were accepted in the interval that ends at \<open>now\<close>. \<open>acc\<close> are the times of all messages
  accepted before. Errors of the connection are passed on.
\<close>

definition in_window :: "int \<Rightarrow> int \<Rightarrow> int list \<Rightarrow> nat" where
  "in_window interval now acc = length (filter (\<lambda>t. now - t < interval) acc)"

fun window_results :: "int \<Rightarrow> int \<Rightarrow> int list \<Rightarrow> arrivals \<Rightarrow> byte list res list" where
  "window_results limit interval acc [] = []"
| "window_results limit interval acc ((Inl e, now) # conn) =
     Inl e # window_results limit interval acc conn"
| "window_results limit interval acc ((Inr msg, now) # conn) =
     (if int (in_window interval now acc) < limit
      then Inr msg # window_results limit interval (acc @ [now]) conn
      else window_results limit interval acc conn)"

text \<open>The clock does not go back, and a duration fits 64 bits.\<close>

definition clock_ok :: "int list \<Rightarrow> arrivals \<Rightarrow> bool" where
  "clock_ok acc conn \<longleftrightarrow> sorted (acc @ map snd conn)"

definition duration_ok :: "int \<Rightarrow> bool" where
  "duration_ok d \<longleftrightarrow> - (2 ^ 63) < d \<and> d < 2 ^ 63"

text \<open>The queue holds the last \<open>limit\<close> times accepted.\<close>

definition queue_of :: "int \<Rightarrow> int list \<Rightarrow> int list" where
  "queue_of limit acc = drop (length acc - nat limit) acc"

lemma time_Sub_less: "duration_ok d \<Longrightarrow> time_Sub t u < d \<longleftrightarrow> t - u < d"
  by (auto simp: time_Sub_def duration_ok_def)

lemma filter_sorted_count:
  assumes "sorted xs" and "\<And>x y. x \<le> y \<Longrightarrow> P x \<Longrightarrow> P y" and "n \<le> length xs"
  shows "n \<le> length (filter P xs) \<longleftrightarrow> n = 0 \<or> P (xs ! (length xs - n))"
  using assms(1,3)
proof (induction xs arbitrary: n rule: rev_induct)
  case (snoc x xs)
  show ?case
  proof (cases n)
    case (Suc k)
    have elem: "(xs @ [x]) ! (length (xs @ [x]) - n) = (if k = 0 then x else xs ! (length xs - k))"
      using Suc snoc.prems(2) by (auto simp: nth_append)
    have le: "y \<in> set xs \<Longrightarrow> y \<le> x" for y using snoc.prems(1) by (simp add: sorted_append)
    show ?thesis
    proof (cases "P x")
      case True
      then show ?thesis using snoc Suc elem by (auto simp: sorted_append)
    next
      case False
      then have "filter P xs = []" using le assms(2) by (auto simp: filter_empty_conv)
      moreover have "\<not> P (xs ! (length xs - k))" if "k \<noteq> 0"
      proof -
        have "length xs - k < length xs" using that snoc.prems(2) Suc by auto
        then have "xs ! (length xs - k) \<le> x" by (intro le nth_mem)
        then show ?thesis using False assms(2) by blast
      qed
      ultimately show ?thesis using False Suc elem by auto
    qed
  qed simp
qed simp

lemma in_window_iff:
  assumes "sorted acc" and "0 < n" and "n \<le> length acc"
  shows "n \<le> in_window interval now acc \<longleftrightarrow> now - acc ! (length acc - n) < interval"
  unfolding in_window_def
  using filter_sorted_count [of acc "\<lambda>t. now - t < interval" n] assms by auto

lemma in_window_le: "in_window interval now acc \<le> length acc"
  by (simp add: in_window_def)

lemma queue_of_push:
  assumes "0 < limit"
  shows "queue_of limit (acc @ [now]) =
    (if int (length acc) < limit then queue_of limit acc else tl (queue_of limit acc)) @ [now]"
  using assms by (auto simp: queue_of_def drop_Suc tl_drop Suc_diff_le)

lemma length_queue_of: "0 < limit \<Longrightarrow> int (length (queue_of limit acc)) < limit \<longleftrightarrow> int (length acc) < limit"
  by (auto simp: queue_of_def)

lemma shouldRateLimit_window:
  assumes "0 < rl_limit r" and "duration_ok (rl_interval r)" and "sorted acc"
    and "rl_times r = queue_of (rl_limit r) acc"
  shows "shouldRateLimit now r =
    (if int (in_window (rl_interval r) now acc) < rl_limit r
     then Some (False, r\<lparr>rl_times := queue_of (rl_limit r) (acc @ [now])\<rparr>)
     else Some (True, r))"
proof (cases "int (length acc) < rl_limit r")
  case True
  then have "int (in_window (rl_interval r) now acc) < rl_limit r"
    using in_window_le [of "rl_interval r" now acc] by linarith
  with True assms show ?thesis
    by (simp add: shouldRateLimit_def length_queue_of queue_of_push)
next
  case False
  let ?n = "nat (rl_limit r)"
  have n: "0 < ?n" "?n \<le> length acc" using False assms(1) by auto
  then have "length acc - ?n < length acc" by linarith
  then obtain rest where q: "rl_times r = acc ! (length acc - ?n) # rest"
    using assms(4) Cons_nth_drop_Suc [of "length acc - ?n" acc] unfolding queue_of_def by metis
  have "time_Sub now (acc ! (length acc - ?n)) < rl_interval r \<longleftrightarrow>
      ?n \<le> in_window (rl_interval r) now acc"
    using in_window_iff [OF assms(3) n] assms(2) by (simp add: time_Sub_less)
  also have "\<dots> \<longleftrightarrow> \<not> int (in_window (rl_interval r) now acc) < rl_limit r" using assms(1) by auto
  moreover have "queue_of (rl_limit r) (acc @ [now]) = rest @ [now]"
    using False queue_of_push [OF assms(1), of acc now] unfolding assms(4) [symmetric] q by simp
  ultimately show ?thesis
    using False q assms(1,4) length_queue_of [of "rl_limit r" acc] by (simp add: shouldRateLimit_def)
qed

lemma rl_results_skip:
  assumes "rl_GetNextMessage r conn = rl_GetNextMessage r' conn'"
  shows "rl_results r conn = rl_results r' conn'"
  by (simp only: rl_results.simps [of r conn] rl_results.simps [of r' conn'] assms)

lemma rl_results_return:
  "rl_GetNextMessage r conn = (Returned m, r', conn') \<Longrightarrow>
     rl_results r conn = map_option (Cons m) (rl_results r' conn')"
  by (simp only: rl_results.simps [of r conn] prod.case rl_result.case)

lemma rl_results_window:
  assumes "0 < limit" and "duration_ok interval" and "clock_ok acc conn"
  shows "rl_results \<lparr>rl_limit = limit, rl_interval = interval, rl_times = queue_of limit acc,
      rl_forceDisable = False\<rparr> conn = Some (window_results limit interval acc conn)"
  using assms(3)
proof (induction conn arbitrary: acc)
  case Nil
  then show ?case by (simp add: rl_results.simps)
next
  case (Cons a conn)
  obtain m now where a: "a = (m, now)" by (cases a)
  let ?r = "\<lambda>acc. \<lparr>rl_limit = limit, rl_interval = interval, rl_times = queue_of limit acc,
      rl_forceDisable = False\<rparr>"
  have sorted: "sorted acc" and next_ok: "clock_ok acc conn" and push_ok: "clock_ok (acc @ [now]) conn"
    using Cons.prems a by (auto simp: clock_ok_def sorted_append)
  show ?case
  proof (cases m)
    case (Inl e)
    have "rl_GetNextMessage (?r acc) (a # conn) = (Returned (Inl e), ?r acc, conn)"
      by (simp add: a Inl)
    from rl_results_return [OF this] Cons.IH [OF next_ok] show ?thesis by (simp add: a Inl)
  next
    case (Inr msg)
    have should: "shouldRateLimit now (?r acc) =
        (if int (in_window interval now acc) < limit then Some (False, ?r (acc @ [now]))
         else Some (True, ?r acc))"
      using shouldRateLimit_window [of "?r acc" acc now] assms(1,2) sorted by simp
    show ?thesis
    proof (cases "int (in_window interval now acc) < limit")
      case True
      then have "rl_GetNextMessage (?r acc) (a # conn) = (Returned (Inr msg), ?r (acc @ [now]), conn)"
        using should by (simp add: a Inr)
      from rl_results_return [OF this] Cons.IH [OF push_ok] True show ?thesis by (simp add: a Inr)
    next
      case False
      then have "rl_GetNextMessage (?r acc) (a # conn) = rl_GetNextMessage (?r acc) conn"
        using should by (simp add: a Inr)
      from rl_results_skip [OF this] Cons.IH [OF next_ok] False show ?thesis by (simp add: a Inr)
    qed
  qed
qed

text \<open>
  C9. The rate limiter is a sliding window. With a positive limit and a clock that does not go back,
  the messages that pass a new rate limiter are exactly those that arrive when fewer than \<open>limit\<close>
  messages were accepted within the interval before, although only a queue of \<open>limit\<close> times is
  kept; the others are dropped, errors of the connection pass, and the limiter never panics.
\<close>

theorem rate_limiter_sliding_window:
  assumes "0 < limit" and "duration_ok interval" and "sorted (map snd conn)"
  shows "rl_results (NewRateLimiter limit interval False) conn =
    Some (window_results limit interval [] conn)"
  using rl_results_window [OF assms(1,2), of "[]" conn] assms(3)
  by (simp add: NewRateLimiter_def clock_ok_def queue_of_def)

lemma rate_limiter_sliding_window_witness:
  "rl_results (NewRateLimiter 1 10 False) [(Inr [1], 0), (Inr [2], 5), (Inr [3], 10)] =
     Some [Inr [1], Inr [3]]"
  using rate_limiter_sliding_window [of 1 10 "[(Inr [1], 0), (Inr [2], 5), (Inr [3], 10)]"]
  by (simp add: duration_ok_def in_window_def)

section \<open>How much passes\<close>

text \<open>The arrivals that are passed on, with their times.\<close>

fun window_passed :: "int \<Rightarrow> int \<Rightarrow> int list \<Rightarrow> arrivals \<Rightarrow> arrivals" where
  "window_passed limit interval acc [] = []"
| "window_passed limit interval acc ((Inl e, now) # conn) =
     (Inl e, now) # window_passed limit interval acc conn"
| "window_passed limit interval acc ((Inr msg, now) # conn) =
     (if int (in_window interval now acc) < limit
      then (Inr msg, now) # window_passed limit interval (acc @ [now]) conn
      else window_passed limit interval acc conn)"

lemma window_passed_results:
  "map fst (window_passed limit interval acc conn) = window_results limit interval acc conn"
  by (induction limit interval acc conn rule: window_passed.induct) simp_all

lemma window_passed_subseq: "subseq (window_passed limit interval acc conn) conn"
  by (induction limit interval acc conn rule: window_passed.induct) (simp_all add: list_emb_Cons)

text \<open>The times of the messages among some arrivals, and how many times lie in a span.\<close>

definition message_times :: "arrivals \<Rightarrow> int list" where
  "message_times conn = map snd (filter (\<lambda>(m, now). \<not> isl m) conn)"

definition in_span :: "int \<Rightarrow> int \<Rightarrow> int list \<Rightarrow> nat" where
  "in_span start interval acc = length (filter (\<lambda>t. start \<le> t \<and> t < start + interval) acc)"

lemma in_span_le_window:
  "start \<le> now \<Longrightarrow> now < start + interval \<Longrightarrow> in_span start interval acc \<le> in_window interval now acc"
  by (induction acc) (auto simp: in_span_def in_window_def)

lemma in_span_snoc:
  "in_span start interval (acc @ [now]) =
     in_span start interval acc + (if start \<le> now \<and> now < start + interval then 1 else 0)"
  by (simp add: in_span_def)

lemma window_passed_span:
  assumes "int (in_span start interval acc) \<le> limit"
  shows "int (in_span start interval (acc @ message_times (window_passed limit interval acc conn))) \<le> limit"
  using assms
proof (induction limit interval acc conn rule: window_passed.induct)
  case (3 limit interval acc msg now conn)
  show ?case
  proof (cases "int (in_window interval now acc) < limit")
    case True
    have "int (in_span start interval (acc @ [now])) \<le> limit"
      using True "3.prems" in_span_le_window [of start now interval acc]
      by (auto simp: in_span_snoc)
    with True "3.IH"(1) show ?thesis by (simp add: message_times_def)
  next
    case False
    with "3.IH"(2) "3.prems" show ?thesis by simp
  qed
qed (simp_all add: message_times_def)

text \<open>
  C10. The rate. What a new rate limiter passes on is a part of the arrivals in their order, and at
  most \<open>limit\<close> of the messages passed on arrived in any span of \<open>interval\<close>, wherever it starts.
\<close>

theorem rate_limiter_rate:
  assumes "0 < limit" and "duration_ok interval" and "sorted (map snd conn)"
  shows "\<exists>passed. rl_results (NewRateLimiter limit interval False) conn = Some (map fst passed) \<and>
    subseq passed conn \<and>
    (\<forall>start. int (in_span start interval (message_times passed)) \<le> limit)"
  using rl_results_window [OF assms(1,2), of "[]" conn] assms(1,3)
    window_passed_span [of _ interval "[]" limit conn]
  by (intro exI [of _ "window_passed limit interval [] conn"])
    (simp add: NewRateLimiter_def clock_ok_def queue_of_def in_span_def window_passed_subseq
      window_passed_results)

lemma rate_limiter_rate_witness:
  "\<exists>passed. rl_results (NewRateLimiter 1 10 False) [(Inr [1], 0), (Inr [2], 5), (Inr [3], 10)] =
      Some (map fst passed) \<and> int (in_span 0 10 (message_times passed)) \<le> 1"
  using rate_limiter_rate [of 1 10 "[(Inr [1], 0), (Inr [2], 5), (Inr [3], 10)]"]
  by (auto simp: duration_ok_def)

section \<open>Limits that make no sense\<close>

text \<open>
  A limit that is not positive makes the limiter panic on the first message. The queue is empty
  and not shorter than the limit, so the code takes its front and dereferences it.
\<close>

theorem rate_limiter_no_limit_panics:
  assumes "limit \<le> 0"
  shows "rl_GetNextMessage (NewRateLimiter limit interval False) ((Inr msg, now) # conn) =
    (Panicked, NewRateLimiter limit interval False, conn)"
  using assms by (simp add: NewRateLimiter_def shouldRateLimit_def)

lemma rate_limiter_no_limit_panics_witness:
  "rl_GetNextMessage (NewRateLimiter 0 10 False) [(Inr [1], 0)] =
     (Panicked, NewRateLimiter 0 10 False, [])"
  using rate_limiter_no_limit_panics [of 0 10 "[1]" 0 "[]"] by simp

end
