(* ===== verification/Go_Values.thy ===== *)
theory Go_Values
  imports Pitaya_Errors
begin

text \<open>
  Dynamic Go values and the parts of Go's library that work on them: values of type \<open>any\<close>, decimal
  numbers (\<open>strconv.FormatInt\<close> and \<open>strconv.ParseInt\<close>), the checksum of \<open>hash/crc32\<close>, and
  \<open>encoding/json\<close> as a parameter. On top of them \<open>ForceIdStrToInt\<close> and
  \<open>MapStrInter2MapStrStr\<close> of \<open>util/util.go\<close>, and the context values that are propagated
  through calls, \<open>context/context.go\<close>.
\<close>

section \<open>Values of type any\<close>

text \<open>One constructor for each dynamic type that a type assertion of the sources names. Floating-point
  values are their bits.\<close>

datatype (plugins only: code size) goval =
    GNil | GBool bool
  | GInt i64 | GInt8 "8 word" | GInt16 "16 word" | GInt32 "32 word" | GInt64 i64
  | GUint u64 | GUint8 "8 word" | GUint16 "16 word" | GUint32 "32 word" | GUint64 u64
  | GFloat32 "32 word" | GFloat64 "64 word"
  | GString string | GBytes "byte list" | GList "goval list" | GMap "(string \<times> goval) list"

text \<open>A Go map from strings: \<open>None\<close> is the nil map, which can be read but not written.\<close>

type_synonym 'v gomap = "(string \<rightharpoonup> 'v) option"

definition map_get :: "'v gomap \<Rightarrow> string \<Rightarrow> 'v option" where
  "map_get m k = (case m of None \<Rightarrow> None | Some f \<Rightarrow> f k)"

text \<open>Writing to the nil map panics, which is \<open>None\<close>; deleting from it does nothing.\<close>

definition map_set :: "'v gomap \<Rightarrow> string \<Rightarrow> 'v \<Rightarrow> 'v gomap option" where
  "map_set m k v = (case m of None \<Rightarrow> None | Some f \<Rightarrow> Some (Some (f(k \<mapsto> v))))"

definition map_delete :: "'v gomap \<Rightarrow> string \<Rightarrow> 'v gomap" where
  "map_delete m k = map_option (\<lambda>f. f(k := None)) m"

lemma map_get_simps [simp]: "map_get None = Map.empty" "map_get (Some f) = f"
  by (simp_all add: map_get_def fun_eq_iff)

lemma map_set_Some [simp]: "map_set (Some f) k v = Some (Some (f(k \<mapsto> v)))"
  by (simp add: map_set_def)

lemma map_set_None [simp]: "map_set None k v = None"
  by (simp add: map_set_def)

lemma map_delete_get [simp]: "map_get (map_delete m k) x = (if x = k then None else map_get m x)"
  by (cases m) (simp_all add: map_delete_def)

text \<open>
  The JSON library, a parameter: \<open>json.Marshal\<close> of a map of values and of a map of strings, and
  \<open>json.Unmarshal\<close> into a map of values.
\<close>

record json =
  json_Marshal :: "goval gomap \<Rightarrow> byte list res"
  json_MarshalStrings :: "string gomap \<Rightarrow> byte list res"
  json_Unmarshal :: "byte list \<Rightarrow> goval gomap res"

text \<open>
  What \<open>encoding/json\<close> documents of decoding into a value of interface type: booleans, strings,
  \<open>float64\<close> for every number, \<open>[]any\<close>, \<open>map[string]any\<close> and nil, and no other type.
\<close>

fun json_value :: "goval \<Rightarrow> bool" where
  "json_value GNil = True"
| "json_value (GBool _) = True"
| "json_value (GFloat64 _) = True"
| "json_value (GString _) = True"
| "json_value (GList _) = True"
| "json_value (GMap _) = True"
| "json_value _ = False"

definition json_decodes_values :: "json \<Rightarrow> bool" where
  "json_decodes_values j \<longleftrightarrow>
     (\<forall>b m k v. json_Unmarshal j b = Inr m \<longrightarrow> map_get m k = Some v \<longrightarrow> json_value v)"

section \<open>Decimal numbers\<close>

function digits :: "nat \<Rightarrow> string" where
  "digits n = (if n < 10 then [char_of (48 + n)] else digits (n div 10) @ [char_of (48 + n mod 10)])"
  by pat_completeness auto
termination
  by (relation "measure id") auto

declare digits.simps [simp del]

definition FormatInt :: "i64 \<Rightarrow> string" where
  "FormatInt n =
     (if sint n < 0 then CHR ''-'' # digits (nat (- sint n)) else digits (nat (sint n)))"

text \<open>\<open>ParseInt(s, 10, 64)\<close> returns a value with its error: zero for a syntax error, and the nearest
  bound when the number does not fit.\<close>

fun parse_digits :: "string \<Rightarrow> nat \<Rightarrow> nat option" where
  "parse_digits [] n = Some n"
| "parse_digits (c # cs) n =
     (let d = of_char c :: nat in
      if 48 \<le> d \<and> d \<le> 57 then parse_digits cs (10 * n + (d - 48)) else None)"

definition ParseInt :: "string \<Rightarrow> i64 \<times> goerr option" where
  "ParseInt s =
     (case s of
        [] \<Rightarrow> (0, Some (ErrExternal ''invalid syntax''))
      | c # cs \<Rightarrow>
          let neg = (c = CHR ''-'');
              ds = (if c = CHR ''+'' \<or> c = CHR ''-'' then cs else s)
          in (case (if ds = [] then None else parse_digits ds 0) of
                None \<Rightarrow> (0, Some (ErrExternal ''invalid syntax''))
              | Some un \<Rightarrow>
                  if \<not> neg \<and> un \<ge> 2 ^ 63 then (word_of_int (2 ^ 63 - 1), Some (ErrExternal ''value out of range''))
                  else if neg \<and> un > 2 ^ 63 then (word_of_int (- (2 ^ 63)), Some (ErrExternal ''value out of range''))
                  else (if neg then - word_of_nat un else word_of_nat un, None)))"

lemma digit_char: "d < 10 \<Longrightarrow> of_char (char_of (48 + d) :: char) = (48 + d :: nat)"
  by simp

lemma parse_digits_append:
  "parse_digits (s @ t) n = (case parse_digits s n of None \<Rightarrow> None | Some m \<Rightarrow> parse_digits t m)"
  by (induction s n rule: parse_digits.induct) (auto simp: Let_def)

lemma parse_digits_digits: "parse_digits (digits n) 0 = Some n"
proof (induction n rule: digits.induct)
  case (1 n)
  show ?case
  proof (cases "n < 10")
    case True
    then show ?thesis by (simp add: digits.simps [of n] Let_def)
  next
    case False
    have "n mod 10 < 10" by simp
    with False 1 show ?thesis
      by (simp add: digits.simps [of n] parse_digits_append Let_def)
  qed
qed

lemma digits_first: "\<exists>c cs. digits n = c # cs \<and> c \<noteq> CHR ''-'' \<and> c \<noteq> CHR ''+''"
proof (induction n rule: digits.induct)
  case (1 n)
  show ?case
  proof (cases "n < 10")
    case True
    then have "of_char (char_of (48 + n) :: char) \<noteq> (of_char CHR ''-'' :: nat)"
      "of_char (char_of (48 + n) :: char) \<noteq> (of_char CHR ''+'' :: nat)"
      by simp_all
    then have "char_of (48 + n) \<noteq> CHR ''-''" "char_of (48 + n) \<noteq> CHR ''+''" by metis+
    with True show ?thesis by (simp add: digits.simps [of n])
  next
    case False
    with 1 show ?thesis by (auto simp: digits.simps [of n])
  qed
qed

lemma sint_bounds: "- (2 ^ 63) \<le> sint n" "sint n < 2 ^ 63" for n :: i64
  using sint_ge [of n] sint_lt [of n] by simp_all

lemma ParseInt_FormatInt [simp]: "ParseInt (FormatInt n) = (n, None)"
proof (cases "sint n < 0")
  case True
  obtain c cs where d: "digits (nat (- sint n)) = c # cs" using digits_first by blast
  have "\<not> nat (- sint n) > 2 ^ 63" using sint_bounds(1) [of n] by (simp add: zless_nat_eq_int_zless)
  moreover have "- word_of_nat (nat (- sint n)) = n" using True by simp
  ultimately show ?thesis
    using True d parse_digits_digits [of "nat (- sint n)"] by (simp add: FormatInt_def ParseInt_def)
next
  case False
  obtain c cs where d: "digits (nat (sint n)) = c # cs" "c \<noteq> CHR ''-''" "c \<noteq> CHR ''+''"
    using digits_first by blast
  have "\<not> nat (sint n) \<ge> 2 ^ 63" using sint_bounds(2) [of n] False by (simp add: not_le nat_less_iff)
  moreover have "word_of_nat (nat (sint n)) = n" using False by simp
  ultimately show ?thesis
    using False d parse_digits_digits [of "nat (sint n)"] by (simp add: FormatInt_def ParseInt_def)
qed

section \<open>Checksums and ids\<close>

text \<open>The IEEE checksum, bit by bit with the reversed polynomial.\<close>

fun crc_shift :: "nat \<Rightarrow> 32 word \<Rightarrow> 32 word" where
  "crc_shift 0 crc = crc"
| "crc_shift (Suc k) crc =
     crc_shift k (if bit crc 0 then drop_bit 1 crc XOR 0xEDB88320 else drop_bit 1 crc)"

definition ChecksumIEEE :: "byte list \<Rightarrow> 32 word" where
  "ChecksumIEEE b = NOT (foldl (\<lambda>crc v. crc_shift 8 (crc XOR ucast v)) (NOT 0) b)"

text \<open>The number of a user id: the number it spells, or its checksum.\<close>

definition ForceIdStrToInt :: "string \<Rightarrow> i64" where
  "ForceIdStrToInt uid =
     (if uid = [] then 0
      else (case ParseInt uid of
              (idInt, None) \<Rightarrow> idInt
            | (_, Some _) \<Rightarrow> ucast (ChecksumIEEE (str_bytes uid))))"

definition FrontendSessHash :: "string \<Rightarrow> i64 \<Rightarrow> i64" where
  "FrontendSessHash frontendID sessID =
     ucast (ChecksumIEEE (str_bytes (frontendID @ ''-'' @ FormatInt sessID)))"

text \<open>The entries of a map whose values are strings.\<close>

definition MapStrInter2MapStrStr :: "goval gomap \<Rightarrow> (string \<rightharpoonup> string)" where
  "MapStrInter2MapStrStr m k =
     (case map_get m k of Some (GString v) \<Rightarrow> Some v | _ \<Rightarrow> None)"

section \<open>Propagated context values\<close>

text \<open>
  A context as far as the framework reads it: whether it is nil, and the map stored under
  \<open>PropagateCtxKey\<close>, if one is stored. Adding a value copies the map, so that the contexts derived
  from one context do not see each other's values.
\<close>

datatype go_ctx = NilCtx | Ctx "goval gomap option"

fun toRaw :: "go_ctx \<Rightarrow> goval gomap" where
  "toRaw NilCtx = Some Map.empty"
| "toRaw (Ctx None) = Some Map.empty"
| "toRaw (Ctx (Some m)) = m"

fun ToMap :: "go_ctx \<Rightarrow> (string \<rightharpoonup> goval)" where
  "ToMap NilCtx = Map.empty"
| "ToMap (Ctx None) = Map.empty"
| "ToMap (Ctx (Some m)) = map_get m"

definition AddToPropagateCtx :: "go_ctx \<Rightarrow> string \<Rightarrow> goval \<Rightarrow> go_ctx" where
  "AddToPropagateCtx ctx key val = Ctx (Some (Some ((ToMap ctx)(key \<mapsto> val))))"

text \<open>
  \<open>AddListToPropagateCtx\<close> takes keys and values in turn. A key that is not a string panics, which
  is \<open>None\<close>; a last key without a value is ignored.
\<close>

fun propagate_list :: "goval list \<Rightarrow> (string \<rightharpoonup> goval) \<Rightarrow> (string \<rightharpoonup> goval) option" where
  "propagate_list [] m = Some m"
| "propagate_list [GString key] m = Some m"
| "propagate_list (GString key # val # rest) m = propagate_list rest (m(key \<mapsto> val))"
| "propagate_list _ m = None"

definition AddListToPropagateCtx :: "go_ctx \<Rightarrow> goval list \<Rightarrow> go_ctx option" where
  "AddListToPropagateCtx ctx keyOrValList =
     (if keyOrValList = [] then Some ctx
      else map_option (\<lambda>m. Ctx (Some (Some m))) (propagate_list keyOrValList (ToMap ctx)))"

definition GetFromPropagateCtx :: "go_ctx \<Rightarrow> string \<Rightarrow> goval" where
  "GetFromPropagateCtx ctx key =
     (case map_get (toRaw ctx) key of Some v \<Rightarrow> v | None \<Rightarrow> GNil)"

definition FromMap :: "goval gomap \<Rightarrow> go_ctx" where
  "FromMap val = Ctx (Some val)"

text \<open>Encoding a context whose map is empty gives no bytes, and no bytes decode to the nil context.
  Unmarshalling \<open>null\<close> into the map that \<open>Decode\<close> has made sets it to nil.\<close>

definition ctx_Encode :: "json \<Rightarrow> go_ctx \<Rightarrow> byte list res" where
  "ctx_Encode j ctx =
     (let m = ToMap ctx in
      if m \<noteq> Map.empty then json_Marshal j (Some m) else Inr [])"

definition ctx_Decode :: "json \<Rightarrow> byte list \<Rightarrow> go_ctx res" where
  "ctx_Decode j m =
     (if m = [] then Inr NilCtx
      else and_then (json_Unmarshal j m) (\<lambda>mp. Inr (FromMap mp)))"

lemma toRaw_ToMap [simp]: "map_get (toRaw ctx) = ToMap ctx"
  by (cases ctx rule: ToMap.cases) auto

lemma GetFromPropagateCtx_Add [simp]:
  "GetFromPropagateCtx (AddToPropagateCtx ctx key val) k =
     (if k = key then val else GetFromPropagateCtx ctx k)"
  by (simp add: GetFromPropagateCtx_def AddToPropagateCtx_def)


text \<open>A library for the examples: a few maps that it knows how to write and to read, among them one
  with the number five, which it reads as a \<open>float64\<close>; the rest fails.\<close>

definition json_example :: json where
  "json_example =
     \<lparr>json_Marshal = (\<lambda>m. if map_get m ''k'' = Some (GString ''v'') then Inr [1]
                          else if map_get m ''k'' = Some (GInt 5) \<or>
                            map_get m ''k'' = Some (GFloat64 0x4014000000000000) then Inr [3]
                          else if m = None then Inr [0] else Inl (ErrExternal ''json'')),
      json_MarshalStrings = (\<lambda>m. if m = Some [''k'' \<mapsto> ''v''] then Inr [1]
                                 else if m = Some Map.empty then Inr [2]
                                 else if m = None then Inr [0] else Inl (ErrExternal ''json'')),
      json_Unmarshal = (\<lambda>b. if b = [1] then Inr (Some [''k'' \<mapsto> GString ''v''])
                            else if b = [2] then Inr (Some Map.empty)
                            else if b = [3] then Inr (Some [''k'' \<mapsto> GFloat64 0x4014000000000000])
                            else if b = [0] then Inr None else Inl (ErrExternal ''json''))\<rparr>"


lemma json_example_values: "json_decodes_values json_example"
  by (auto simp: json_decodes_values_def json_example_def split: if_splits)

end
