(* ===== verification/Session.thy ===== *)
theory Session
  imports Go_Values
begin

text \<open>
  A session: the struct \<open>sessionImpl\<close> of \<open>session/session.go\<close> and its operations on the session
  itself. They are the data store with its typed readers and its encoded copy, the backends the
  session is bound to, the handshake, and the requests in flight. The pool of all sessions is in the
  theory \<open>Session_Pool\<close>, the exchange with the cluster's cache in \<open>Session_Cluster\<close>.
\<close>

section \<open>The session\<close>

text \<open>
  A session refers to its network entity and to callbacks; both are numbers here, an address and the
  code pointers by which the sources compare functions.
\<close>

record session =
  sess_id :: i64
  uid :: string
  uidInt :: i64
  lastTime :: i64
  entity :: nat
  data :: "goval gomap"
  handshakeData :: "goval option"
  encodedData :: "byte list"
  OnCloseCallbacks :: "nat list"
  IsFrontend :: bool
  frontendID :: string
  frontendSessionID :: i64
  online :: bool
  backends :: "string gomap"
  sess_ip :: string
  Subscriptions :: "string list"
  requestsInFlight :: "string \<rightharpoonup> string"

section \<open>The data store\<close>

text \<open>\<open>EncodeSessionData\<close> and \<open>DecodeSessionData\<close> of the pool: no bytes decode to the nil map.\<close>

definition EncodeSessionData :: "json \<Rightarrow> goval gomap \<Rightarrow> byte list res" where
  "EncodeSessionData j d = json_Marshal j d"

definition DecodeSessionData :: "json \<Rightarrow> byte list \<Rightarrow> goval gomap res" where
  "DecodeSessionData j encoded = (if encoded = [] then Inr None else json_Unmarshal j encoded)"

definition updateEncodedData :: "json \<Rightarrow> session \<Rightarrow> session \<times> goerr option" where
  "updateEncodedData j s =
     (case EncodeSessionData j (data s) of
        Inl e \<Rightarrow> (s, Some e)
      | Inr b \<Rightarrow> (s\<lparr>encodedData := b\<rparr>, None))"

definition GetData :: "session \<Rightarrow> goval gomap" where
  "GetData s = Some (map_get (data s))"

definition SetData :: "json \<Rightarrow> goval gomap \<Rightarrow> session \<Rightarrow> session \<times> goerr option" where
  "SetData j d s = updateEncodedData j (s\<lparr>data := Some (map_get d)\<rparr>)"

definition GetDataEncoded :: "session \<Rightarrow> byte list" where
  "GetDataEncoded s = encodedData s"

definition SetDataEncoded :: "json \<Rightarrow> byte list \<Rightarrow> session \<Rightarrow> session \<times> goerr option" where
  "SetDataEncoded j encoded s =
     (if encoded = [] then (s, None)
      else (case DecodeSessionData j encoded of
              Inl e \<Rightarrow> (s, Some e)
            | Inr d \<Rightarrow> SetData j d s))"

definition sess_Remove :: "json \<Rightarrow> string \<Rightarrow> session \<Rightarrow> session \<times> goerr option" where
  "sess_Remove j key s = updateEncodedData j (s\<lparr>data := map_delete (data s) key\<rparr>)"

text \<open>Setting a value panics, which is \<open>None\<close>, when the map is nil.\<close>

definition sess_Set :: "json \<Rightarrow> string \<Rightarrow> goval \<Rightarrow> session \<Rightarrow> (session \<times> goerr option) option" where
  "sess_Set j key val s =
     map_option (\<lambda>d. updateEncodedData j (s\<lparr>data := d\<rparr>)) (map_set (data s) key val)"

definition HasKey :: "session \<Rightarrow> string \<Rightarrow> bool" where
  "HasKey s key \<longleftrightarrow> map_get (data s) key \<noteq> None"

definition sess_Get :: "session \<Rightarrow> string \<Rightarrow> goval" where
  "sess_Get s key = (case map_get (data s) key of None \<Rightarrow> GNil | Some v \<Rightarrow> v)"

definition sess_Value :: "session \<Rightarrow> string \<Rightarrow> goval" where
  "sess_Value s key = (case map_get (data s) key of None \<Rightarrow> GNil | Some v \<Rightarrow> v)"

text \<open>The typed readers: the value when it has exactly the type asked for, the zero value otherwise.\<close>

definition sess_Int :: "session \<Rightarrow> string \<Rightarrow> i64" where
  "sess_Int s key = (case map_get (data s) key of Some (GInt v) \<Rightarrow> v | _ \<Rightarrow> 0)"

definition sess_Int8 :: "session \<Rightarrow> string \<Rightarrow> 8 word" where
  "sess_Int8 s key = (case map_get (data s) key of Some (GInt8 v) \<Rightarrow> v | _ \<Rightarrow> 0)"

definition sess_Int16 :: "session \<Rightarrow> string \<Rightarrow> 16 word" where
  "sess_Int16 s key = (case map_get (data s) key of Some (GInt16 v) \<Rightarrow> v | _ \<Rightarrow> 0)"

definition sess_Int32 :: "session \<Rightarrow> string \<Rightarrow> 32 word" where
  "sess_Int32 s key = (case map_get (data s) key of Some (GInt32 v) \<Rightarrow> v | _ \<Rightarrow> 0)"

definition sess_Int64 :: "session \<Rightarrow> string \<Rightarrow> i64" where
  "sess_Int64 s key = (case map_get (data s) key of Some (GInt64 v) \<Rightarrow> v | _ \<Rightarrow> 0)"

definition sess_Uint :: "session \<Rightarrow> string \<Rightarrow> u64" where
  "sess_Uint s key = (case map_get (data s) key of Some (GUint v) \<Rightarrow> v | _ \<Rightarrow> 0)"

definition sess_Uint8 :: "session \<Rightarrow> string \<Rightarrow> 8 word" where
  "sess_Uint8 s key = (case map_get (data s) key of Some (GUint8 v) \<Rightarrow> v | _ \<Rightarrow> 0)"

definition sess_Uint16 :: "session \<Rightarrow> string \<Rightarrow> 16 word" where
  "sess_Uint16 s key = (case map_get (data s) key of Some (GUint16 v) \<Rightarrow> v | _ \<Rightarrow> 0)"

definition sess_Uint32 :: "session \<Rightarrow> string \<Rightarrow> 32 word" where
  "sess_Uint32 s key = (case map_get (data s) key of Some (GUint32 v) \<Rightarrow> v | _ \<Rightarrow> 0)"

definition sess_Uint64 :: "session \<Rightarrow> string \<Rightarrow> u64" where
  "sess_Uint64 s key = (case map_get (data s) key of Some (GUint64 v) \<Rightarrow> v | _ \<Rightarrow> 0)"

definition sess_Float32 :: "session \<Rightarrow> string \<Rightarrow> 32 word" where
  "sess_Float32 s key = (case map_get (data s) key of Some (GFloat32 v) \<Rightarrow> v | _ \<Rightarrow> 0)"

definition sess_Float64 :: "session \<Rightarrow> string \<Rightarrow> 64 word" where
  "sess_Float64 s key = (case map_get (data s) key of Some (GFloat64 v) \<Rightarrow> v | _ \<Rightarrow> 0)"

definition sess_String :: "session \<Rightarrow> string \<Rightarrow> string" where
  "sess_String s key = (case map_get (data s) key of Some (GString v) \<Rightarrow> v | _ \<Rightarrow> [])"

definition stringUnsafe :: "session \<Rightarrow> string \<Rightarrow> string" where
  "stringUnsafe s key = (case map_get (data s) key of Some (GString v) \<Rightarrow> v | _ \<Rightarrow> [])"

text \<open>\<open>Clear\<close> ignores the error of the encoding.\<close>

definition sess_Clear :: "json \<Rightarrow> session \<Rightarrow> session" where
  "sess_Clear j s =
     fst (updateEncodedData j (s\<lparr>uid := [], uidInt := 0, data := Some Map.empty\<rparr>))"

section \<open>Frontend, backends, handshake and requests in flight\<close>

definition SetFrontendData :: "string \<Rightarrow> i64 \<Rightarrow> session \<Rightarrow> session" where
  "SetFrontendData fid fsid s = s\<lparr>frontendID := fid, frontendSessionID := fsid\<rparr>"

definition SetIP :: "string \<Rightarrow> session \<Rightarrow> session" where
  "SetIP ip s = s\<lparr>sess_ip := ip\<rparr>"

definition GetBackends :: "session \<Rightarrow> (string \<rightharpoonup> string)" where
  "GetBackends s = map_get (backends s)"

definition GetBackendID :: "session \<Rightarrow> string \<Rightarrow> string" where
  "GetBackendID s svrType = (case map_get (backends s) svrType of None \<Rightarrow> [] | Some v \<Rightarrow> v)"

definition SetBackends :: "string gomap \<Rightarrow> session \<Rightarrow> session" where
  "SetBackends bs s = s\<lparr>backends := bs\<rparr>"

text \<open>Writing to a nil map of backends panics, which is \<open>None\<close>.\<close>

definition SetBackendID :: "string \<Rightarrow> string \<Rightarrow> session \<Rightarrow> session option" where
  "SetBackendID svrType ident s = map_option (\<lambda>m. s\<lparr>backends := m\<rparr>) (map_set (backends s) svrType ident)"

definition RemoveBackendID :: "string \<Rightarrow> session \<Rightarrow> session" where
  "RemoveBackendID svrType s = s\<lparr>backends := map_delete (backends s) svrType\<rparr>"

definition OnClose :: "nat \<Rightarrow> session \<Rightarrow> session \<times> goerr option" where
  "OnClose c s =
     (if \<not> IsFrontend s then (s, Some ErrOnCloseBackend)
      else (s\<lparr>OnCloseCallbacks := OnCloseCallbacks s @ [c]\<rparr>, None))"

definition SetHandshakeData :: "goval option \<Rightarrow> session \<Rightarrow> session" where
  "SetHandshakeData d s = s\<lparr>handshakeData := d\<rparr>"

text \<open>
  \<open>ValidateHandshake\<close> runs the validators of the pool, in the order \<open>names\<close> of the range loop, and
  returns the error of the first that fails. \<open>validate\<close> is what a validator makes of the data.
\<close>

fun ValidateHandshake ::
  "(nat \<Rightarrow> goval option \<Rightarrow> goerr option) \<Rightarrow> (string \<rightharpoonup> nat) \<Rightarrow> string list \<Rightarrow> goval option
     \<Rightarrow> goerr option" where
  "ValidateHandshake validate validators [] d = None"
| "ValidateHandshake validate validators (name # names) d =
     (case validate (the (validators name)) d of
        Some e \<Rightarrow> Some e
      | None \<Rightarrow> ValidateHandshake validate validators names d)"

definition HasRequestsInFlight :: "session \<Rightarrow> bool" where
  "HasRequestsInFlight s \<longleftrightarrow> requestsInFlight s \<noteq> Map.empty"

definition SetRequestInFlight :: "string \<Rightarrow> string \<Rightarrow> bool \<Rightarrow> session \<Rightarrow> session" where
  "SetRequestInFlight reqID reqData inFlight s =
     (if inFlight then s\<lparr>requestsInFlight := (requestsInFlight s)(reqID \<mapsto> reqData)\<rparr>
      else if requestsInFlight s reqID \<noteq> None
      then s\<lparr>requestsInFlight := (requestsInFlight s)(reqID := None)\<rparr>
      else s)"

text \<open>The worker that a task of the session is sent to: by user number once the user is known, by the
  session otherwise.\<close>

definition sess_worker :: "session \<Rightarrow> bool \<times> i64" where
  "sess_worker s =
     (if uidInt s \<noteq> 0 then (True, uidInt s)
      else (False, if IsFrontend s then sess_id s
                   else FrontendSessHash (frontendID s) (frontendSessionID s)))"

section \<open>The encoded copy\<close>

text \<open>
  The encoded copy of the data is what is sent to other servers. It is in step with the data when it
  is the encoding of the data, or when both are still as in a new session.
\<close>

definition encoded_ok :: "json \<Rightarrow> session \<Rightarrow> bool" where
  "encoded_ok j s \<longleftrightarrow>
     EncodeSessionData j (data s) = Inr (encodedData s) \<or>
     (data s = Some Map.empty \<and> encodedData s = [])"

lemma updateEncodedData_ok:
  "updateEncodedData j s = (s', None) \<Longrightarrow> encoded_ok j s' \<and> data s' = data s"
  by (auto simp: updateEncodedData_def encoded_ok_def split: sum.splits)

text \<open>The operations on the data store.\<close>

datatype data_op = OpSet string goval | OpRemove string | OpSetData "goval gomap" | OpSetEncoded "byte list"

fun exec_data_op :: "json \<Rightarrow> data_op \<Rightarrow> session \<Rightarrow> (session \<times> goerr option) option" where
  "exec_data_op j (OpSet key v) s = sess_Set j key v s"
| "exec_data_op j (OpRemove key) s = Some (sess_Remove j key s)"
| "exec_data_op j (OpSetData d) s = Some (SetData j d s)"
| "exec_data_op j (OpSetEncoded b) s = Some (SetDataEncoded j b s)"

text \<open>
  C14. The encoded copy of the session data stays in step with the data. Every operation on the data
  store that reports success leaves the encoded copy the encoding of the data, so that what is sent
  to the frontend or written to the cache is what the session holds.
\<close>

theorem session_encoded_in_step:
  assumes "encoded_ok j s" and "exec_data_op j op s = Some (s', None)"
  shows "encoded_ok j s'"
proof (cases op)
  case (OpSet key v)
  then show ?thesis using assms(2) updateEncodedData_ok by (auto simp: sess_Set_def)
next
  case (OpRemove key)
  then show ?thesis using assms(2) updateEncodedData_ok by (auto simp: sess_Remove_def)
next
  case (OpSetData d)
  then show ?thesis using assms(2) updateEncodedData_ok by (auto simp: SetData_def)
next
  case (OpSetEncoded b)
  then show ?thesis
    using assms updateEncodedData_ok
    by (auto simp: SetDataEncoded_def SetData_def split: if_splits sum.splits)
qed

text \<open>A new session, as \<open>NewSession\<close> builds it.\<close>

definition new_session :: "i64 \<Rightarrow> nat \<Rightarrow> i64 \<Rightarrow> bool \<Rightarrow> session" where
  "new_session ident ent now frontend =
     \<lparr>sess_id = ident, uid = [], uidInt = 0, lastTime = now, entity = ent, data = Some Map.empty,
      handshakeData = None, encodedData = [], OnCloseCallbacks = [], IsFrontend = frontend,
      frontendID = [], frontendSessionID = 0, online = True, backends = Some Map.empty, sess_ip = [],
      Subscriptions = [], requestsInFlight = Map.empty\<rparr>"

lemma session_encoded_in_step_witness:
  "encoded_ok json_example ((new_session 1 0 0 True)\<lparr>data := Some [''k'' \<mapsto> GString ''v''], encodedData := [1]\<rparr>)"
proof (rule session_encoded_in_step)
  show "encoded_ok json_example (new_session 1 0 0 True)"
    by (simp add: encoded_ok_def new_session_def)
  show "exec_data_op json_example (OpSet ''k'' (GString ''v'')) (new_session 1 0 0 True) =
      Some ((new_session 1 0 0 True)\<lparr>data := Some [''k'' \<mapsto> GString ''v''], encodedData := [1]\<rparr>, None)"
    by (simp add: sess_Set_def new_session_def updateEncodedData_def EncodeSessionData_def json_example_def)
qed

section \<open>Reading what was set\<close>

lemmas readers = sess_Int_def sess_Int8_def sess_Int16_def sess_Int32_def sess_Int64_def sess_Uint_def sess_Uint8_def sess_Uint16_def sess_Uint32_def sess_Uint64_def sess_Float32_def sess_Float64_def sess_String_def

lemma updateEncodedData_data [simp]: "data (fst (updateEncodedData j s)) = data s"
  by (simp add: updateEncodedData_def split: sum.splits)

text \<open>
  A value that is set under a key is read back under it, also when its encoding failed. Each typed
  reader returns it exactly when it has the reader's own type, and the zero value otherwise, without
  any conversion between the types. The other keys read as before.
\<close>

theorem session_set_read:
  assumes "sess_Set j key v s = Some (s', e)"
  shows "sess_Get s' key = v \<and>
    sess_Int s' key = (case v of GInt n \<Rightarrow> n | _ \<Rightarrow> 0) \<and>
    sess_Int64 s' key = (case v of GInt64 n \<Rightarrow> n | _ \<Rightarrow> 0) \<and>
    sess_Uint32 s' key = (case v of GUint32 n \<Rightarrow> n | _ \<Rightarrow> 0) \<and>
    sess_Float64 s' key = (case v of GFloat64 n \<Rightarrow> n | _ \<Rightarrow> 0) \<and>
    sess_String s' key = (case v of GString x \<Rightarrow> x | _ \<Rightarrow> []) \<and>
    (\<forall>k. k \<noteq> key \<longrightarrow> sess_Get s' k = sess_Get s k)"
proof -
  obtain f where f: "data s = Some f" using assms by (cases "data s") (auto simp: sess_Set_def)
  then have "s' = fst (updateEncodedData j (s\<lparr>data := Some (f(key \<mapsto> v))\<rparr>))"
    using assms by (auto simp: sess_Set_def)
  then have "data s' = Some (f(key \<mapsto> v))" by simp
  with f show ?thesis by (simp add: readers sess_Get_def)
qed

lemma session_set_read_witness:
  "\<exists>s' e. sess_Set json_example ''k'' (GInt 5) (new_session 1 0 0 True) = Some (s', e) \<and>
     sess_Int s' ''k'' = 5 \<and> sess_Int64 s' ''k'' = 0"
proof -
  obtain s' e where set: "sess_Set json_example ''k'' (GInt 5) (new_session 1 0 0 True) = Some (s', e)"
    by (cases "updateEncodedData json_example ((new_session 1 0 0 True)\<lparr>data := Some [''k'' \<mapsto> GInt 5]\<rparr>)")
      (auto simp: sess_Set_def new_session_def)
  from set session_set_read [OF set] show ?thesis by simp
qed

text \<open>
  Numbers do not survive the way through another server or the cache. The data arrives encoded,
  and the decoder makes every number a \<open>float64\<close>; all the readers for integers and the one for
  \<open>float32\<close> then return zero for every key, whatever number was set.
\<close>

theorem session_numbers_lost:
  assumes "json_decodes_values j" and "b \<noteq> []" and "SetDataEncoded j b s = (s', None)"
  shows "sess_Int s' key = 0 \<and> sess_Int8 s' key = 0 \<and> sess_Int16 s' key = 0 \<and> sess_Int32 s' key = 0
    \<and> sess_Int64 s' key = 0 \<and> sess_Uint s' key = 0 \<and> sess_Uint8 s' key = 0
    \<and> sess_Uint16 s' key = 0 \<and> sess_Uint32 s' key = 0 \<and> sess_Uint64 s' key = 0
    \<and> sess_Float32 s' key = 0"
proof -
  obtain m where m: "json_Unmarshal j b = Inr m" "data s' = Some (map_get m)"
    using assms(2,3) updateEncodedData_data [of j "s\<lparr>data := Some (map_get _)\<rparr>"]
    by (auto simp: SetDataEncoded_def DecodeSessionData_def SetData_def split: sum.splits
        dest!: updateEncodedData_ok)
  have "json_value v" if "map_get m key = Some v" for v
    using assms(1) m(1) that by (auto simp: json_decodes_values_def)
  then show ?thesis
    by (auto simp: readers m(2) split: option.splits goval.splits)
qed

lemma session_numbers_lost_witness:
  "\<exists>s1 s2. sess_Set json_example ''k'' (GInt 5) (new_session 1 0 0 True) = Some (s1, None) \<and>
     sess_Int s1 ''k'' = 5 \<and>
     SetDataEncoded json_example (GetDataEncoded s1) (new_session 2 0 0 False) = (s2, None) \<and>
     sess_Int s2 ''k'' = 0"
proof -
  define s1 where "s1 = (new_session 1 0 0 True)\<lparr>data := Some [''k'' \<mapsto> GInt 5], encodedData := [3]\<rparr>"
  define s2 where "s2 = (new_session 2 0 0 False)
    \<lparr>data := Some [''k'' \<mapsto> GFloat64 0x4014000000000000], encodedData := [3]\<rparr>"
  have "sess_Set json_example ''k'' (GInt 5) (new_session 1 0 0 True) = Some (s1, None)"
    "sess_Int s1 ''k'' = 5"
    by (simp_all add: s1_def sess_Set_def sess_Int_def new_session_def updateEncodedData_def
        EncodeSessionData_def json_example_def)
  moreover have set: "SetDataEncoded json_example [3] (new_session 2 0 0 False) = (s2, None)"
    by (simp add: s2_def SetDataEncoded_def DecodeSessionData_def SetData_def updateEncodedData_def
        EncodeSessionData_def json_example_def new_session_def)
  moreover have "sess_Int s2 ''k'' = 0"
    using session_numbers_lost [OF json_example_values _ set, of "''k''"] by simp
  ultimately show ?thesis by (auto simp: GetDataEncoded_def s1_def)
qed

end
