(* ===== verification/Session_Cluster.thy ===== *)
theory Session_Cluster
  imports Session
begin

text \<open>
  The exchange of session data through the cluster's cache: the \<open>Flush\<close> operations, \<open>ObtainFromCluster\<close>
  and \<open>InitialFromCluster\<close> of \<open>session/session.go\<close>. The cache behind \<open>CacheInterface\<close> is a
  parameter with the laws of a store of hashes. What one server has flushed is what another server
  obtains, whatever the order in which it visits the fields; a session whose data was never set
  is obtained with a nil map.
\<close>

section \<open>The cache\<close>

record 'c cache =
  cache_Hset :: "string \<Rightarrow> string \<Rightarrow> string \<Rightarrow> 'c \<Rightarrow> 'c \<times> goerr option"
  cache_Hmset :: "string \<Rightarrow> (string \<rightharpoonup> string) \<Rightarrow> 'c \<Rightarrow> 'c \<times> goerr option"
  cache_Hgetall :: "string \<Rightarrow> 'c \<Rightarrow> (string \<rightharpoonup> string) res"

text \<open>The fields of a session in the cache.\<close>

abbreviation fieldKeyFrontendID :: string where "fieldKeyFrontendID \<equiv> ''f''"
abbreviation fieldKeyFrontendSessID :: string where "fieldKeyFrontendSessID \<equiv> ''s''"
abbreviation fieldKeyOnline :: string where "fieldKeyOnline \<equiv> ''o''"
abbreviation fieldKeyBackends :: string where "fieldKeyBackends \<equiv> ''bs''"
abbreviation fieldKeyIP :: string where "fieldKeyIP \<equiv> ''ip''"
abbreviation fieldKeyData :: string where "fieldKeyData \<equiv> ''u''"

abbreviation sql_ErrNoRows :: goerr where
  "sql_ErrNoRows \<equiv> ErrExternal ''sql: no rows in result set''"

definition getSessionStorageKey :: "string \<Rightarrow> string" where
  "getSessionStorageKey u = ''pit:u:'' @ u @ '':''"

definition ClusterStorageKey :: "session \<Rightarrow> string" where
  "ClusterStorageKey s = (if uid s = [] then [] else getSessionStorageKey (uid s))"

section \<open>Writing\<close>

definition online_text :: "session \<Rightarrow> string" where
  "online_text s = (if online s then ''1'' else ''0'')"

definition FlushFrontendData :: "'c cache \<Rightarrow> session \<Rightarrow> 'c \<Rightarrow> 'c \<times> goerr option" where
  "FlushFrontendData c s st =
     (if uid s = [] then (st, Some ErrIllegalUID)
      else cache_Hmset c (ClusterStorageKey s)
             [fieldKeyOnline \<mapsto> online_text s,
              fieldKeyFrontendID \<mapsto> frontendID s,
              fieldKeyFrontendSessID \<mapsto> FormatInt (frontendSessionID s),
              fieldKeyIP \<mapsto> sess_ip s,
              fieldKeyData \<mapsto> bytes_str (encodedData s)] st)"

definition FlushOnline :: "'c cache \<Rightarrow> session \<Rightarrow> 'c \<Rightarrow> 'c \<times> goerr option" where
  "FlushOnline c s st =
     (if uid s = [] then (st, Some ErrIllegalUID)
      else cache_Hset c (ClusterStorageKey s) fieldKeyOnline (online_text s) st)"

definition FlushBackendData :: "json \<Rightarrow> 'c cache \<Rightarrow> session \<Rightarrow> 'c \<Rightarrow> 'c \<times> goerr option" where
  "FlushBackendData j c s st =
     (if uid s = [] then (st, Some ErrIllegalUID)
      else (case json_MarshalStrings j (backends s) of
              Inl e \<Rightarrow> (st, Some e)
            | Inr b \<Rightarrow> cache_Hset c (ClusterStorageKey s) fieldKeyBackends (bytes_str b) st))"

definition FlushUserData :: "'c cache \<Rightarrow> session \<Rightarrow> 'c \<Rightarrow> 'c \<times> goerr option" where
  "FlushUserData c s st =
     (if uid s = [] then (st, Some ErrIllegalUID)
      else cache_Hset c (ClusterStorageKey s) fieldKeyData (bytes_str (encodedData s)) st)"

section \<open>Reading\<close>

text \<open>What one field does to the session, with the error that ends the loop.\<close>

definition obtain_backends :: "json \<Rightarrow> string \<Rightarrow> session \<Rightarrow> session \<times> goerr option" where
  "obtain_backends j v s =
     (case DecodeSessionData j (str_bytes v) of
        Inl e \<Rightarrow> (s, Some e)
      | Inr bsData \<Rightarrow> (SetBackends (Some (MapStrInter2MapStrStr bsData)) s, None))"

definition obtain_data :: "json \<Rightarrow> string \<Rightarrow> session \<Rightarrow> session \<times> goerr option" where
  "obtain_data j v s =
     (case DecodeSessionData j (str_bytes v) of
        Inl e \<Rightarrow> (s, Some e)
      | Inr d \<Rightarrow> updateEncodedData j (s\<lparr>data := d\<rparr>))"

definition obtain_field :: "json \<Rightarrow> string \<Rightarrow> string \<Rightarrow> session \<Rightarrow> session \<times> goerr option" where
  "obtain_field j field v s =
     (if field = fieldKeyFrontendID then (s\<lparr>frontendID := v\<rparr>, None)
      else if field = fieldKeyFrontendSessID then (s\<lparr>frontendSessionID := fst (ParseInt v)\<rparr>, None)
      else if field = fieldKeyBackends then obtain_backends j v s
      else if field = fieldKeyData then obtain_data j v s
      else if field = fieldKeyIP then (s\<lparr>sess_ip := v\<rparr>, None)
      else if field = fieldKeyOnline then (s\<lparr>online := (v = ''1'')\<rparr>, None)
      else (s, None))"

definition initial_field :: "json \<Rightarrow> string \<Rightarrow> string \<Rightarrow> session \<Rightarrow> session \<times> goerr option" where
  "initial_field j field v s =
     (if field = fieldKeyBackends then obtain_backends j v s
      else if field = fieldKeyData then obtain_data j v s
      else (s, None))"

text \<open>The range loop over the hash, in the order \<open>ks\<close> of its fields.\<close>

fun each_field ::
  "(string \<Rightarrow> string \<Rightarrow> session \<Rightarrow> session \<times> goerr option) \<Rightarrow> (string \<rightharpoonup> string) \<Rightarrow> string list
     \<Rightarrow> session \<Rightarrow> session \<times> goerr option" where
  "each_field f h [] s = (s, None)"
| "each_field f h (k # ks) s =
     (case f k (the (h k)) s of
        (s', Some e) \<Rightarrow> (s', Some e)
      | (s', None) \<Rightarrow> each_field f h ks s')"

definition sess_reset :: "session \<Rightarrow> session" where
  "sess_reset s = s\<lparr>online := False\<rparr>"

definition ObtainFromCluster ::
  "json \<Rightarrow> 'c cache \<Rightarrow> string list \<Rightarrow> 'c \<Rightarrow> session \<Rightarrow> session \<times> goerr option" where
  "ObtainFromCluster j c ks st s =
     (let s = sess_reset s in
      case cache_Hgetall c (ClusterStorageKey s) st of
        Inl e \<Rightarrow> (s, Some (if e = sql_ErrNoRows then ErrSessionNotFound else e))
      | Inr h \<Rightarrow>
          if h = Map.empty then (s, Some ErrSessionNotFound)
          else each_field (obtain_field j) h ks s)"

definition InitialFromCluster ::
  "json \<Rightarrow> 'c cache \<Rightarrow> string list \<Rightarrow> 'c \<Rightarrow> session \<Rightarrow> session \<times> goerr option" where
  "InitialFromCluster j c ks st s =
     (case cache_Hgetall c (ClusterStorageKey s) st of
        Inl e \<Rightarrow> if e \<noteq> sql_ErrNoRows then (s, Some e) else (s, None)
      | Inr h \<Rightarrow> each_field (initial_field j) h ks s)"

section \<open>What the sessions rely on\<close>

text \<open>
  The laws of the cache: \<open>h\<close> reads the hashes of a state. A write that reports success has set its
  fields and nothing else, and reading returns the fields of the key. JSON reads a map of strings
  back as it was written.
\<close>

definition cache_laws :: "'c cache \<Rightarrow> ('c \<Rightarrow> string \<Rightarrow> string \<rightharpoonup> string) \<Rightarrow> bool" where
  "cache_laws c h \<longleftrightarrow>
     (\<forall>k f v st st'. cache_Hset c k f v st = (st', None) \<longrightarrow> h st' = (h st)(k := (h st k)(f \<mapsto> v))) \<and>
     (\<forall>k m st st'. cache_Hmset c k m st = (st', None) \<longrightarrow> h st' = (h st)(k := h st k ++ m)) \<and>
     (\<forall>k st. cache_Hgetall c k st = Inr (h st k))"

definition json_strings_ok :: "json \<Rightarrow> bool" where
  "json_strings_ok j \<longleftrightarrow>
     (\<forall>m b. json_MarshalStrings j m = Inr b \<longrightarrow>
        b \<noteq> [] \<and> json_Unmarshal j b = Inr (map_option (\<lambda>f k. map_option GString (f k)) m))"

lemma cache_lawsD:
  assumes "cache_laws c h"
  shows "cache_Hset c k f v st = (st', None) \<Longrightarrow> h st' = (h st)(k := (h st k)(f \<mapsto> v))"
    and "cache_Hmset c k m st = (st', None) \<Longrightarrow> h st' = (h st)(k := h st k ++ m)"
    and "cache_Hgetall c k st = Inr (h st k)"
  using assms unfolding cache_laws_def by blast+

section \<open>The loop over the fields\<close>

text \<open>
  A part of the session that only one field sets ends with what that field holds, wherever the loop
  visits it.
\<close>

lemma each_field_part:
  assumes "\<And>k v s s'. f k v s = (s', None) \<Longrightarrow> k \<noteq> key \<Longrightarrow> part s' = part s"
    and "\<And>v s s'. f key v s = (s', None) \<Longrightarrow> part s' = g v"
    and "each_field f h ks s = (s', None)"
  shows "part s' = (if key \<in> set ks then g (the (h key)) else part s)"
  using assms(3)
proof (induction ks arbitrary: s)
  case (Cons k ks)
  then obtain s1 where s1: "f k (the (h k)) s = (s1, None)" "each_field f h ks s1 = (s', None)"
    by (auto split: prod.splits option.splits)
  then show ?case
    using Cons.IH [OF s1(2)] assms(1) [OF s1(1)] assms(2) by (cases "k = key") auto
qed simp

lemma each_field_succeeds:
  assumes "\<And>k s. k \<in> set ks \<Longrightarrow> snd (f k (the (h k)) s) = None"
  shows "\<exists>s'. each_field f h ks s = (s', None)"
  using assms
proof (induction ks arbitrary: s)
  case (Cons k ks)
  obtain s1 where "f k (the (h k)) s = (s1, None)"
    using Cons.prems [of k s] by (cases "f k (the (h k)) s") auto
  with Cons show ?case by simp
qed simp

lemma updateEncodedData_parts:
  "updateEncodedData j s = (s', e) \<Longrightarrow> frontendID s' = frontendID s"
  "updateEncodedData j s = (s', e) \<Longrightarrow> frontendSessionID s' = frontendSessionID s"
  "updateEncodedData j s = (s', e) \<Longrightarrow> online s' = online s"
  "updateEncodedData j s = (s', e) \<Longrightarrow> backends s' = backends s"
  "updateEncodedData j s = (s', e) \<Longrightarrow> sess_ip s' = sess_ip s"
  "updateEncodedData j s = (s', e) \<Longrightarrow> data s' = data s"
  by (auto simp: updateEncodedData_def split: sum.splits)

definition decoded_or :: "json \<Rightarrow> string \<Rightarrow> goval gomap" where
  "decoded_or j v = (case DecodeSessionData j (str_bytes v) of Inr d \<Rightarrow> d | Inl e \<Rightarrow> None)"

lemmas obtain_defs = obtain_field_def obtain_backends_def obtain_data_def decoded_or_def SetBackends_def

lemma obtained_parts:
  assumes "each_field (obtain_field j) h ks s = (s', None)"
  shows "frontendID s' = (if fieldKeyFrontendID \<in> set ks then the (h fieldKeyFrontendID) else frontendID s)"
    and "frontendSessionID s' = (if fieldKeyFrontendSessID \<in> set ks
      then fst (ParseInt (the (h fieldKeyFrontendSessID))) else frontendSessionID s)"
    and "sess_ip s' = (if fieldKeyIP \<in> set ks then the (h fieldKeyIP) else sess_ip s)"
    and "online s' = (if fieldKeyOnline \<in> set ks then the (h fieldKeyOnline) = ''1'' else online s)"
    and "backends s' = (if fieldKeyBackends \<in> set ks
      then Some (MapStrInter2MapStrStr (decoded_or j (the (h fieldKeyBackends)))) else backends s)"
    and "data s' = (if fieldKeyData \<in> set ks then decoded_or j (the (h fieldKeyData)) else data s)"
  by (rule each_field_part [OF _ _ assms];
      auto simp: obtain_defs dest: updateEncodedData_parts split: if_splits sum.splits)+

text \<open>
  C15. What one server flushes to the cache another server obtains. After \<open>FlushFrontendData\<close> and
  \<open>FlushBackendData\<close> have succeeded for a session with data, \<open>ObtainFromCluster\<close> of any session of
  the same user succeeds, in whatever order it visits the fields, and reads the frontend, the
  session id there (for all of its 64 bits), the address, the online mark, the backends and the data
  as JSON decodes it.
\<close>

theorem cluster_roundtrip:
  assumes "cache_laws c h" and "json_strings_ok j"
    and "uid r = uid s"
    and "FlushFrontendData c s st = (st1, None)" and "FlushBackendData j c s st1 = (st2, None)"
    and "encodedData s \<noteq> []" and "json_Unmarshal j (encodedData s) = Inr d" and "json_Marshal j d = Inr b"
    and "enumerates ks (h st2 (ClusterStorageKey r))"
  shows "\<exists>r'. ObtainFromCluster j c ks st2 r = (r', None) \<and>
    frontendID r' = frontendID s \<and> frontendSessionID r' = frontendSessionID s \<and>
    sess_ip r' = sess_ip s \<and> online r' = online s \<and> backends r' = Some (GetBackends s) \<and> data r' = d"
proof -
  let ?key = "ClusterStorageKey s"
  have u: "uid s \<noteq> []" using assms(4) by (auto simp: FlushFrontendData_def split: if_splits)
  have key: "ClusterStorageKey r = ?key" by (simp add: ClusterStorageKey_def assms(3))
  obtain bs where bs: "json_MarshalStrings j (backends s) = Inr bs"
    using assms(5) u by (auto simp: FlushBackendData_def split: sum.splits)
  have bs': "bs \<noteq> []" "json_Unmarshal j bs = Inr (map_option (\<lambda>f k. map_option GString (f k)) (backends s))"
    using assms(2) bs by (auto simp: json_strings_ok_def)
  define hh where "hh = h st2 ?key"
  have hh: "hh fieldKeyOnline = Some (online_text s)" "hh fieldKeyFrontendID = Some (frontendID s)"
    "hh fieldKeyFrontendSessID = Some (FormatInt (frontendSessionID s))"
    "hh fieldKeyIP = Some (sess_ip s)" "hh fieldKeyData = Some (bytes_str (encodedData s))"
    "hh fieldKeyBackends = Some (bytes_str bs)"
    using cache_lawsD(2) [OF assms(1)] cache_lawsD(1) [OF assms(1)] assms(4,5) u bs
    by (auto simp: hh_def FlushFrontendData_def FlushBackendData_def)
  have ks: "k \<in> set ks \<longleftrightarrow> hh k \<noteq> None" for k
    using assms(9) by (auto simp: hh_def key dest!: enumeratesD(2))
  have "snd (obtain_field j k (the (hh k)) x) = None" for k x
    using hh bs' assms(6-8)
    by (auto simp: obtain_defs DecodeSessionData_def updateEncodedData_def EncodeSessionData_def)
  then obtain r' where r': "each_field (obtain_field j) hh ks (sess_reset r) = (r', None)"
    using each_field_succeeds [of ks "obtain_field j" hh] by blast
  have "MapStrInter2MapStrStr (map_option (\<lambda>f k. map_option GString (f k)) (backends s)) = GetBackends s"
    by (cases "backends s") (auto simp: MapStrInter2MapStrStr_def GetBackends_def fun_eq_iff split: option.splits)
  then have "backends r' = Some (GetBackends s)"
    using obtained_parts(5) [OF r'] ks hh bs' by (simp add: decoded_or_def DecodeSessionData_def)
  moreover have "hh \<noteq> Map.empty" using hh(1) by auto
  then have "ObtainFromCluster j c ks st2 r = (r', None)"
    using r' by (simp add: ObtainFromCluster_def cache_lawsD(3) [OF assms(1)] hh_def Let_def
        sess_reset_def ClusterStorageKey_def assms(3) u)
  ultimately show ?thesis
    using obtained_parts(1-4,6) [OF r'] ks hh assms(6,7)
    by (auto simp: decoded_or_def DecodeSessionData_def online_text_def)
qed

text \<open>A cache that keeps the laws.\<close>

definition cache_example :: "(string \<Rightarrow> string \<rightharpoonup> string) cache" where
  "cache_example =
     \<lparr>cache_Hset = (\<lambda>k f v st. (st(k := (st k)(f \<mapsto> v)), None)),
      cache_Hmset = (\<lambda>k m st. (st(k := st k ++ m), None)),
      cache_Hgetall = (\<lambda>k st. Inr (st k))\<rparr>"

lemma cache_example_laws: "cache_laws cache_example (\<lambda>st. st)"
  by (simp add: cache_laws_def cache_example_def)

lemma json_example_strings: "json_strings_ok json_example"
  unfolding json_strings_ok_def
proof (intro allI impI)
  fix m b
  assume b: "json_MarshalStrings json_example m = Inr b"
  show "b \<noteq> [] \<and> json_Unmarshal json_example b = Inr (map_option (\<lambda>f k. map_option GString (f k)) m)"
  proof (cases "m = Some [''k'' \<mapsto> ''v'']")
    case True
    with b show ?thesis by (auto simp: json_example_def fun_eq_iff)
  next
    case False
    with b have "m = Some Map.empty \<and> b = [2] \<or> m = None \<and> b = [0]" by (auto simp: json_example_def split: if_splits)
    then show ?thesis by (auto simp: json_example_def)
  qed
qed

lemma cluster_roundtrip_witness:
  "\<exists>st r'. ObtainFromCluster json_example cache_example [''u'', ''s'', ''bs'', ''o'', ''f'', ''ip''] st
      ((new_session 2 0 0 False)\<lparr>uid := ''7''\<rparr>) = (r', None) \<and>
    frontendID r' = ''front'' \<and> frontendSessionID r' = 9 \<and> backends r' = Some [''k'' \<mapsto> ''v'']"
proof -
  define s where "s = (new_session 9 0 0 True)\<lparr>uid := ''7'', frontendID := ''front'', frontendSessionID := 9,
    data := Some [''k'' \<mapsto> GString ''v''], encodedData := [1], backends := Some [''k'' \<mapsto> ''v'']\<rparr>"
  define r where "r = (new_session 2 0 0 False)\<lparr>uid := ''7''\<rparr>"
  obtain st1 where st1: "FlushFrontendData cache_example s (\<lambda>_. Map.empty) = (st1, None)"
    by (simp add: FlushFrontendData_def s_def cache_example_def)
  obtain st2 where st2: "FlushBackendData json_example cache_example s st1 = (st2, None)"
    by (simp add: FlushBackendData_def s_def cache_example_def json_example_def)
  have u: "uid r = uid s" by (simp add: s_def r_def)
  have ks: "enumerates [''u'', ''s'', ''bs'', ''o'', ''f'', ''ip''] (st2 (ClusterStorageKey r))"
    using st1 st2
    by (auto simp: enumerates_def FlushFrontendData_def FlushBackendData_def s_def r_def
        cache_example_def json_example_def ClusterStorageKey_def split: if_splits)
  have "\<exists>r'. ObtainFromCluster json_example cache_example [''u'', ''s'', ''bs'', ''o'', ''f'', ''ip''] st2 r = (r', None) \<and>
      frontendID r' = frontendID s \<and> frontendSessionID r' = frontendSessionID s \<and>
      sess_ip r' = sess_ip s \<and> online r' = online s \<and> backends r' = Some (GetBackends s) \<and>
      data r' = Some [''k'' \<mapsto> GString ''v'']"
    by (rule cluster_roundtrip [OF cache_example_laws json_example_strings u st1 st2, where b = "[1]"])
      (simp_all add: s_def json_example_def ks)
  then show ?thesis by (auto simp: s_def r_def GetBackends_def)
qed

text \<open>
  A session whose data was never set comes back from the cache with a nil map. \<open>FlushFrontendData\<close>
  writes its empty encoding, \<open>ObtainFromCluster\<close> decodes no bytes to the nil map, and the next
  \<open>Set\<close> on the session panics, although the flush and the obtain both succeeded.
\<close>

theorem cluster_empty_data_panics:
  assumes "cache_laws c h" and "json_Marshal j None = Inr b0"
    and "uid r = uid s" and "encodedData s = []"
    and "FlushFrontendData c s st = (st1, None)"
    and "h st (ClusterStorageKey s) fieldKeyBackends = None"
    and "enumerates ks (h st1 (ClusterStorageKey r))"
  shows "\<exists>r'. ObtainFromCluster j c ks st1 r = (r', None) \<and> data r' = None \<and>
    sess_Set j key v r' = None"
proof -
  let ?key = "ClusterStorageKey s"
  have u: "uid s \<noteq> []" using assms(5) by (auto simp: FlushFrontendData_def split: if_splits)
  have key: "ClusterStorageKey r = ?key" by (simp add: ClusterStorageKey_def assms(3))
  define hh where "hh = h st1 ?key"
  have hh: "hh fieldKeyData = Some []" "hh fieldKeyBackends = None"
    using cache_lawsD(2) [OF assms(1)] assms(4-6) u
    by (auto simp: hh_def FlushFrontendData_def bytes_str_def)
  have ks: "k \<in> set ks \<longleftrightarrow> hh k \<noteq> None" for k
    using assms(7) by (auto simp: hh_def key dest!: enumeratesD(2))
  have "snd (obtain_field j k (the (hh k)) x) = None" if "k \<in> set ks" for k x
    using that hh ks assms(2)
    by (auto simp: obtain_defs DecodeSessionData_def updateEncodedData_def EncodeSessionData_def str_bytes_def)
  then obtain r' where r': "each_field (obtain_field j) hh ks (sess_reset r) = (r', None)"
    using each_field_succeeds [of ks "obtain_field j" hh] by blast
  have "data r' = None"
    using obtained_parts(6) [OF r'] ks hh by (simp add: decoded_or_def DecodeSessionData_def str_bytes_def)
  moreover have "hh \<noteq> Map.empty" using hh(1) by auto
  then have "ObtainFromCluster j c ks st1 r = (r', None)"
    using r' by (simp add: ObtainFromCluster_def cache_lawsD(3) [OF assms(1)] hh_def Let_def
        sess_reset_def ClusterStorageKey_def assms(3) u)
  ultimately show ?thesis by (simp add: sess_Set_def)
qed

lemma cluster_empty_data_panics_witness:
  "\<exists>st r'. ObtainFromCluster json_example cache_example [''u'', ''s'', ''o'', ''f'', ''ip''] st
      ((new_session 2 0 0 False)\<lparr>uid := ''7''\<rparr>) = (r', None) \<and>
    sess_Set json_example ''k'' (GInt 5) r' = None"
proof -
  define s where "s = (new_session 9 0 0 True)\<lparr>uid := ''7''\<rparr>"
  define r where "r = (new_session 2 0 0 False)\<lparr>uid := ''7''\<rparr>"
  obtain st1 where st1: "FlushFrontendData cache_example s (\<lambda>_. Map.empty) = (st1, None)"
    by (simp add: FlushFrontendData_def s_def cache_example_def)
  have u: "uid r = uid s" by (simp add: s_def r_def)
  have ks: "enumerates [''u'', ''s'', ''o'', ''f'', ''ip''] (st1 (ClusterStorageKey r))"
    using st1 by (auto simp: enumerates_def FlushFrontendData_def s_def r_def cache_example_def
        ClusterStorageKey_def split: if_splits)
  have "\<exists>r'. ObtainFromCluster json_example cache_example [''u'', ''s'', ''o'', ''f'', ''ip''] st1 r = (r', None) \<and>
      data r' = None \<and> sess_Set json_example ''k'' (GInt 5) r' = None"
    by (rule cluster_empty_data_panics [OF cache_example_laws _ u _ st1, where ?b0.0 = "[0]"])
      (simp_all add: ks, simp_all add: s_def new_session_def json_example_def)
  then show ?thesis by (auto simp: r_def)
qed

end
