(* ===== verification/Session_Pool.thy ===== *)
theory Session_Pool
  imports Session_Cluster
begin

text \<open>
  The session pool of \<open>session/session.go\<close>: creating, storing and looking up sessions, binding a user
  and a backend, kicking and closing. The sessions live in a heap of addresses, the two \<open>sync.Map\<close>
  tables of the pool lead to them by user and by id, and two atomic counters count them. The
  callbacks, the network entity behind a session and the NATS subscriptions are parameters that act on
  the pool. The tables and counters agree as long as every session is bound once and closed
  once; the code does close sessions twice, and what this does to the tables is proved too.
\<close>

section \<open>The pool\<close>

type_synonym cbk = "string gomap"

record 'c pool =
  heap :: "nat \<Rightarrow> session"
  heap_next :: nat
  sessionsByUID :: "string \<rightharpoonup> nat"
  sessionsByID :: "i64 \<rightharpoonup> nat"
  SessionCount :: i64
  UserCount :: i64
  sid :: i64
  sessionBindCallbacks :: "nat list"
  afterBindCallbacks :: "nat list"
  SessionCloseCallbacks :: "nat list"
  bindBackendCallbacks :: "nat list"
  kickBackendCallbacks :: "nat list"
  afterBindBackendCallbacks :: "nat list"
  afterKickBackendCallbacks :: "nat list"
  handshakeValidators :: "string \<rightharpoonup> nat"
  storage :: 'c

text \<open>The messages that are sent to a frontend, before \<open>proto.Marshal\<close>.\<close>

datatype proto_msg =
    BindMsg string string i64 cbk "byte list"
  | SessionMsg i64 string "byte list"
  | KickMsg string cbk i64
  | BindBackendMsg string string string cbk

text \<open>
  What the pool calls: callbacks by their code pointer, the entity of a session (\<open>Agent\<close> or
  \<open>Remote\<close>), the subscriptions, JSON, the cache and \<open>proto.Marshal\<close>. The function \<open>fields_order\<close>
  is the order in which a range loop visits a hash of the cache.
\<close>

record 'c pool_env =
  pe_json :: json
  pe_cache :: "'c cache"
  fields_order :: "(string \<rightharpoonup> string) \<Rightarrow> string list"
  proto_Marshal :: "proto_msg \<Rightarrow> byte list res"
  on_bind :: "nat \<Rightarrow> nat \<Rightarrow> cbk \<Rightarrow> 'c pool \<Rightarrow> 'c pool \<times> goerr option"
  on_bind_backend :: "nat \<Rightarrow> nat \<Rightarrow> string \<Rightarrow> string \<Rightarrow> cbk \<Rightarrow> 'c pool \<Rightarrow> 'c pool \<times> goerr option"
  on_kick_backend :: "nat \<Rightarrow> nat \<Rightarrow> string \<Rightarrow> string \<Rightarrow> cbk \<Rightarrow> i64 \<Rightarrow> 'c pool \<Rightarrow> 'c pool \<times> goerr option"
  entity_Kick :: "nat \<Rightarrow> i64 list \<Rightarrow> 'c pool \<Rightarrow> 'c pool \<times> goerr option"
  entity_Close :: "nat \<Rightarrow> cbk \<Rightarrow> i64 list \<Rightarrow> 'c pool \<Rightarrow> 'c pool \<times> goerr option"
  entity_SendRequest :: "nat \<Rightarrow> string \<Rightarrow> string \<Rightarrow> byte list \<Rightarrow> 'c pool \<Rightarrow> 'c pool \<times> goerr option"
  sub_Drain :: "string \<Rightarrow> 'c pool \<Rightarrow> 'c pool"

abbreviation (input) CloseReasonNormal :: i64 where "CloseReasonNormal \<equiv> 0"
abbreviation (input) CloseReasonKickMin :: i64 where "CloseReasonKickMin \<equiv> 100"
abbreviation (input) CloseReasonKickRebind :: i64 where "CloseReasonKickRebind \<equiv> 101"

abbreviation SessionBindRoute :: string where "SessionBindRoute \<equiv> ''sys.bindsession''"
abbreviation SessionPushRoute :: string where "SessionPushRoute \<equiv> ''sys.pushsession''"

definition upd :: "nat \<Rightarrow> (session \<Rightarrow> session) \<Rightarrow> 'c pool \<Rightarrow> 'c pool" where
  "upd q f P = P\<lparr>heap := (heap P)(q := f (heap P q))\<rparr>"

definition NewSessionPool :: "'c \<Rightarrow> 'c pool" where
  "NewSessionPool st =
     \<lparr>heap = (\<lambda>_. new_session 0 0 0 False), heap_next = 0, sessionsByUID = Map.empty,
      sessionsByID = Map.empty, SessionCount = 0, UserCount = 0, sid = 0, sessionBindCallbacks = [],
      afterBindCallbacks = [], SessionCloseCallbacks = [], bindBackendCallbacks = [],
      kickBackendCallbacks = [], afterBindBackendCallbacks = [], afterKickBackendCallbacks = [],
      handshakeValidators = Map.empty, storage = st\<rparr>"

definition GetSessionByUID :: "'c pool \<Rightarrow> string \<Rightarrow> nat option" where
  "GetSessionByUID P u = sessionsByUID P u"

definition GetSessionByID :: "'c pool \<Rightarrow> i64 \<Rightarrow> nat option" where
  "GetSessionByID P i = sessionsByID P i"

definition GetSessionCount :: "'c pool \<Rightarrow> i64" where
  "GetSessionCount P = SessionCount P"

definition GetUserCount :: "'c pool \<Rightarrow> i64" where
  "GetUserCount P = UserCount P"

text \<open>Registering a callback: the same function is not added twice.\<close>

definition add_callback :: "nat \<Rightarrow> nat list \<Rightarrow> nat list" where
  "add_callback f fs = (if f \<in> set fs then fs else fs @ [f])"

definition OnSessionBind :: "nat \<Rightarrow> 'c pool \<Rightarrow> 'c pool" where
  "OnSessionBind f P = P\<lparr>sessionBindCallbacks := add_callback f (sessionBindCallbacks P)\<rparr>"

definition OnBindBackend :: "nat \<Rightarrow> 'c pool \<Rightarrow> 'c pool" where
  "OnBindBackend f P = P\<lparr>bindBackendCallbacks := add_callback f (bindBackendCallbacks P)\<rparr>"

definition OnAfterBindBackend :: "nat \<Rightarrow> 'c pool \<Rightarrow> 'c pool" where
  "OnAfterBindBackend f P = P\<lparr>afterBindBackendCallbacks := add_callback f (afterBindBackendCallbacks P)\<rparr>"

definition OnKickBackend :: "nat \<Rightarrow> 'c pool \<Rightarrow> 'c pool" where
  "OnKickBackend f P = P\<lparr>kickBackendCallbacks := add_callback f (kickBackendCallbacks P)\<rparr>"

definition OnAfterKickBackend :: "nat \<Rightarrow> 'c pool \<Rightarrow> 'c pool" where
  "OnAfterKickBackend f P = P\<lparr>afterKickBackendCallbacks := add_callback f (afterKickBackendCallbacks P)\<rparr>"

definition OnAfterSessionBind :: "nat \<Rightarrow> 'c pool \<Rightarrow> 'c pool" where
  "OnAfterSessionBind f P = P\<lparr>afterBindCallbacks := add_callback f (afterBindCallbacks P)\<rparr>"

definition OnSessionClose :: "nat \<Rightarrow> 'c pool \<Rightarrow> 'c pool" where
  "OnSessionClose f P = P\<lparr>SessionCloseCallbacks := add_callback f (SessionCloseCallbacks P)\<rparr>"

definition AddHandshakeValidator :: "string \<Rightarrow> nat \<Rightarrow> 'c pool \<Rightarrow> 'c pool" where
  "AddHandshakeValidator name f P = P\<lparr>handshakeValidators := (handshakeValidators P)(name \<mapsto> f)\<rparr>"

section \<open>Creating and storing sessions\<close>

text \<open>
  \<open>NewSession\<close> returns the address of the session, whether it is new, and the pool. The optional user
  id is a list of at most one element.
\<close>

definition NewSession :: "i64 \<Rightarrow> nat \<Rightarrow> bool \<Rightarrow> string list \<Rightarrow> 'c pool \<Rightarrow> nat \<times> bool \<times> 'c pool" where
  "NewSession now ent frontend UID P =
     (case (if UID = [] then None else GetSessionByUID P (hd UID)) of
        Some q \<Rightarrow> (q, False, P)
      | None \<Rightarrow>
          let ident = sid P + 1;
              q = heap_next P;
              s = new_session ident ent now frontend;
              P = P\<lparr>sid := ident, heap_next := q + 1\<rparr>;
              P = (if frontend
                   then P\<lparr>sessionsByID := (sessionsByID P)(ident \<mapsto> q), SessionCount := SessionCount P + 1\<rparr>
                   else P);
              s = (if UID = [] then s else s\<lparr>uid := hd UID, uidInt := ForceIdStrToInt (hd UID)\<rparr>)
          in (q, True, P\<lparr>heap := (heap P)(q := s)\<rparr>))"

definition StoreSessionLocal :: "nat \<Rightarrow> 'c pool \<Rightarrow> 'c pool \<times> goerr option" where
  "StoreSessionLocal q P =
     (let s = heap P q in
      if uid s = [] then (P, Some ErrEmptyUID)
      else
        let P = P\<lparr>sessionsByUID := (sessionsByUID P)(uid s \<mapsto> q), UserCount := UserCount P + 1\<rparr> in
        if sessionsByID P (sess_id s) \<noteq> None then (P, None)
        else (P\<lparr>sessionsByID := (sessionsByID P)(sess_id s \<mapsto> q), SessionCount := SessionCount P + 1\<rparr>, None))"

definition RemoveSessionLocal :: "nat \<Rightarrow> 'c pool \<Rightarrow> 'c pool" where
  "RemoveSessionLocal q P =
     (let s = heap P q;
          P = (if uid s \<noteq> []
               then P\<lparr>sessionsByUID := (sessionsByUID P)(uid s := None), UserCount := UserCount P - 1\<rparr> else P)
      in if sessionsByID P (sess_id s) = None then P
         else P\<lparr>SessionCount := SessionCount P - 1, sessionsByID := (sessionsByID P)(sess_id s := None)\<rparr>)"

section \<open>Closing\<close>

text \<open>What \<open>Close\<close> does to the tables, before it turns to the subscriptions and the entity.\<close>

definition close_tables :: "nat \<Rightarrow> 'c pool \<Rightarrow> 'c pool" where
  "close_tables q P =
     (let s = heap P q;
          P = P\<lparr>SessionCount := SessionCount P - 1\<rparr>;
          P = (if uid s \<noteq> []
               then P\<lparr>sessionsByUID := (sessionsByUID P)(uid s := None), UserCount := UserCount P - 1\<rparr> else P);
          P = upd q (online_update (\<lambda>_. False)) P;
          P = P\<lparr>sessionsByID := (sessionsByID P)(sess_id s := None)\<rparr>
      in (case sessionsByUID P (uid s) of
            Some v \<Rightarrow> if sess_id (heap P v) = sess_id s
                      then P\<lparr>sessionsByUID := (sessionsByUID P)(uid s := None)\<rparr> else P
          | None \<Rightarrow> P))"

definition sess_Close :: "'c pool_env \<Rightarrow> nat \<Rightarrow> cbk \<Rightarrow> i64 list \<Rightarrow> 'c pool \<Rightarrow> 'c pool" where
  "sess_Close env q callback reason P =
     (let s = heap P q;
          P = close_tables q P;
          P = (if IsFrontend s \<and> Subscriptions s \<noteq> [] then fold (sub_Drain env) (Subscriptions s) P else P)
      in fst (entity_Close env (entity s) callback reason P))"

definition sess_Kick :: "'c pool_env \<Rightarrow> nat \<Rightarrow> cbk \<Rightarrow> i64 list \<Rightarrow> 'c pool \<Rightarrow> 'c pool \<times> goerr option" where
  "sess_Kick env q callback reason P =
     (case entity_Kick env (entity (heap P q)) reason P of
        (P, Some e) \<Rightarrow> (P, Some e)
      | (P, None) \<Rightarrow>
          let P = upd q (online_update (\<lambda>_. False)) P
          in entity_Close env (entity (heap P q)) callback reason P)"

text \<open>
  One pass of \<open>CloseAll\<close> over the sessions, in the order \<open>ks\<close>; it ends at the first session that
  waits for a response. Between two passes the loop sleeps, and \<open>sleep\<close> is what the rest of the
  program does to the pool meanwhile. No pass left to run and sessions still counted is \<open>None\<close>: the loop is
  not over.
\<close>

fun close_range :: "'c pool_env \<Rightarrow> i64 list \<Rightarrow> 'c pool \<Rightarrow> 'c pool" where
  "close_range env [] P = P"
| "close_range env (k # ks) P =
     (case sessionsByID P k of
        None \<Rightarrow> close_range env ks P
      | Some q \<Rightarrow> if HasRequestsInFlight (heap P q) then P
                  else close_range env ks (sess_Close env q None [] P))"

fun CloseAll :: "'c pool_env \<Rightarrow> (i64 list \<times> ('c pool \<Rightarrow> 'c pool)) list \<Rightarrow> 'c pool \<Rightarrow> 'c pool option" where
  "CloseAll env [] P = (if 0 <s SessionCount P then None else Some P)"
| "CloseAll env ((ks, sleep) # rounds) P =
     (if 0 <s SessionCount P
      then let P = close_range env ks P
           in CloseAll env rounds (if 0 <s SessionCount P then sleep P else P)
      else Some P)"

section \<open>Binding a user\<close>

definition SendRequest ::
  "'c pool_env \<Rightarrow> nat \<Rightarrow> string \<Rightarrow> string \<Rightarrow> proto_msg \<Rightarrow> 'c pool \<Rightarrow> 'c pool \<times> goerr option" where
  "SendRequest env q serverID rt msg P =
     (case proto_Marshal env msg of
        Inl e \<Rightarrow> (P, Some e)
      | Inr b \<Rightarrow> entity_SendRequest env (entity (heap P q)) serverID rt b P)"

definition SendRequestToFrontend ::
  "'c pool_env \<Rightarrow> nat \<Rightarrow> string \<Rightarrow> proto_msg \<Rightarrow> 'c pool \<Rightarrow> 'c pool \<times> goerr option" where
  "SendRequestToFrontend env q rt msg P =
     (if frontendID (heap P q) = [] then (P, Some (ErrNew ''frontendID is nil''))
      else SendRequest env q (frontendID (heap P q)) rt msg P)"

definition bindInFront :: "'c pool_env \<Rightarrow> nat \<Rightarrow> cbk \<Rightarrow> 'c pool \<Rightarrow> 'c pool \<times> goerr option" where
  "bindInFront env q callback P =
     (let s = heap P q
      in SendRequestToFrontend env q SessionBindRoute
           (BindMsg (uid s) (frontendID s) (frontendSessionID s) callback (encodedData s)) P)"

definition PushToFront :: "'c pool_env \<Rightarrow> nat \<Rightarrow> 'c pool \<Rightarrow> 'c pool \<times> goerr option" where
  "PushToFront env q P =
     (let s = heap P q in
      if IsFrontend s then (P, Some ErrFrontSessionCantPushToFront)
      else SendRequestToFrontend env q SessionPushRoute
             (SessionMsg (frontendSessionID s) (uid s) (encodedData s)) P)"

text \<open>The callbacks in turn, up to the first error.\<close>

fun until_error :: "('f \<Rightarrow> 'p \<Rightarrow> 'p \<times> goerr option) \<Rightarrow> 'f list \<Rightarrow> 'p \<Rightarrow> 'p \<times> goerr option" where
  "until_error run [] P = (P, None)"
| "until_error run (f # fs) P =
     (case run f P of (P, Some e) \<Rightarrow> (P, Some e) | (P, None) \<Rightarrow> until_error run fs P)"

definition pool_obtain :: "'c pool_env \<Rightarrow> nat \<Rightarrow> 'c pool \<Rightarrow> 'c pool \<times> goerr option" where
  "pool_obtain env q P =
     (let s = heap P q;
          ks = (case cache_Hgetall (pe_cache env) (ClusterStorageKey s) (storage P) of
                  Inl e \<Rightarrow> [] | Inr h \<Rightarrow> fields_order env h);
          r = ObtainFromCluster (pe_json env) (pe_cache env) ks (storage P) s
      in (upd q (\<lambda>_. fst r) P, snd r))"

definition bound_to :: "string \<Rightarrow> session \<Rightarrow> session" where
  "bound_to u s = s\<lparr>uid := u, uidInt := ForceIdStrToInt u\<rparr>"

definition unbound :: "session \<Rightarrow> session" where
  "unbound s = s\<lparr>uid := [], uidInt := 0\<rparr>"

text \<open>The second half of \<open>Bind\<close>: storing the session on a frontend, or binding it there from a backend.\<close>

definition bind_front :: "'c pool_env \<Rightarrow> nat \<Rightarrow> string \<Rightarrow> 'c pool \<Rightarrow> 'c pool" where
  "bind_front env q u P =
     (let P = (case sessionsByUID P u of
                 Some v \<Rightarrow> sess_Close env v None [CloseReasonKickRebind] P
               | None \<Rightarrow> P)
      in P\<lparr>sessionsByUID := (sessionsByUID P)(u \<mapsto> q), UserCount := UserCount P + 1\<rparr>)"

definition bind_back :: "'c pool_env \<Rightarrow> nat \<Rightarrow> cbk \<Rightarrow> 'c pool \<Rightarrow> 'c pool \<times> goerr option" where
  "bind_back env q callback P =
     (case bindInFront env q callback P of
        (P, Some e) \<Rightarrow> (upd q unbound P, Some e)
      | (P, None) \<Rightarrow> pool_obtain env q P)"

definition Bind ::
  "'c pool_env \<Rightarrow> nat \<Rightarrow> string \<Rightarrow> goval gomap \<Rightarrow> cbk \<Rightarrow> 'c pool \<Rightarrow> 'c pool \<times> goerr option" where
  "Bind env q u custSessData callback P =
     (if u = [] then (P, Some ErrIllegalUID)
      else if uid (heap P q) \<noteq> [] \<and> uid (heap P q) \<noteq> u then (P, Some ErrSessionAlreadyBound)
      else
        let P = upd q (bound_to u) P;
            set = (if map_get custSessData = Map.empty then (heap P q, None)
                   else SetData (pe_json env) custSessData (heap P q));
            P = upd q (\<lambda>_. fst set) P
        in case snd set of
             Some e \<Rightarrow> (P, Some e)
           | None \<Rightarrow>
               (case until_error (\<lambda>f. on_bind env f q callback) (sessionBindCallbacks P) P of
                  (P, Some e) \<Rightarrow> (upd q unbound P, Some e)
                | (P, None) \<Rightarrow>
                    let (P, err) = (if IsFrontend (heap P q) then (bind_front env q u P, None)
                                    else bind_back env q callback P)
                    in case err of
                         Some e \<Rightarrow> (P, Some e)
                       | None \<Rightarrow> (fold (\<lambda>f P. fst (on_bind env f q callback P)) (afterBindCallbacks P) P, None)))"

section \<open>Binding a backend\<close>

definition BindBackend ::
  "'c pool_env \<Rightarrow> nat \<Rightarrow> string \<Rightarrow> string \<Rightarrow> cbk \<Rightarrow> 'c pool \<Rightarrow> ('c pool \<times> goerr option) option" where
  "BindBackend env q svType svID callback P =
     (if uid (heap P q) = [] then Some (P, Some ErrIllegalUID)
      else if GetBackendID (heap P q) svType \<noteq> [] then Some (P, Some ErrSessionAlreadyBound)
      else case SetBackendID svType svID (heap P q) of
        None \<Rightarrow> None
      | Some s \<Rightarrow> Some
          (let P = upd q (\<lambda>_. s) P in
           case until_error (\<lambda>f. on_bind_backend env f q svType svID callback) (bindBackendCallbacks P) P of
             (P, Some e) \<Rightarrow> (upd q (RemoveBackendID svType) P, Some e)
           | (P, None) \<Rightarrow>
               (fst (until_error (\<lambda>f. on_bind_backend env f q svType svID callback) (afterBindBackendCallbacks P) P), None)))"

text \<open>
  In \<open>KickBackend\<close> the error of a callback is a variable of its own inside the loop, so the
  outer error is still nil behind the loop and the branch that rolls back is never taken; it is kept
  here as it is in the code.
\<close>

definition KickBackend ::
  "'c pool_env \<Rightarrow> nat \<Rightarrow> string \<Rightarrow> cbk \<Rightarrow> i64 list \<Rightarrow> 'c pool \<Rightarrow> ('c pool \<times> goerr option) option" where
  "KickBackend env q svType callback reason P =
     (if uid (heap P q) = [] then Some (P, Some ErrIllegalUID)
      else
        let backendID = GetBackendID (heap P q) svType in
        if backendID = [] then Some (P, Some ErrSessionNotBoundBackend)
        else
          let rea = (case reason of [] \<Rightarrow> CloseReasonNormal | r # _ \<Rightarrow> r);
              P = upd q (RemoveBackendID svType) P;
              err = (None :: goerr option)
          in case until_error (\<lambda>f. on_kick_backend env f q svType backendID callback rea) (kickBackendCallbacks P) P of
               (P, Some e) \<Rightarrow> Some (P, Some e)
             | (P, None) \<Rightarrow>
                 (case err of
                    Some e \<Rightarrow> map_option (\<lambda>s. (upd q (\<lambda>_. s) P, Some e)) (SetBackendID svType backendID (heap P q))
                  | None \<Rightarrow> Some (until_error (\<lambda>f. on_kick_backend env f q svType backendID callback rea)
                              (afterKickBackendCallbacks P) P)))"

section \<open>What the callbacks keep\<close>

text \<open>
  Code that runs inside an operation of the pool is free in what it does to the data of the sessions,
  the cache and the connections. It leaves the tables, the counters and the identity of the sessions
  alone, registers no callbacks, and has received the responses to the requests it sent.
\<close>

definition keeps_core :: "'c pool \<Rightarrow> 'c pool \<Rightarrow> bool" where
  "keeps_core P P' \<longleftrightarrow>
     sessionsByUID P' = sessionsByUID P \<and> sessionsByID P' = sessionsByID P \<and>
     SessionCount P' = SessionCount P \<and> UserCount P' = UserCount P \<and> sid P' = sid P \<and>
     heap_next P' = heap_next P \<and> afterBindCallbacks P' = afterBindCallbacks P \<and>
     (\<forall>q. sess_id (heap P' q) = sess_id (heap P q) \<and> uid (heap P' q) = uid (heap P q) \<and>
          IsFrontend (heap P' q) = IsFrontend (heap P q) \<and>
          requestsInFlight (heap P' q) = requestsInFlight (heap P q))"

definition quiet_env :: "'c pool_env \<Rightarrow> bool" where
  "quiet_env env \<longleftrightarrow>
     (\<forall>f q cb P. keeps_core P (fst (on_bind env f q cb P))) \<and>
     (\<forall>e cb r P. keeps_core P (fst (entity_Close env e cb r P))) \<and>
     (\<forall>s P. keeps_core P (sub_Drain env s P))"

lemma keeps_core_refl [simp]: "keeps_core P P"
  by (simp add: keeps_core_def)

lemma keeps_core_trans [trans]: "keeps_core P Q \<Longrightarrow> keeps_core Q R \<Longrightarrow> keeps_core P R"
  by (simp add: keeps_core_def)

lemma keeps_core_tables:
  assumes "keeps_core P P'"
  shows "sessionsByUID P' = sessionsByUID P" "sessionsByID P' = sessionsByID P"
    "SessionCount P' = SessionCount P" "UserCount P' = UserCount P" "sid P' = sid P"
    "heap_next P' = heap_next P"
    "sess_id (heap P' q) = sess_id (heap P q)" "uid (heap P' q) = uid (heap P q)"
    "IsFrontend (heap P' q) = IsFrontend (heap P q)"
    "requestsInFlight (heap P' q) = requestsInFlight (heap P q)"
    "afterBindCallbacks P' = afterBindCallbacks P"
  using assms by (simp_all add: keeps_core_def)

lemma keeps_core_fold:
  assumes "\<And>x P. keeps_core P (f x P)"
  shows "keeps_core P (fold f xs P)"
  by (induction xs arbitrary: P) (auto intro: keeps_core_trans assms)

lemma keeps_core_until_error:
  assumes "\<And>x P. keeps_core P (fst (f x P))"
  shows "keeps_core P (fst (until_error f xs P))"
proof (induction xs arbitrary: P)
  case (Cons x xs)
  obtain Q e where run: "f x P = (Q, e)" by fastforce
  have "keeps_core P Q" using assms [of P x] run by simp
  then show ?case
    using Cons.IH run by (cases e) (auto intro: keeps_core_trans)
qed simp

lemma keeps_core_upd:
  assumes "\<And>s. sess_id (f s) = sess_id s" "\<And>s. uid (f s) = uid s" "\<And>s. IsFrontend (f s) = IsFrontend s"
    "\<And>s. requestsInFlight (f s) = requestsInFlight s"
  shows "keeps_core P (upd q f P)"
  by (simp add: keeps_core_def upd_def assms)

lemma sess_Close_core:
  assumes "quiet_env env"
  shows "keeps_core (close_tables q P) (sess_Close env q cb r P)"
proof -
  let ?s = "heap P q"
  let ?Q = "if IsFrontend ?s \<and> Subscriptions ?s \<noteq> [] then fold (sub_Drain env) (Subscriptions ?s) (close_tables q P)
    else close_tables q P"
  have "keeps_core (close_tables q P) (fold (sub_Drain env) (Subscriptions ?s) (close_tables q P))"
    using assms by (intro keeps_core_fold) (simp add: quiet_env_def)
  then have "keeps_core (close_tables q P) ?Q" by simp
  moreover have "keeps_core ?Q (fst (entity_Close env (entity ?s) cb r ?Q))"
    using assms by (simp add: quiet_env_def)
  ultimately show ?thesis unfolding sess_Close_def Let_def by (rule keeps_core_trans)
qed

section \<open>The invariant\<close>

text \<open>
  The tables lead to the sessions they should, every bound session that is open is found under
  its user, and the counters count the tables. The sessions in \<open>X\<close> are in the middle of a \<open>Bind\<close> and
  are not required to be found under their user yet.
\<close>

definition live :: "'c pool \<Rightarrow> nat \<Rightarrow> bool" where
  "live P q \<longleftrightarrow> sessionsByID P (sess_id (heap P q)) = Some q"

definition pool_inv :: "nat set \<Rightarrow> 'c pool \<Rightarrow> bool" where
  "pool_inv X P \<longleftrightarrow>
     (\<forall>i q. sessionsByID P i = Some q \<longrightarrow> q < heap_next P \<and> sess_id (heap P q) = i) \<and>
     (\<forall>q < heap_next P. 0 < sint (sess_id (heap P q)) \<and> sint (sess_id (heap P q)) \<le> sint (sid P)) \<and>
     0 \<le> sint (sid P) \<and>
     (\<forall>u q. sessionsByUID P u = Some q \<longrightarrow> u \<noteq> [] \<and> uid (heap P q) = u \<and> live P q) \<and>
     (\<forall>q. live P q \<and> q \<notin> X \<and> uid (heap P q) \<noteq> [] \<longrightarrow> sessionsByUID P (uid (heap P q)) = Some q) \<and>
     SessionCount P = word_of_nat (card (dom (sessionsByID P))) \<and>
     UserCount P = word_of_nat (card (dom (sessionsByUID P)))"

abbreviation pool_ok :: "'c pool \<Rightarrow> bool" where
  "pool_ok \<equiv> pool_inv {}"

lemma pool_inv_core: "keeps_core P P' \<Longrightarrow> pool_inv X P' = pool_inv X P"
  by (simp add: pool_inv_def live_def keeps_core_tables)

lemma live_core: "keeps_core P P' \<Longrightarrow> live P' q = live P q"
  by (simp add: live_def keeps_core_tables)

lemma pool_invD:
  assumes "pool_inv X P"
  shows "sessionsByID P i = Some q \<Longrightarrow> q < heap_next P \<and> sess_id (heap P q) = i"
    and "q < heap_next P \<Longrightarrow> 0 < sint (sess_id (heap P q)) \<and> sint (sess_id (heap P q)) \<le> sint (sid P)"
    and "0 \<le> sint (sid P)"
    and "sessionsByUID P u = Some q \<Longrightarrow> u \<noteq> [] \<and> uid (heap P q) = u \<and> live P q"
    and "live P q \<Longrightarrow> q \<notin> X \<Longrightarrow> uid (heap P q) \<noteq> [] \<Longrightarrow> sessionsByUID P (uid (heap P q)) = Some q"
    and "SessionCount P = word_of_nat (card (dom (sessionsByID P)))"
    and "UserCount P = word_of_nat (card (dom (sessionsByUID P)))"
  using assms unfolding pool_inv_def by blast+

lemma no_empty_user: "pool_inv X P \<Longrightarrow> sessionsByUID P [] = None"
  using pool_invD(4) [of X P "[]"] by (cases "sessionsByUID P []") auto

lemma pool_invI:
  assumes "\<And>i q. sessionsByID P i = Some q \<Longrightarrow> q < heap_next P \<and> sess_id (heap P q) = i"
    and "\<And>q. q < heap_next P \<Longrightarrow> 0 < sint (sess_id (heap P q)) \<and> sint (sess_id (heap P q)) \<le> sint (sid P)"
    and "0 \<le> sint (sid P)"
    and "\<And>u q. sessionsByUID P u = Some q \<Longrightarrow> u \<noteq> [] \<and> uid (heap P q) = u \<and> live P q"
    and "\<And>q. live P q \<Longrightarrow> q \<notin> X \<Longrightarrow> uid (heap P q) \<noteq> [] \<Longrightarrow> sessionsByUID P (uid (heap P q)) = Some q"
    and "SessionCount P = word_of_nat (card (dom (sessionsByID P)))"
    and "UserCount P = word_of_nat (card (dom (sessionsByUID P)))"
  shows "pool_inv X P"
  unfolding pool_inv_def
proof (intro conjI, goal_cases)
  case 1 show ?case using assms(1) by blast
next
  case 2 show ?case using assms(2) by blast
next
  case 4 show ?case using assms(4) by blast
next
  case 5 show ?case using assms(5) by blast
qed (fact assms(3,6,7))+

lemma pool_inv_finite:
  assumes "pool_inv X P"
  shows "finite (dom (sessionsByID P))" and "finite (dom (sessionsByUID P))"
proof -
  have "dom (sessionsByID P) \<subseteq> (\<lambda>q. sess_id (heap P q)) ` {..<heap_next P}"
    using pool_invD(1) [OF assms] by (fastforce simp: dom_def)
  then show "finite (dom (sessionsByID P))" using finite_subset by blast
  have "dom (sessionsByUID P) \<subseteq> (\<lambda>q. uid (heap P q)) ` {..<heap_next P}"
  proof
    fix u assume "u \<in> dom (sessionsByUID P)"
    then obtain q where q: "sessionsByUID P u = Some q" by blast
    from pool_invD(4) [OF assms q] pool_invD(1) [OF assms, of "sess_id (heap P q)" q]
    show "u \<in> (\<lambda>q. uid (heap P q)) ` {..<heap_next P}" by (auto simp: live_def)
  qed
  then show "finite (dom (sessionsByUID P))" using finite_subset by blast
qed

lemma card_dom_remove:
  assumes "finite (dom m)" and "m k \<noteq> None"
  shows "(word_of_nat (card (dom m)) - 1 :: i64) = word_of_nat (card (dom (m(k := None))))"
proof -
  have "k \<in> dom m" using assms(2) by (simp add: domIff)
  then have "card (dom m) = Suc (card (dom m - {k}))"
    by (rule card_Suc_Diff1 [OF assms(1), symmetric])
  then show ?thesis by simp
qed

lemma card_dom_insert:
  assumes "finite (dom m)" and "m k = None"
  shows "(word_of_nat (card (dom m)) + 1 :: i64) = word_of_nat (card (dom (m(k \<mapsto> v))))"
  using assms by (simp add: domIff add.commute)


section \<open>Closing an open session\<close>

text \<open>
  The tables after closing a session that is open and, when bound, found under its user. The guard on
  the session ids plays no part: the entry is gone when it is reached.
\<close>

lemma close_tables_eq:
  assumes "uid (heap P q) = [] \<longrightarrow> sessionsByUID P [] = None"
  shows "close_tables q P =
    (upd q (online_update (\<lambda>_. False)) P)
      \<lparr>sessionsByUID := (if uid (heap P q) = [] then sessionsByUID P else (sessionsByUID P)(uid (heap P q) := None)),
       sessionsByID := (sessionsByID P)(sess_id (heap P q) := None),
       SessionCount := SessionCount P - 1,
       UserCount := (if uid (heap P q) = [] then UserCount P else UserCount P - 1)\<rparr>"
  using assms by (cases "uid (heap P q) = []") (simp_all add: close_tables_def Let_def upd_def)

lemma close_tables_inv:
  assumes inv: "pool_inv X P" and q: "live P q" "q \<notin> X"
  shows "pool_inv X (close_tables q P)"
proof -
  let ?s = "heap P q"
  have noempty: "uid ?s = [] \<longrightarrow> sessionsByUID P [] = None"
    using no_empty_user [OF inv] by simp
  note eq = close_tables_eq [OF noempty]
  let ?C = "close_tables q P"
  have keep: "sess_id (heap ?C v) = sess_id (heap P v)" "uid (heap ?C v) = uid (heap P v)"
    "heap_next ?C = heap_next P" "sid ?C = sid P" for v
    by (simp_all add: eq upd_def)
  have byID: "sessionsByID ?C = (sessionsByID P)(sess_id ?s := None)"
    by (simp add: eq)
  have live: "live ?C v \<longleftrightarrow> live P v \<and> v \<noteq> q" for v
    using q(1) by (auto simp: live_def byID keep)
  have byUID: "sessionsByUID ?C u = (if sessionsByUID P u = Some q then None else sessionsByUID P u)" for u
  proof (cases "uid ?s = []")
    case True
    then have "sessionsByUID P u \<noteq> Some q" using pool_invD(4) [OF inv, of u q] by auto
    then show ?thesis using True by (simp add: eq)
  next
    case False
    then have "sessionsByUID P (uid ?s) = Some q" using pool_invD(5) [OF inv q] by simp
    moreover have "sessionsByUID P u = Some q \<Longrightarrow> u = uid ?s" using pool_invD(4) [OF inv, of u q] by simp
    ultimately show ?thesis using False by (cases "u = uid ?s") (auto simp: eq)
  qed
  show ?thesis
  proof (rule pool_invI, goal_cases)
    case (1 i v)
    then show ?case using pool_invD(1) [OF inv, of i v] by (simp add: byID keep split: if_splits)
  next
    case (2 v)
    then show ?case using pool_invD(2) [OF inv, of v] by (simp add: keep)
  next
    case 3
    show ?case using pool_invD(3) [OF inv] by (simp add: keep)
  next
    case (4 u v)
    then show ?case using pool_invD(4) [OF inv, of u v] by (auto simp: byUID keep live split: if_splits)
  next
    case (5 v)
    then show ?case using pool_invD(5) [OF inv, of v] by (simp add: byUID keep live)
  next
    case 6
    show ?case
      using card_dom_remove [OF pool_inv_finite(1) [OF inv], of "sess_id ?s"] q(1) pool_invD(6) [OF inv]
      by (simp add: eq live_def)
  next
    case 7
    show ?case
      using card_dom_remove [OF pool_inv_finite(2) [OF inv], of "uid ?s"] pool_invD(5) [OF inv q]
        pool_invD(7) [OF inv] by (simp add: eq)
  qed
qed

lemma sess_Close_inv:
  assumes "quiet_env env" and "pool_inv X P" and "live P q" and "q \<notin> X"
  shows "pool_inv X (sess_Close env q cb r P)"
  using close_tables_inv [OF assms(2-4)] pool_inv_core [OF sess_Close_core [OF assms(1)]] by blast

section \<open>Binding keeps the invariant\<close>

text \<open>Changing one session that no user entry leads to, while it is exempt.\<close>

lemma upd_inv:
  assumes inv: "pool_inv X P" and no: "\<And>u. sessionsByUID P u \<noteq> Some q"
    and f: "\<And>s. sess_id (f s) = sess_id s" and Y: "\<And>v. v \<notin> Y \<Longrightarrow> v \<noteq> q \<Longrightarrow> v \<notin> X"
    and q: "q \<in> Y \<or> uid (f (heap P q)) = []"
  shows "pool_inv Y (upd q f P)"
proof -
  have same: "live (upd q f P) v = live P v" "sess_id (heap (upd q f P) v) = sess_id (heap P v)"
    "v \<noteq> q \<Longrightarrow> heap (upd q f P) v = heap P v" for v
    by (simp_all add: live_def upd_def f)
  have tables: "sessionsByID (upd q f P) = sessionsByID P" "sessionsByUID (upd q f P) = sessionsByUID P"
    "SessionCount (upd q f P) = SessionCount P" "UserCount (upd q f P) = UserCount P"
    "sid (upd q f P) = sid P" "heap_next (upd q f P) = heap_next P" "heap (upd q f P) q = f (heap P q)"
    by (simp_all add: upd_def)
  show ?thesis
  proof (rule pool_invI, goal_cases)
    case (4 u v)
    then have "v \<noteq> q" using no [of u] by (auto simp: tables)
    then show ?case using 4 pool_invD(4) [OF inv, of u v] by (simp add: tables same)
  next
    case (5 v)
    then have "v \<noteq> q" using q by (auto simp: tables)
    then show ?case using 5 pool_invD(5) [OF inv, of v] Y by (simp add: tables same)
  qed (use pool_invD(1-3,6,7) [OF inv] in \<open>simp_all add: tables same(1,2)\<close>)
qed

lemma no_user_entry:
  assumes "pool_ok P" and "uid (heap P q) = []"
  shows "sessionsByUID P u \<noteq> Some q"
  using pool_invD(4) [OF assms(1), of u q] assms(2) by auto

lemma store_user_inv:
  assumes inv: "pool_inv {q} P" and q: "live P q" "uid (heap P q) = u" "u \<noteq> []"
    and none: "sessionsByUID P u = None"
  shows "pool_ok (P\<lparr>sessionsByUID := (sessionsByUID P)(u \<mapsto> q), UserCount := UserCount P + 1\<rparr>)"
    (is "pool_ok ?S")
proof -
  have same: "live ?S v = live P v" "heap ?S = heap P" "sessionsByID ?S = sessionsByID P" "sid ?S = sid P"
    "heap_next ?S = heap_next P" "SessionCount ?S = SessionCount P" for v by (simp_all add: live_def)
  show ?thesis
  proof (rule pool_invI, goal_cases)
    case (4 x v)
    then show ?case using pool_invD(4) [OF inv, of x v] q by (auto simp: same(1) split: if_splits)
  next
    case (5 v)
    then have "live P v" by (simp add: same(1))
    show ?case
    proof (cases "v = q")
      case False
      then have "sessionsByUID P (uid (heap P v)) = Some v"
        using pool_invD(5) [OF inv \<open>live P v\<close>] 5 by (simp add: same(2))
      then show ?thesis using none by auto
    qed (simp add: q)
  next
    case 7
    show ?case
      using card_dom_insert [OF pool_inv_finite(2) [OF inv] none, of q] pool_invD(7) [OF inv] by simp
  qed (use pool_invD(1-3,6) [OF inv] in \<open>simp_all only: same\<close>)
qed

text \<open>The tables after \<open>Close\<close>.\<close>

lemma sess_Close_parts:
  assumes "quiet_env env" and "uid (heap P q) = [] \<longrightarrow> sessionsByUID P [] = None"
  shows "sessionsByUID (sess_Close env q cb r P) =
      (if uid (heap P q) = [] then sessionsByUID P else (sessionsByUID P)(uid (heap P q) := None))"
    and "sessionsByID (sess_Close env q cb r P) = (sessionsByID P)(sess_id (heap P q) := None)"
    and "SessionCount (sess_Close env q cb r P) = SessionCount P - 1"
    and "UserCount (sess_Close env q cb r P) = (if uid (heap P q) = [] then UserCount P else UserCount P - 1)"
    and "sess_id (heap (sess_Close env q cb r P) v) = sess_id (heap P v)"
    and "uid (heap (sess_Close env q cb r P) v) = uid (heap P v)"
    and "requestsInFlight (heap (sess_Close env q cb r P) v) = requestsInFlight (heap P v)"
    and "heap_next (sess_Close env q cb r P) = heap_next P"
  by (simp_all add: keeps_core_tables [OF sess_Close_core [OF assms(1)]] close_tables_eq [OF assms(2)] upd_def)

lemma live_inject: "live P v \<Longrightarrow> live P q \<Longrightarrow> sess_id (heap P v) = sess_id (heap P q) \<Longrightarrow> v = q"
  by (simp add: live_def)

lemma bind_front_inv:
  assumes env: "quiet_env env" and inv: "pool_inv {q} P" and q: "live P q" "uid (heap P q) = u" "u \<noteq> []"
    and no: "sessionsByUID P u \<noteq> Some q"
  shows "pool_ok (bind_front env q u P)"
proof (cases "sessionsByUID P u")
  case None
  then show ?thesis using store_user_inv [OF inv q] by (simp add: bind_front_def)
next
  case (Some v)
  let ?C = "sess_Close env v None [CloseReasonKickRebind] P"
  have v: "v \<noteq> q" "live P v" "uid (heap P v) = u"
    using no Some pool_invD(4) [OF inv Some] by auto
  have "uid (heap P v) = [] \<longrightarrow> sessionsByUID P [] = None" using v(3) q(3) by simp
  note parts = sess_Close_parts [OF env this]
  have inv': "pool_inv {q} ?C" using sess_Close_inv [OF env inv v(2)] v(1) by simp
  have "live ?C q" using q(1) v live_inject [OF q(1) v(2)] by (auto simp: live_def parts q(3))
  moreover have "uid (heap ?C q) = u" "sessionsByUID ?C u = None" by (simp_all add: parts q v)
  ultimately have "pool_ok (?C\<lparr>sessionsByUID := (sessionsByUID ?C)(u \<mapsto> q), UserCount := UserCount ?C + 1\<rparr>)"
    by (rule store_user_inv [OF inv' _ _ q(3)])
  then show ?thesis by (simp add: bind_front_def Some Let_def)
qed

text \<open>
  What \<open>Bind\<close> does on a frontend to a session that is not bound, when the session data it is given can
  be encoded: everything, or the user id is taken back.
\<close>

definition encodable :: "'c pool_env \<Rightarrow> goval gomap \<Rightarrow> bool" where
  "encodable env d \<longleftrightarrow>
     map_get d = Map.empty \<or> (\<exists>b. EncodeSessionData (pe_json env) (Some (map_get d)) = Inr b)"

lemma SetData_keeps:
  "sess_id (fst (SetData j d s)) = sess_id s" "uid (fst (SetData j d s)) = uid s"
  "IsFrontend (fst (SetData j d s)) = IsFrontend s"
  "requestsInFlight (fst (SetData j d s)) = requestsInFlight s"
  by (cases "EncodeSessionData j (Some (map_get d))"; simp add: SetData_def updateEncodedData_def)+

lemma Bind_frontend:
  assumes env: "quiet_env env" and q: "uid (heap P q) = [] \<or> uid (heap P q) = u" "IsFrontend (heap P q)"
    and u: "u \<noteq> []" and cust: "encodable env cust"
  obtains (bound) P1 P' where "keeps_core (upd q (bound_to u) P) P1"
      and "keeps_core (bind_front env q u P1) P'" and "Bind env q u cust cb P = (P', None)"
    | (failed) P1 e where "keeps_core (upd q (bound_to u) P) P1"
      and "Bind env q u cust cb P = (upd q unbound P1, Some e)"
proof -
  let ?B = "upd q (bound_to u) P"
  let ?set = "if map_get cust = Map.empty then (heap ?B q, None) else SetData (pe_json env) cust (heap ?B q)"
  let ?P0 = "upd q (\<lambda>_. fst ?set) ?B"
  have guard: "\<not> (uid (heap P q) \<noteq> [] \<and> uid (heap P q) \<noteq> u)" using q(1) by auto
  have set: "snd ?set = None"
    using cust by (auto simp: encodable_def SetData_def updateEncodedData_def)
  have core0: "keeps_core ?B ?P0"
    by (auto simp: keeps_core_def upd_def SetData_keeps)
  obtain P1 r where run: "until_error (\<lambda>f. on_bind env f q cb) (sessionBindCallbacks ?P0) ?P0 = (P1, r)"
    by fastforce
  have "keeps_core ?P0 (fst (until_error (\<lambda>f. on_bind env f q cb) (sessionBindCallbacks ?P0) ?P0))"
    using env by (intro keeps_core_until_error) (simp add: quiet_env_def)
  then have core1: "keeps_core ?B P1" using core0 run keeps_core_trans by simp
  show ?thesis
  proof (cases r)
    case (Some e)
    then have "Bind env q u cust cb P = (upd q unbound P1, Some e)"
      using set run unfolding Bind_def Let_def if_not_P [OF u] if_not_P [OF guard] by simp
    then show ?thesis using core1 failed by blast
  next
    case None
    let ?F = "bind_front env q u P1"
    let ?A = "fold (\<lambda>f P. fst (on_bind env f q cb P)) (afterBindCallbacks ?F) ?F"
    have front: "IsFrontend (heap P1 q)"
      using keeps_core_tables(9) [OF core1, of q] q by (simp add: upd_def bound_to_def)
    have "keeps_core ?F ?A"
      using env by (intro keeps_core_fold) (simp add: quiet_env_def)
    moreover have "Bind env q u cust cb P = (?A, None)"
      using set run None front unfolding Bind_def Let_def if_not_P [OF u] if_not_P [OF guard] by simp
    ultimately show ?thesis using core1 bound by blast
  qed
qed

lemma Bind_inv:
  assumes env: "quiet_env env" and inv: "pool_ok P" and q: "live P q" "uid (heap P q) = []" "IsFrontend (heap P q)"
    and cust: "encodable env cust"
  shows "pool_ok (fst (Bind env q u cust cb P))"
proof (cases "u = []")
  case True
  then show ?thesis using inv by (simp add: Bind_def)
next
  case False
  have no: "sessionsByUID P x \<noteq> Some q" for x using no_user_entry [OF inv q(2)] .
  have inv1: "pool_inv {q} (upd q (bound_to u) P)"
    using upd_inv [OF inv no, of "bound_to u" "{q}"] by (simp add: bound_to_def)
  show ?thesis
  proof (rule Bind_frontend [OF env disjI1 [OF q(2)] q(3) False cust, of cb])
    fix P1 P' assume core: "keeps_core (upd q (bound_to u) P) P1" and F: "keeps_core (bind_front env q u P1) P'"
      and B: "Bind env q u cust cb P = (P', None)"
    have "pool_ok (bind_front env q u P1)"
    proof (rule bind_front_inv [OF env])
      show "pool_inv {q} P1" using inv1 pool_inv_core [OF core] by blast
      show "live P1 q" using q(1) by (simp add: live_def keeps_core_tables [OF core]) (simp add: upd_def bound_to_def)
      show "uid (heap P1 q) = u" by (simp add: keeps_core_tables [OF core]) (simp add: upd_def bound_to_def)
      show "sessionsByUID P1 u \<noteq> Some q" using no by (simp add: keeps_core_tables [OF core]) (simp add: upd_def)
    qed fact
    then show ?thesis using B pool_inv_core [OF F] by simp
  next
    fix P1 e assume core: "keeps_core (upd q (bound_to u) P) P1"
      and B: "Bind env q u cust cb P = (upd q unbound P1, Some e)"
    have "sessionsByUID P1 x \<noteq> Some q" for x using no by (simp add: keeps_core_tables [OF core]) (simp add: upd_def)
    then have "pool_ok (upd q unbound P1)"
      using upd_inv [of "{q}" P1 q unbound "{}"] inv1 pool_inv_core [OF core] by (simp add: unbound_def)
    then show ?thesis using B by simp
  qed
qed

section \<open>Reachable pools\<close>

lemma sint_plus_one:
  fixes a :: i64
  assumes "sint a < 2 ^ 63 - 1"
  shows "sint (a + 1) = sint a + 1"
proof -
  have "sint (a + 1) = signed_take_bit 63 (sint a + 1)"
    by (simp add: sint_word_ariths)
  also have "\<dots> = sint a + 1"
    using assms sint_bounds(1) [of a] by (intro signed_take_bit_int_eq_self) auto
  finally show ?thesis .
qed

lemma NewSession_inv:
  assumes inv: "pool_ok P" and ids: "sint (sid P) < 2 ^ 63 - 1"
  shows "pool_ok (snd (snd (NewSession now ent True [] P)))" (is "pool_ok ?N")
proof -
  let ?i = "sid P + 1" and ?q = "heap_next P"
  have i: "sint ?i = sint (sid P) + 1" using sint_plus_one [OF ids] .
  have N: "?N = P\<lparr>sid := ?i, heap_next := ?q + 1, sessionsByID := (sessionsByID P)(?i \<mapsto> ?q),
      SessionCount := SessionCount P + 1, heap := (heap P)(?q := new_session ?i ent now True)\<rparr>"
    by (simp add: NewSession_def Let_def)
  have fresh: "sessionsByID P ?i = None"
  proof (cases "sessionsByID P ?i")
    case (Some v)
    then show ?thesis using pool_invD(1) [OF inv Some] pool_invD(2) [OF inv, of v] i by auto
  qed simp
  have old: "v \<noteq> ?q" if "sessionsByID P j = Some v" for j v
    using pool_invD(1) [OF inv that] by auto
  have new: "heap ?N ?q = new_session ?i ent now True" "v \<noteq> ?q \<Longrightarrow> heap ?N v = heap P v" for v
    by (simp_all add: N)
  have live: "live ?N v \<longleftrightarrow> live P v \<or> v = ?q" for v
  proof (cases "v = ?q")
    case True
    then show ?thesis by (simp add: live_def N new_session_def)
  next
    case False
    then show ?thesis using fresh by (auto simp: live_def N)
  qed
  have user: "v \<noteq> ?q" if "sessionsByUID P u = Some v" for u v
    using pool_invD(4) [OF inv that] old by (auto simp: live_def)
  show ?thesis
  proof (rule pool_invI, goal_cases)
    case (1 j v)
    then show ?case
      using pool_invD(1) [OF inv, of j v] old [of j v] by (cases "j = ?i") (auto simp: N new_session_def)
  next
    case (2 v)
    then show ?case
      using pool_invD(2) [OF inv, of v] pool_invD(3) [OF inv] i by (cases "v = ?q") (auto simp: N new_session_def)
  next
    case 3
    show ?case using pool_invD(3) [OF inv] i by (simp add: N)
  next
    case (4 u v)
    then have "sessionsByUID P u = Some v" by (simp add: N)
    then show ?case using pool_invD(4) [OF inv, of u v] user [of u v] by (simp add: live new)
  next
    case (5 v)
    then have "live P v \<or> v = ?q" using live by simp
    then show ?case
      using 5(2,3) pool_invD(5) [OF inv, of v] by (cases "v = ?q") (auto simp: N new_session_def)
  next
    case 6
    show ?case
      using card_dom_insert [OF pool_inv_finite(1) [OF inv] fresh, of ?q] pool_invD(6) [OF inv] by (simp add: N)
  next
    case 7
    show ?case using pool_invD(7) [OF inv] by (simp add: N)
  qed
qed

lemma NewSessionPool_inv: "pool_ok (NewSessionPool st)"
  by (rule pool_invI) (simp_all add: NewSessionPool_def live_def)

text \<open>
  What happens to the pool of a frontend: a connection gets its session, a session that is not bound
  is bound, an open session is closed, and everything else the program does to the sessions.
\<close>

inductive pool_step :: "'c pool_env \<Rightarrow> 'c pool \<Rightarrow> 'c pool \<Rightarrow> bool" for env where
  step_new: "sint (sid P) < 2 ^ 63 - 1 \<Longrightarrow> pool_step env P (snd (snd (NewSession now ent True [] P)))"
| step_bind: "live P q \<Longrightarrow> uid (heap P q) = [] \<Longrightarrow> IsFrontend (heap P q) \<Longrightarrow> encodable env cust \<Longrightarrow>
    pool_step env P (fst (Bind env q u cust cb P))"
| step_close: "live P q \<Longrightarrow> pool_step env P (sess_Close env q cb r P)"
| step_other: "keeps_core P P' \<Longrightarrow> pool_step env P P'"

lemma pool_step_inv:
  assumes "quiet_env env" and "pool_step env P P'" and "pool_ok P"
  shows "pool_ok P'"
  using assms(2,3)
proof (cases rule: pool_step.cases)
  case step_new
  then show ?thesis using NewSession_inv assms(3) by simp
next
  case step_bind
  then show ?thesis using Bind_inv [OF assms(1,3)] by simp
next
  case step_close
  then show ?thesis using sess_Close_inv [OF assms(1,3)] by simp
next
  case step_other
  then show ?thesis using pool_inv_core assms(3) by blast
qed


text \<open>An environment whose callbacks and entities do nothing.\<close>

definition env_example :: "(string \<Rightarrow> string \<rightharpoonup> string) pool_env" where
  "env_example =
     \<lparr>pe_json = json_example, pe_cache = cache_example, fields_order = (\<lambda>h. []),
      proto_Marshal = (\<lambda>m. Inr []), on_bind = (\<lambda>f q cb P. (P, None)),
      on_bind_backend = (\<lambda>f q ty i cb P. (P, None)),
      on_kick_backend = (\<lambda>f q ty i cb r P. (P, None)), entity_Kick = (\<lambda>e r P. (P, None)),
      entity_Close = (\<lambda>e cb r P. (P, None)), entity_SendRequest = (\<lambda>e sv rt b P. (P, None)),
      sub_Drain = (\<lambda>s P. P)\<rparr>"

lemma env_example_quiet: "quiet_env env_example"
  by (simp add: quiet_env_def env_example_def)

abbreviation pool_start :: "(string \<Rightarrow> string \<rightharpoonup> string) pool" where
  "pool_start \<equiv> NewSessionPool (\<lambda>_. Map.empty)"

abbreviation connect :: "'c pool \<Rightarrow> 'c pool" where
  "connect P \<equiv> snd (snd (NewSession 0 0 True [] P))"

abbreviation bind_example ::
  "nat \<Rightarrow> (string \<Rightarrow> string \<rightharpoonup> string) pool \<Rightarrow> (string \<Rightarrow> string \<rightharpoonup> string) pool" where
  "bind_example q P \<equiv> fst (Bind env_example q ''u'' None None P)"

lemmas pool_eval = NewSession_def NewSessionPool_def new_session_def Let_def Bind_def bind_front_def
  upd_def bound_to_def env_example_def sess_Close_def close_tables_def


section \<open>Closing everything\<close>

lemma close_range_all:
  assumes env: "quiet_env env"
  shows "pool_ok P \<Longrightarrow> enumerates ks (sessionsByID P) \<Longrightarrow>
    (\<And>i q. sessionsByID P i = Some q \<Longrightarrow> \<not> HasRequestsInFlight (heap P q)) \<Longrightarrow>
    pool_ok (close_range env ks P) \<and> sessionsByID (close_range env ks P) = Map.empty"
proof (induction ks arbitrary: P)
  case Nil
  then have "dom (sessionsByID P) = {}" by (simp add: enumerates_def)
  then show ?case using Nil by simp
next
  case (Cons k ks)
  then obtain q where q: "sessionsByID P k = Some q" by (fastforce simp: enumerates_def)
  let ?C = "sess_Close env q None [] P"
  have id: "sess_id (heap P q) = k" using pool_invD(1) [OF Cons.prems(1) q] by simp
  then have live: "live P q" using q by (simp add: live_def)
  have "uid (heap P q) = [] \<longrightarrow> sessionsByUID P [] = None" using no_empty_user [OF Cons.prems(1)] by simp
  note parts = sess_Close_parts [OF env this]
  have "pool_ok ?C" using sess_Close_inv [OF env Cons.prems(1) live] by simp
  moreover have "enumerates ks (sessionsByID ?C)"
    using Cons.prems(2) by (auto simp: parts id enumerates_def)
  moreover have "\<not> HasRequestsInFlight (heap ?C v)" if "sessionsByID ?C i = Some v" for i v
    using that Cons.prems(3) [of i v] by (simp add: parts HasRequestsInFlight_def split: if_splits)
  ultimately have "pool_ok (close_range env ks ?C) \<and> sessionsByID (close_range env ks ?C) = Map.empty"
    by (rule Cons.IH)
  then show ?case using q Cons.prems(3) [OF q] by simp
qed

lemma pool_count_bound:
  assumes inv: "pool_ok P"
  shows "sint (SessionCount P) = int (card (dom (sessionsByID P)))"
proof -
  have "inj_on sint (dom (sessionsByID P))" by (auto simp: inj_on_def intro: signed_word_eqI)
  moreover have "sint ` dom (sessionsByID P) \<subseteq> {1..sint (sid P)}"
  proof
    fix x assume "x \<in> sint ` dom (sessionsByID P)"
    then obtain i q where "x = sint i" "sessionsByID P i = Some q" by blast
    then show "x \<in> {1..sint (sid P)}"
      using pool_invD(1) [OF inv, of i q] pool_invD(2) [OF inv, of q] by auto
  qed
  ultimately have "card (dom (sessionsByID P)) \<le> card {1..sint (sid P)}"
    by (rule card_inj_on_le) simp
  then have "int (card (dom (sessionsByID P))) < 2 ^ 63"
    using sint_bounds(2) [of "sid P"] by simp
  then show ?thesis
    using pool_invD(6) [OF inv] by (simp add: signed_of_nat signed_take_bit_int_eq_self)
qed

lemma CloseAll_done: "\<not> 0 <s SessionCount P \<Longrightarrow> CloseAll env rounds P = Some P"
  by (cases rounds) auto

text \<open>
  Closing all sessions ends. When the tables are consistent and no open session waits for a response, one
  pass of \<open>CloseAll\<close> closes every session, in whatever order it visits them, and the loop ends behind
  it with both tables empty and both counters at zero.
\<close>

theorem CloseAll_ends:
  assumes "quiet_env env" and "pool_ok P" and "enumerates ks (sessionsByID P)"
    and "\<And>i q. sessionsByID P i = Some q \<Longrightarrow> \<not> HasRequestsInFlight (heap P q)"
  shows "\<exists>P'. CloseAll env ((ks, sleep) # rounds) P = Some P' \<and> sessionsByID P' = Map.empty \<and>
    sessionsByUID P' = Map.empty \<and> GetSessionCount P' = 0 \<and> GetUserCount P' = 0"
proof -
  let ?C = "close_range env ks P"
  have C: "pool_ok ?C" "sessionsByID ?C = Map.empty"
    using close_range_all [OF assms] by simp_all
  have empty: "sessionsByUID Q = Map.empty \<and> SessionCount Q = 0 \<and> UserCount Q = 0"
    if "pool_ok Q" and none: "sessionsByID Q = Map.empty" for Q :: "'a pool"
  proof -
    have "sessionsByUID Q u = None" for u
      using pool_invD(4) [OF that(1), of u] none by (cases "sessionsByUID Q u") (auto simp: live_def)
    then have "sessionsByUID Q = Map.empty" by auto
    then show ?thesis using pool_invD(6,7) [OF that(1)] none by simp
  qed
  show ?thesis
  proof (cases "0 <s SessionCount P")
    case True
    then have "CloseAll env ((ks, sleep) # rounds) P = Some ?C"
      using empty [OF C] by (simp add: CloseAll_done)
    then show ?thesis using C empty [OF C] by (simp add: GetSessionCount_def GetUserCount_def)
  next
    case False
    then have "card (dom (sessionsByID P)) = 0"
      using pool_count_bound [OF assms(2)] by (simp add: word_sless_alt)
    then have none: "sessionsByID P = Map.empty"
      using pool_inv_finite(1) [OF assms(2)] by simp
    then show ?thesis
      using False empty [OF assms(2) none] by (simp add: GetSessionCount_def GetUserCount_def)
  qed
qed

lemma CloseAll_ends_witness:
  "\<exists>P'. CloseAll env_example [([1], \<lambda>P. P)] (bind_example 0 (connect pool_start)) = Some P' \<and>
     sessionsByID P' = Map.empty \<and> GetUserCount P' = 0"
proof -
  let ?P = "bind_example 0 (connect pool_start)"
  have "pool_ok (connect pool_start)"
    by (rule NewSession_inv [OF NewSessionPool_inv]) (simp add: NewSessionPool_def)
  then have "pool_ok ?P"
    by (rule Bind_inv [OF env_example_quiet]) (simp_all add: pool_eval live_def encodable_def)
  moreover have byID: "sessionsByID ?P = [1 \<mapsto> 0]" by (simp add: pool_eval)
  moreover have "\<not> HasRequestsInFlight (heap ?P q)" if "sessionsByID ?P i = Some q" for i q
    using that unfolding byID by (simp add: pool_eval HasRequestsInFlight_def split: if_splits)
  moreover have "enumerates [1] (sessionsByID ?P)" unfolding byID by (simp add: enumerates_def)
  ultimately show ?thesis
    using CloseAll_ends [OF env_example_quiet, of ?P "[1]" "\<lambda>P. P" "[]"] by blast
qed

section \<open>Binding a user who is bound already\<close>

lemma bind_front_parts:
  assumes env: "quiet_env env" and q: "sessionsByUID P u = Some q" "uid (heap P q) = u" "u \<noteq> []"
  shows "sessionsByUID (bind_front env p u P) = (sessionsByUID P)(u \<mapsto> p)"
    and "sessionsByID (bind_front env p u P) = (sessionsByID P)(sess_id (heap P q) := None)"
    and "sess_id (heap (bind_front env p u P) v) = sess_id (heap P v)"
    and "uid (heap (bind_front env p u P) v) = uid (heap P v)"
proof -
  have "uid (heap P q) = [] \<longrightarrow> sessionsByUID P [] = None" using q by simp
  note parts = sess_Close_parts [OF env this]
  show "sessionsByUID (bind_front env p u P) = (sessionsByUID P)(u \<mapsto> p)"
    and "sessionsByID (bind_front env p u P) = (sessionsByID P)(sess_id (heap P q) := None)"
    and "sess_id (heap (bind_front env p u P) v) = sess_id (heap P v)"
    and "uid (heap (bind_front env p u P) v) = uid (heap P v)"
    using q by (simp_all add: bind_front_def Let_def parts)
qed

text \<open>A successful \<open>Bind\<close> on a frontend, step by step.\<close>

lemma Bind_front_run:
  assumes "Bind env q u cust cb P = (P', None)" and "IsFrontend (heap P q)"
    and quiet: "\<And>f c Q. keeps_core Q (fst (on_bind env f q c Q))"
  obtains P0 P1 where "keeps_core (upd q (bound_to u) P) P0" and "sessionBindCallbacks P0 = sessionBindCallbacks P"
    and "until_error (\<lambda>f. on_bind env f q cb) (sessionBindCallbacks P0) P0 = (P1, None)"
    and "keeps_core P0 P1" and "u \<noteq> []"
    and "P' = fold (\<lambda>f P. fst (on_bind env f q cb P)) (afterBindCallbacks (bind_front env q u P1)) (bind_front env q u P1)"
proof -
  let ?B = "upd q (bound_to u) P"
  let ?set = "if map_get cust = Map.empty then (heap ?B q, None) else SetData (pe_json env) cust (heap ?B q)"
  let ?P0 = "upd q (\<lambda>_. fst ?set) ?B"
  have u: "u \<noteq> []" and guard: "\<not> (uid (heap P q) \<noteq> [] \<and> uid (heap P q) \<noteq> u)"
    using assms(1) by (auto simp: Bind_def split: if_splits)
  note bind = assms(1) [unfolded Bind_def Let_def if_not_P [OF u] if_not_P [OF guard]]
  have set: "snd ?set = None" using bind by (cases "snd ?set") simp_all
  have core: "keeps_core ?B ?P0" by (auto simp: keeps_core_def upd_def SetData_keeps)
  obtain P1 r where run: "until_error (\<lambda>f. on_bind env f q cb) (sessionBindCallbacks ?P0) ?P0 = (P1, r)" by fastforce
  have core1: "keeps_core ?P0 P1"
    using keeps_core_until_error [of "\<lambda>f. on_bind env f q cb" ?P0 "sessionBindCallbacks ?P0"] quiet run by simp
  have r: "r = None" using bind set run by (cases r) simp_all
  have "IsFrontend (heap P1 q)"
    using assms(2) keeps_core_tables(9) [OF core1, of q] keeps_core_tables(9) [OF core, of q] by (simp add: upd_def bound_to_def)
  then have "P' = fold (\<lambda>f P. fst (on_bind env f q cb P)) (afterBindCallbacks (bind_front env q u P1)) (bind_front env q u P1)"
    using bind set run r by simp
  moreover have "sessionBindCallbacks ?P0 = sessionBindCallbacks P" by (simp add: upd_def)
  ultimately show ?thesis using that core run r core1 u by blast
qed

text \<open>The tables after a successful \<open>Bind\<close> that finds the entry of its user taken by \<open>q\<close>.\<close>

lemma Bind_taken:
  assumes env: "quiet_env env" and inv: "pool_ok P" and p: "uid (heap P p) = [] \<or> uid (heap P p) = u" "IsFrontend (heap P p)"
    and q: "sessionsByUID P u = Some q" and bind: "Bind env p u None cb P = (P', None)"
  shows "sessionsByUID P' = (sessionsByUID P)(u \<mapsto> p)"
    and "sessionsByID P' = (sessionsByID P)(sess_id (heap P q) := None)"
    and "sess_id (heap P' v) = sess_id (heap P v)"
    and "uid (heap P' v) = (if v = p then u else uid (heap P v))"
proof -
  have u: "u \<noteq> []" and uq: "uid (heap P q) = u" using pool_invD(4) [OF inv q] by auto
  have enc: "encodable env None" by (simp add: encodable_def)
  obtain P1 where core: "keeps_core (upd p (bound_to u) P) P1" and F: "keeps_core (bind_front env p u P1) P'"
    by (rule Bind_frontend [OF env p u enc, of cb]) (use bind in auto)
  have same: "sessionsByUID P1 = sessionsByUID P" "sessionsByID P1 = sessionsByID P"
    "sess_id (heap P1 v) = sess_id (heap P v)" "uid (heap P1 v) = (if v = p then u else uid (heap P v))" for v
    by (simp_all add: keeps_core_tables [OF core]) (simp_all add: upd_def bound_to_def)
  have "sessionsByUID P1 u = Some q" "uid (heap P1 q) = u" using q uq by (simp_all add: same)
  note parts = bind_front_parts [OF env this u]
  show "sessionsByUID P' = (sessionsByUID P)(u \<mapsto> p)"
    and "sessionsByID P' = (sessionsByID P)(sess_id (heap P q) := None)"
    and "sess_id (heap P' v) = sess_id (heap P v)"
    and "uid (heap P' v) = (if v = p then u else uid (heap P v))"
    by (simp_all add: keeps_core_tables [OF F] parts same)
qed

text \<open>
  A user who reconnects is lost. Another connection is bound to a user who is bound to the
  session \<open>q\<close>: \<open>Bind\<close> closes \<open>q\<close> and stores the new session under the user. The connection of
  \<open>q\<close> is down now, its read loop ends, and the deferred call there closes \<open>q\<close> once more. That call
  removes the entry of the user, which leads to the new session by then, before it comes to the guard that
  compares the session ids. The new session stays open and bound without being found under
  its user, and the session counter is one short: with the new session as the only one, \<open>CloseAll\<close> returns
  without closing it.
\<close>

theorem rebind_loses_user:
  assumes "quiet_env env" and "pool_ok P" and "live P p" and "uid (heap P p) = []" and "IsFrontend (heap P p)"
    and "GetSessionByUID P u = Some q" and "Bind env p u None cb P = (P1, None)"
    and "P2 = sess_Close env q None [] P1"
  shows "GetSessionByUID P1 u = Some p \<and> GetSessionByUID P2 u = None \<and> uid (heap P2 p) = u \<and>
    GetSessionByID P2 (sess_id (heap P2 p)) = Some p \<and>
    GetSessionCount P2 = word_of_nat (card (dom (sessionsByID P2))) - 1 \<and>
    (card (dom (sessionsByID P2)) = 1 \<longrightarrow> CloseAll env rounds P2 = Some P2)"
proof -
  have q: "sessionsByUID P u = Some q" using assms(6) by (simp add: GetSessionByUID_def)
  note taken = Bind_taken [OF assms(1,2) disjI1 [OF assms(4)] assms(5) q assms(7)]
  have u: "u \<noteq> []" and uq: "uid (heap P q) = u" and lq: "live P q"
    using pool_invD(4) [OF assms(2) q] by auto
  have ne: "q \<noteq> p" using uq u assms(4) by auto
  have "pool_ok P1"
    using Bind_inv [OF assms(1-5), of None u cb] assms(7) by (simp add: encodable_def)
  then have count: "SessionCount P1 = word_of_nat (card (dom (sessionsByID P1)))" by (rule pool_invD(6))
  have uq1: "uid (heap P1 q) = u" using uq ne by (simp add: taken)
  then have "uid (heap P1 q) = [] \<longrightarrow> sessionsByUID P1 [] = None" using u by simp
  note parts = sess_Close_parts [OF assms(1) this, of None "[]", folded assms(8)]
  have byID: "sessionsByID P2 = sessionsByID P1" by (simp add: parts taken)
  have other: "sess_id (heap P p) \<noteq> sess_id (heap P q)" using live_inject [OF assms(3) lq] ne by auto
  have "SessionCount P2 = word_of_nat (card (dom (sessionsByID P2))) - 1"
    by (simp add: parts(3) count byID)
  moreover from this have "card (dom (sessionsByID P2)) = 1 \<longrightarrow> CloseAll env rounds P2 = Some P2"
    by (intro impI CloseAll_done) (simp add: word_sless_alt)
  moreover have "GetSessionByID P2 (sess_id (heap P2 p)) = Some p"
    using assms(3) other unfolding GetSessionByID_def byID by (simp add: parts(5) taken live_def)
  moreover have "GetSessionByUID P1 u = Some p" "GetSessionByUID P2 u = None" "uid (heap P2 p) = u"
    by (simp_all add: GetSessionByUID_def parts(1,6) uq ne taken u)
  ultimately show ?thesis by (simp add: GetSessionCount_def)
qed

lemma rebind_loses_user_witness:
  "\<exists>P2. P2 = sess_Close env_example 0 None [] (bind_example 1 (connect (bind_example 0 (connect pool_start)))) \<and>
     GetSessionByUID P2 ''u'' = None \<and> uid (heap P2 1) = ''u'' \<and> GetSessionByID P2 (sess_id (heap P2 1)) = Some 1"
proof -
  let ?A = "connect pool_start" and ?B = "bind_example 0 (connect pool_start)"
  let ?P = "connect (bind_example 0 (connect pool_start))"
  have "pool_ok ?A" by (rule NewSession_inv [OF NewSessionPool_inv]) (simp add: NewSessionPool_def)
  then have "pool_ok ?B"
    by (rule Bind_inv [OF env_example_quiet]) (simp_all add: pool_eval live_def encodable_def)
  then have ok: "pool_ok ?P" by (rule NewSession_inv) (simp add: pool_eval)
  have P: "live ?P 1" "uid (heap ?P 1) = []" "IsFrontend (heap ?P 1)" "GetSessionByUID ?P ''u'' = Some 0"
    "Bind env_example 1 ''u'' None None ?P = (bind_example 1 ?P, None)"
    by (simp_all add: pool_eval live_def GetSessionByUID_def)
  from rebind_loses_user [OF env_example_quiet ok P refl] show ?thesis by simp
qed

text \<open>
  Binding a session once more to its own user closes it. \<open>Bind\<close> accepts the same user again, finds the
  entry of the user, closes the session it leads to, which is the very session being bound, and reports
  success; the user's entry then leads to a session that is closed.
\<close>

theorem rebind_same_session:
  assumes "quiet_env env" and "pool_ok P" and "live P p" and "uid (heap P p) = u" and "u \<noteq> []"
    and "IsFrontend (heap P p)" and "Bind env p u None cb P = (P', None)"
  shows "GetSessionByUID P' u = Some p \<and> GetSessionByID P' (sess_id (heap P' p)) = None"
proof -
  have p: "sessionsByUID P u = Some p" using pool_invD(5) [OF assms(2,3)] assms(4,5) by simp
  note taken = Bind_taken [OF assms(1,2) disjI2 [OF assms(4)] assms(6) p assms(7)]
  show ?thesis by (simp add: GetSessionByUID_def GetSessionByID_def taken)
qed

lemma rebind_same_session_witness:
  "GetSessionByUID (bind_example 0 (bind_example 0 (connect pool_start))) ''u'' = Some 0 \<and>
   GetSessionByID (bind_example 0 (bind_example 0 (connect pool_start)))
     (sess_id (heap (bind_example 0 (bind_example 0 (connect pool_start))) 0)) = None"
proof (rule rebind_same_session [OF env_example_quiet])
  let ?A = "connect pool_start" and ?B = "bind_example 0 (connect pool_start)"
  have "pool_ok ?A" by (rule NewSession_inv [OF NewSessionPool_inv]) (simp add: NewSessionPool_def)
  then show "pool_ok ?B"
    by (rule Bind_inv [OF env_example_quiet]) (simp_all add: pool_eval live_def encodable_def)
  show "live ?B 0" "uid (heap ?B 0) = ''u''" "IsFrontend (heap ?B 0)" "''u'' \<noteq> []"
    "Bind env_example 0 ''u'' None None ?B = (bind_example 0 ?B, None)"
    by (simp_all add: pool_eval live_def)
qed

section \<open>Backends\<close>

lemma until_error_keeps:
  assumes "\<And>f P. g (fst (run f P)) = g P"
  shows "g (fst (until_error run fs P)) = g P"
proof (induction fs arbitrary: P)
  case (Cons f fs)
  obtain Q e where run: "run f P = (Q, e)" by fastforce
  then have "g Q = g P" using assms [of f P] by simp
  then show ?case using Cons run by (cases e) auto
qed simp

text \<open>
  A backend binding that fails is taken back, a backend kick that fails is not. When a callback makes
  \<open>BindBackend\<close> fail the session is not bound to the backend afterwards. When a callback makes
  \<open>KickBackend\<close> fail, and the callbacks leave the backends of the session alone, the binding is
  gone all the same, although the code has a branch to restore it.
\<close>

theorem backend_rollback:
  assumes "GetBackendID (heap P q) svType = []" and "BindBackend env q svType svID cb P = Some (P1, Some e1)"
    and "uid (heap Q q) \<noteq> []" and "GetBackendID (heap Q q) svType \<noteq> []"
    and "\<And>f ty i c r R. backends (heap (fst (on_kick_backend env f q ty i c r R)) q) = backends (heap R q)"
    and "KickBackend env q svType cb r Q = Some (Q1, Some e2)"
  shows "GetBackendID (heap P1 q) svType = [] \<and> GetBackendID (heap Q1 q) svType = []"
proof
  show "GetBackendID (heap P1 q) svType = []"
    using assms(1,2)
    by (auto simp: BindBackend_def Let_def upd_def RemoveBackendID_def GetBackendID_def
        split: if_splits option.splits prod.splits)
  let ?run = "\<lambda>f. on_kick_backend env f q svType (GetBackendID (heap Q q) svType) cb
    (case r of [] \<Rightarrow> CloseReasonNormal | r # _ \<Rightarrow> r)"
  let ?R = "upd q (RemoveBackendID svType) Q"
  have keeps: "backends (heap (fst (until_error ?run fs R)) q) = backends (heap R q)" for fs R
    by (rule until_error_keeps) (rule assms(5))
  obtain Q2 e where first: "until_error ?run (kickBackendCallbacks ?R) ?R = (Q2, e)" by fastforce
  have Q2: "backends (heap Q2 q) = backends (heap ?R q)"
    using keeps [of "kickBackendCallbacks ?R" ?R] first by simp
  have "backends (heap Q1 q) = backends (heap Q2 q)"
  proof (cases e)
    case None
    then have "until_error ?run (afterKickBackendCallbacks Q2) Q2 = (Q1, Some e2)"
      using assms(3,4,6) first by (simp add: KickBackend_def Let_def)
    then show ?thesis using keeps [of "afterKickBackendCallbacks Q2" Q2] by simp
  next
    case (Some x)
    then show ?thesis using assms(3,4,6) first by (simp add: KickBackend_def Let_def)
  qed
  with Q2 show "GetBackendID (heap Q1 q) svType = []"
    by (simp add: GetBackendID_def RemoveBackendID_def upd_def)
qed

definition env_failing :: "(string \<Rightarrow> string \<rightharpoonup> string) pool_env" where
  "env_failing = env_example
     \<lparr>on_bind_backend := (\<lambda>f q ty i cb P. (P, Some ErrDeveloperLogicFatal)),
      on_kick_backend := (\<lambda>f q ty i cb r P. (P, Some ErrDeveloperLogicFatal))\<rparr>"

lemma backend_rollback_witness:
  "\<exists>Q Q1. GetBackendID (heap Q 0) ''game'' = ''g1'' \<and>
     KickBackend env_failing 0 ''game'' None [] Q = Some (Q1, Some ErrDeveloperLogicFatal) \<and>
     GetBackendID (heap Q1 0) ''game'' = []"
proof -
  define P where "P = OnKickBackend 1 (OnBindBackend 1 (bind_example 0 (connect pool_start)))"
  define Q where "Q = upd 0 (\<lambda>s. the (SetBackendID ''game'' ''g1'' s)) P"
  have P: "heap P 0 = bound_to ''u'' (new_session 1 0 0 True)" "kickBackendCallbacks P = [1]"
    "bindBackendCallbacks P = [1]"
    by (simp_all add: P_def OnKickBackend_def OnBindBackend_def add_callback_def pool_eval)
  have Q: "heap Q 0 = the (SetBackendID ''game'' ''g1'' (heap P 0))" "kickBackendCallbacks Q = [1]"
    by (simp_all add: Q_def upd_def P)
  have 1: "GetBackendID (heap P 0) ''game'' = []" "GetBackendID (heap Q 0) ''game'' = ''g1''" "uid (heap Q 0) \<noteq> []"
    by (simp_all add: Q P bound_to_def new_session_def GetBackendID_def SetBackendID_def)
  obtain P1 where bind: "BindBackend env_failing 0 ''game'' ''g1'' None P = Some (P1, Some ErrDeveloperLogicFatal)"
    using 1 by (simp add: BindBackend_def SetBackendID_def new_session_def Let_def upd_def P env_failing_def env_example_def bound_to_def)
  obtain Q1 where kick: "KickBackend env_failing 0 ''game'' None [] Q = Some (Q1, Some ErrDeveloperLogicFatal)"
    using 1 by (simp add: KickBackend_def Let_def upd_def Q env_failing_def env_example_def)
  have "GetBackendID (heap Q 0) ''game'' \<noteq> []" using 1 by simp
  from backend_rollback [OF 1(1) bind 1(3) this _ kick] have "GetBackendID (heap Q1 0) ''game'' = []"
    by (simp add: env_failing_def)
  then show ?thesis using kick 1 by blast
qed

end
