(* ===== verification/Service_Discovery.thy ===== *)
theory Service_Discovery
  imports Go_Values
begin

text \<open>
  The service discovery on etcd (\<open>cluster/server.go\<close>, \<open>cluster/etcd_service_discovery.go\<close>). A
  server keeps three caches of the servers registered in etcd: by id, by type, and a
  consistent hash of the ids of each type. A snapshot of the registry replaces the caches, a watch
  response changes them one event at a time, and the listeners are told of the changes. The caches agree with
  one another under any sequence of the two, they hold the registry after a snapshot, and
  following the events of a watch leads to the same caches as a new snapshot.
\<close>

section \<open>Servers\<close>

record server =
  sv_ID :: string
  sv_Type :: string
  sv_Metadata :: "string gomap"
  sv_Frontend :: bool
  sv_Hostname :: string
  sv_SessionStickiness :: bool
  sv_Subscribe :: "bool option gomap"

definition NewServer :: "string \<Rightarrow> string \<Rightarrow> string \<Rightarrow> bool \<Rightarrow> string gomap list \<Rightarrow> server" where
  "NewServer hostname ident serverType frontend metadata =
     \<lparr>sv_ID = ident, sv_Type = serverType,
      sv_Metadata = (case metadata of [] \<Rightarrow> Some Map.empty | d # _ \<Rightarrow> d),
      sv_Frontend = frontend, sv_Hostname = hostname, sv_SessionStickiness = False,
      sv_Subscribe = Some Map.empty\<rparr>"

definition server_fix :: "server \<Rightarrow> server" where
  "server_fix s =
     (let s = (if sv_Metadata s = None then s\<lparr>sv_Metadata := Some Map.empty\<rparr> else s)
      in if sv_Subscribe s = None then s\<lparr>sv_Subscribe := Some Map.empty\<rparr> else s)"

definition AddSubscribe :: "string \<Rightarrow> string \<Rightarrow> bool \<Rightarrow> server \<Rightarrow> server option" where
  "AddSubscribe service meth fork s =
     map_option (\<lambda>m. s\<lparr>sv_Subscribe := m\<rparr>) (map_set (sv_Subscribe s) (service @ ''-'' @ meth) (Some fork))"

definition GetSubscribe :: "string \<Rightarrow> string \<Rightarrow> server \<Rightarrow> bool option" where
  "GetSubscribe service meth s =
     (case map_get (sv_Subscribe s) (service @ ''-'' @ meth) of None \<Rightarrow> None | Some item \<Rightarrow> item)"

text \<open>
  The consistent hash of go-zero and the JSON form of a server are parameters. The hash is
  used as a set of nodes that answers a key with one of them.
\<close>

record 'h sd_env =
  ch_New :: 'h
  ch_Add :: "string \<Rightarrow> 'h \<Rightarrow> 'h"
  ch_Remove :: "string \<Rightarrow> 'h \<Rightarrow> 'h"
  ch_Get :: "string \<Rightarrow> 'h \<Rightarrow> string option"
  server_Marshal :: "server \<Rightarrow> byte list res"
  server_Unmarshal :: "byte list \<Rightarrow> server option res"

definition hash_laws :: "'h sd_env \<Rightarrow> ('h \<Rightarrow> string set) \<Rightarrow> bool" where
  "hash_laws env nodes \<longleftrightarrow>
     nodes (ch_New env) = {} \<and>
     (\<forall>n h. nodes (ch_Add env n h) = insert n (nodes h)) \<and>
     (\<forall>n h. nodes (ch_Remove env n h) = nodes h - {n}) \<and>
     (\<forall>k h n. ch_Get env k h = Some n \<longrightarrow> n \<in> nodes h) \<and>
     (\<forall>k h. ch_Get env k h = None \<longrightarrow> nodes h = {})"

lemma hash_lawsD:
  assumes "hash_laws env nodes"
  shows "nodes (ch_New env) = {}" and "nodes (ch_Add env n h) = insert n (nodes h)"
    and "nodes (ch_Remove env n h) = nodes h - {n}"
    and "ch_Get env k h = Some n \<Longrightarrow> n \<in> nodes h" and "ch_Get env k h = None \<Longrightarrow> nodes h = {}"
  using assms by (auto simp: hash_laws_def)

definition AsJSONString :: "'h sd_env \<Rightarrow> server \<Rightarrow> byte list" where
  "AsJSONString env s = (case server_Marshal env s of Inl e \<Rightarrow> [] | Inr b \<Rightarrow> b)"

section \<open>The caches\<close>

datatype sd_action = ADD | DEL | Modify

record server_change =
  ch_action :: sd_action
  ch_server :: server
  ch_old :: "server option"

text \<open>The field \<open>sd_calls\<close> records the calls to the listeners, the latest first.\<close>

record 'h sd =
  serverMapByType :: "string \<rightharpoonup> (string \<rightharpoonup> server)"
  serverMapByID :: "string \<rightharpoonup> server"
  consistentHash :: "string \<rightharpoonup> 'h"
  sd_server :: server
  listeners :: "nat list"
  serverTypesBlacklist :: "string list"
  appliedRevision :: i64
  sd_ctx_Err :: "goerr option"
  leaderID :: string
  sd_calls :: "(nat \<times> sd_action \<times> server \<times> server option) list"

definition NewEtcdServiceDiscovery :: "string list \<Rightarrow> server \<Rightarrow> 'h sd" where
  "NewEtcdServiceDiscovery blacklist self =
     \<lparr>serverMapByType = Map.empty, serverMapByID = Map.empty, consistentHash = Map.empty,
      sd_server = self, listeners = [], serverTypesBlacklist = blacklist, appliedRevision = 0,
      sd_ctx_Err = None, leaderID = [], sd_calls = []\<rparr>"

definition AddListener :: "nat \<Rightarrow> 'h sd \<Rightarrow> 'h sd" where
  "AddListener l sd = sd\<lparr>listeners := listeners sd @ [l]\<rparr>"

definition notifyListeners :: "sd_action \<Rightarrow> server \<Rightarrow> server option \<Rightarrow> 'h sd \<Rightarrow> 'h sd" where
  "notifyListeners act sv old sd =
     fold (\<lambda>l sd. sd\<lparr>sd_calls := (l, act, sv, if act = Modify then old else None) # sd_calls sd\<rparr>) (listeners sd) sd"

fun notifyChanges :: "server_change list \<Rightarrow> 'h sd \<Rightarrow> 'h sd" where
  "notifyChanges [] sd = sd"
| "notifyChanges (c # cs) sd =
     notifyChanges cs
       (if ch_action c = DEL \<or> sv_ID (ch_server c) \<noteq> sv_ID (sd_server sd)
        then notifyListeners (ch_action c) (ch_server c) (ch_old c) sd else sd)"

definition getKey :: "string \<Rightarrow> string \<Rightarrow> string" where
  "getKey serverID serverType = ''servers/'' @ serverType @ ''/'' @ serverID"

definition parseEtcdKey :: "string \<Rightarrow> (string \<times> string) res" where
  "parseEtcdKey key =
     (case split_on CHR ''/'' key of
        [a, ty, ident] \<Rightarrow>
          if a \<noteq> ''servers'' \<or> ty = [] \<or> ident = [] then Inl (ErrNew ''error parsing etcd key'') else Inr (ty, ident)
      | _ \<Rightarrow> Inl (ErrNew ''error parsing etcd key''))"

definition parseServer :: "'h sd_env \<Rightarrow> byte list \<Rightarrow> server res" where
  "parseServer env v =
     (case server_Unmarshal env v of
        Inl e \<Rightarrow> Inl e
      | Inr None \<Rightarrow> Inl (ErrNew ''invalid server registration'')
      | Inr (Some sv) \<Rightarrow>
          if sv_ID sv = [] \<or> sv_Type sv = [] then Inl (ErrNew ''invalid server registration'')
          else Inr (server_fix sv))"

definition isServerTypeBlacklisted :: "string \<Rightarrow> 'h sd \<Rightarrow> bool" where
  "isServerTypeBlacklisted ty sd \<longleftrightarrow> ty \<in> set (serverTypesBlacklist sd)"

subsection \<open>Storing and removing one server\<close>

definition removeServerLocked :: "'h sd_env \<Rightarrow> server \<Rightarrow> 'h sd \<Rightarrow> 'h sd \<times> server_change" where
  "removeServerLocked env sv sd =
     (let sd = sd\<lparr>serverMapByID := (serverMapByID sd)(sv_ID sv := None)\<rparr>;
          sd = (case serverMapByType sd (sv_Type sv) of
                  None \<Rightarrow> sd
                | Some m \<Rightarrow> sd\<lparr>serverMapByType := (serverMapByType sd)(sv_Type sv \<mapsto> m(sv_ID sv := None))\<rparr>);
          sd = (case consistentHash sd (sv_Type sv) of
                  None \<Rightarrow> sd
                | Some h \<Rightarrow> sd\<lparr>consistentHash := (consistentHash sd)(sv_Type sv \<mapsto> ch_Remove env (sv_ID sv) h)\<rparr>)
      in (sd, \<lparr>ch_action = DEL, ch_server = sv, ch_old = None\<rparr>))"

definition storeServerLocked :: "'h sd_env \<Rightarrow> server \<Rightarrow> 'h sd \<Rightarrow> 'h sd \<times> server_change" where
  "storeServerLocked env sv sd =
     (let (sd, change) =
            (case serverMapByID sd (sv_ID sv) of
               None \<Rightarrow> (sd, \<lparr>ch_action = ADD, ch_server = sv, ch_old = None\<rparr>)
             | Some previous \<Rightarrow>
                 (if sv_Type previous \<noteq> sv_Type sv then fst (removeServerLocked env previous sd) else sd,
                  \<lparr>ch_action = Modify, ch_server = sv, ch_old = Some previous\<rparr>));
          sd = sd\<lparr>serverMapByID := (serverMapByID sd)(sv_ID sv \<mapsto> sv)\<rparr>;
          m = (case serverMapByType sd (sv_Type sv) of None \<Rightarrow> Map.empty | Some m \<Rightarrow> m);
          sd = sd\<lparr>serverMapByType := (serverMapByType sd)(sv_Type sv \<mapsto> m(sv_ID sv \<mapsto> sv))\<rparr>;
          sd = (if sv_ID sv \<noteq> sv_ID (sd_server sd)
                then let h = (case consistentHash sd (sv_Type sv) of None \<Rightarrow> ch_New env | Some h \<Rightarrow> h)
                     in sd\<lparr>consistentHash := (consistentHash sd)(sv_Type sv \<mapsto> ch_Add env (sv_ID sv) h)\<rparr>
                else sd)
      in (sd, change))"

subsection \<open>A snapshot\<close>

text \<open>
  The loop over the keys of the snapshot. A registration that is not valid keeps the last valid one of
  its server.
\<close>

definition snapshot_server :: "'h sd_env \<Rightarrow> string \<Rightarrow> string \<Rightarrow> byte list \<Rightarrow> server res" where
  "snapshot_server env ty ident v =
     (case parseServer env v of
        Inl e \<Rightarrow> Inl e
      | Inr sv \<Rightarrow> if sv_ID sv \<noteq> ident \<or> sv_Type sv \<noteq> ty
                  then Inl (ErrNew ''registration does not match key'') else Inr sv)"

fun collect_servers ::
  "'h sd_env \<Rightarrow> 'h sd \<Rightarrow> (string \<times> byte list) list \<Rightarrow> (string \<rightharpoonup> server) \<Rightarrow> (string \<rightharpoonup> server)" where
  "collect_servers env sd [] servers = servers"
| "collect_servers env sd ((k, v) # kvs) servers =
     (case parseEtcdKey k of
        Inl e \<Rightarrow> collect_servers env sd kvs servers
      | Inr (ty, ident) \<Rightarrow>
          if isServerTypeBlacklisted ty sd \<and> ident \<noteq> sv_ID (sd_server sd) then collect_servers env sd kvs servers
          else (case snapshot_server env ty ident v of
                  Inl e \<Rightarrow>
                    (case serverMapByID sd ident of
                       Some old \<Rightarrow> collect_servers env sd kvs (servers(ident \<mapsto> old))
                     | None \<Rightarrow> collect_servers env sd kvs servers)
                | Inr sv \<Rightarrow> collect_servers env sd kvs (servers(ident \<mapsto> sv))))"

text \<open>The two loops that bring the caches up to date, in the orders \<open>ks\<close> and \<open>rs\<close> of their maps.\<close>

fun store_changed ::
  "'h sd_env \<Rightarrow> (string \<rightharpoonup> server) \<Rightarrow> string list \<Rightarrow> 'h sd \<Rightarrow> 'h sd \<times> server_change list" where
  "store_changed env servers [] sd = (sd, [])"
| "store_changed env servers (k # ks) sd =
     (let sv = the (servers k) in
      if serverMapByID sd k = Some sv then store_changed env servers ks sd
      else let (sd, c) = storeServerLocked env sv sd;
               (sd, cs) = store_changed env servers ks sd
           in (sd, c # cs))"

fun remove_gone ::
  "'h sd_env \<Rightarrow> (string \<rightharpoonup> server) \<Rightarrow> string list \<Rightarrow> 'h sd \<Rightarrow> 'h sd \<times> server_change list" where
  "remove_gone env servers [] sd = (sd, [])"
| "remove_gone env servers (k # ks) sd =
     (case serverMapByID sd k of
        None \<Rightarrow> remove_gone env servers ks sd
      | Some sv \<Rightarrow>
          if servers k = None
          then let (sd, c) = removeServerLocked env sv sd;
                   (sd, cs) = remove_gone env servers ks sd
               in (sd, c # cs)
          else remove_gone env servers ks sd)"

definition syncServersLocked ::
  "'h sd_env \<Rightarrow> (i64 \<times> (string \<times> byte list) list) res \<Rightarrow> string list \<Rightarrow> string list \<Rightarrow> 'h sd \<Rightarrow> 'h sd \<times> goerr option" where
  "syncServersLocked env snapshot ks rs sd =
     (case snapshot of
        Inl e \<Rightarrow> (sd, Some e)
      | Inr (revision, kvs) \<Rightarrow>
          (case sd_ctx_Err sd of
             Some e \<Rightarrow> (sd, Some e)
           | None \<Rightarrow>
               if revision <s appliedRevision sd then (sd, None)
               else
                 let servers = collect_servers env sd kvs Map.empty;
                     (sd, stored) = store_changed env servers ks sd;
                     (sd, removed) = remove_gone env servers rs sd;
                     sd = sd\<lparr>appliedRevision := revision\<rparr>
                 in (notifyChanges (stored @ removed) sd, None)))"

subsection \<open>A watch response\<close>

datatype sd_event = EventPut i64 string "byte list" | EventDelete i64 string

fun event_revision :: "sd_event \<Rightarrow> i64" where
  "event_revision (EventPut r k v) = r"
| "event_revision (EventDelete r k) = r"

definition apply_put ::
  "'h sd_env \<Rightarrow> string \<Rightarrow> byte list \<Rightarrow> 'h sd \<Rightarrow> 'h sd \<times> server_change list" where
  "apply_put env k v sd =
     (case parseEtcdKey k of
        Inl e \<Rightarrow> (sd, [])
      | Inr (ty, ident) \<Rightarrow>
          if isServerTypeBlacklisted ty sd \<and> ident \<noteq> sv_ID (sd_server sd) then (sd, [])
          else (case parseServer env v of
                  Inl e \<Rightarrow> (sd, [])
                | Inr sv \<Rightarrow> if sv_ID sv \<noteq> ident \<or> sv_Type sv \<noteq> ty then (sd, [])
                            else let (sd, c) = storeServerLocked env sv sd in (sd, [c])))"

definition apply_delete :: "'h sd_env \<Rightarrow> string \<Rightarrow> 'h sd \<Rightarrow> 'h sd \<times> server_change list" where
  "apply_delete env k sd =
     (case parseEtcdKey k of
        Inl e \<Rightarrow> (sd, [])
      | Inr (ty, ident) \<Rightarrow>
          if isServerTypeBlacklisted ty sd \<and> ident \<noteq> sv_ID (sd_server sd) then (sd, [])
          else (case serverMapByID sd ident of
                  None \<Rightarrow> (sd, [])
                | Some old \<Rightarrow> let (sd, c) = removeServerLocked env old sd in (sd, [c])))"

fun apply_event :: "'h sd_env \<Rightarrow> sd_event \<Rightarrow> 'h sd \<Rightarrow> 'h sd \<times> server_change list" where
  "apply_event env (EventPut r k v) sd = apply_put env k v sd"
| "apply_event env (EventDelete r k) sd = apply_delete env k sd"

fun apply_events ::
  "'h sd_env \<Rightarrow> i64 \<Rightarrow> sd_event list \<Rightarrow> i64 \<Rightarrow> 'h sd \<Rightarrow> 'h sd \<times> i64 \<times> server_change list" where
  "apply_events env boundary [] revision sd = (sd, revision, [])"
| "apply_events env boundary (e # es) revision sd =
     (if event_revision e \<le>s boundary then apply_events env boundary es revision sd
      else
        let revision = (if revision <s event_revision e then event_revision e else revision);
            (sd, c) = apply_event env e sd;
            (sd, revision, cs) = apply_events env boundary es revision sd
        in (sd, revision, c @ cs))"

definition applyWatchResponse :: "'h sd_env \<Rightarrow> sd_event list \<Rightarrow> 'h sd \<Rightarrow> 'h sd" where
  "applyWatchResponse env events sd =
     (if sd_ctx_Err sd \<noteq> None then sd
      else
        let boundary = appliedRevision sd;
            (sd, revision, changes) = apply_events env boundary events boundary sd
        in notifyChanges changes (sd\<lparr>appliedRevision := revision\<rparr>))"

section \<open>Looking up servers\<close>

definition GetServersByType :: "string \<Rightarrow> 'h sd \<Rightarrow> (string \<rightharpoonup> server) res" where
  "GetServersByType ty sd =
     (case serverMapByType sd ty of
        None \<Rightarrow> Inl ErrNoServersAvailableOfType
      | Some m \<Rightarrow> if m = Map.empty then Inl ErrNoServersAvailableOfType else Inr m)"

definition GetConsistentHashNode :: "'h sd_env \<Rightarrow> string \<Rightarrow> string \<Rightarrow> 'h sd \<Rightarrow> string res" where
  "GetConsistentHashNode env ty sessionID sd =
     (case consistentHash sd ty of
        None \<Rightarrow> Inl ErrServerNotFound
      | Some h \<Rightarrow> (case ch_Get env sessionID h of None \<Rightarrow> Inl ErrServerNotFound | Some n \<Rightarrow> Inr n))"

definition GetServers :: "string list \<Rightarrow> 'h sd \<Rightarrow> server list" where
  "GetServers ks sd = map (\<lambda>k. the (serverMapByID sd k)) ks"

definition GetAnyFrontend :: "string list \<Rightarrow> 'h sd \<Rightarrow> server res" where
  "GetAnyFrontend ks sd =
     (case find sv_Frontend (map (\<lambda>k. the (serverMapByID sd k)) ks) of
        None \<Rightarrow> Inl (ErrNew ''not found any frontend'')
      | Some sv \<Rightarrow> Inr sv)"

text \<open>One server of each type: \<open>order\<close> gives the order in which the map of a type is visited.\<close>

definition GetServerTypes :: "((string \<rightharpoonup> server) \<Rightarrow> string list) \<Rightarrow> 'h sd \<Rightarrow> (string \<rightharpoonup> server)" where
  "GetServerTypes order sd =
     (\<lambda>ty. case serverMapByType sd ty of
             None \<Rightarrow> None
           | Some m \<Rightarrow> (case order m of [] \<Rightarrow> None | k # _ \<Rightarrow> m k))"

definition GetServer :: "string \<Rightarrow> 'h sd \<Rightarrow> server res" where
  "GetServer ident sd =
     (case serverMapByID sd ident of None \<Rightarrow> Inl ErrNoServerWithID | Some sv \<Rightarrow> Inr sv)"

definition GetSelfServer :: "'h sd \<Rightarrow> server" where
  "GetSelfServer sd = sd_server sd"

definition LeaderID :: "'h sd \<Rightarrow> string" where
  "LeaderID sd = leaderID sd"

definition IsLeader :: "'h sd \<Rightarrow> bool" where
  "IsLeader sd \<longleftrightarrow> leaderID sd = sv_ID (sd_server sd)"

section \<open>The caches agree\<close>

text \<open>Reading the nested map and the hashes, where a missing entry is empty.\<close>

definition look :: "'h sd \<Rightarrow> string \<Rightarrow> string \<Rightarrow> server option" where
  "look sd ty ident = (case serverMapByType sd ty of None \<Rightarrow> None | Some m \<Rightarrow> m ident)"

definition ring :: "('h \<Rightarrow> string set) \<Rightarrow> 'h sd \<Rightarrow> string \<Rightarrow> string set" where
  "ring nodes sd ty = (case consistentHash sd ty of None \<Rightarrow> {} | Some h \<Rightarrow> nodes h)"

text \<open>
  The three caches hold the same servers: the map by id under their own ids, the map by type under
  their types, and the hash of a type all of its servers but the own one.
\<close>

definition tables_ok :: "'h sd \<Rightarrow> bool" where
  "tables_ok sd \<longleftrightarrow>
     (\<forall>ident sv. serverMapByID sd ident = Some sv \<longrightarrow> sv_ID sv = ident) \<and>
     (\<forall>ty ident sv. look sd ty ident = Some sv \<longleftrightarrow> serverMapByID sd ident = Some sv \<and> sv_Type sv = ty)"

definition hash_ok :: "('h \<Rightarrow> string set) \<Rightarrow> 'h sd \<Rightarrow> bool" where
  "hash_ok nodes sd \<longleftrightarrow>
     (\<forall>ty. ring nodes sd ty =
        {ident. ident \<noteq> sv_ID (sd_server sd) \<and> (\<exists>sv. serverMapByID sd ident = Some sv \<and> sv_Type sv = ty)})"

lemma tables_okD:
  assumes "tables_ok sd"
  shows "serverMapByID sd ident = Some sv \<Longrightarrow> sv_ID sv = ident"
    and "look sd ty ident = Some sv \<longleftrightarrow> serverMapByID sd ident = Some sv \<and> sv_Type sv = ty"
  using assms by (auto simp: tables_ok_def)

lemma tables_okI:
  assumes "\<And>ident sv. serverMapByID sd ident = Some sv \<Longrightarrow> sv_ID sv = ident"
    and "\<And>ty ident sv. look sd ty ident = Some sv \<longleftrightarrow> serverMapByID sd ident = Some sv \<and> sv_Type sv = ty"
  shows "tables_ok sd"
  unfolding tables_ok_def using assms by blast

lemma hash_okD:
  "hash_ok nodes sd \<Longrightarrow> ring nodes sd ty =
     {ident. ident \<noteq> sv_ID (sd_server sd) \<and> (\<exists>sv. serverMapByID sd ident = Some sv \<and> sv_Type sv = ty)}"
  by (simp add: hash_ok_def)

subsection \<open>Removing\<close>

lemma remove_parts:
  fixes env sv and sd :: "'h sd"
  defines "sd' \<equiv> fst (removeServerLocked env sv sd)"
  shows "serverMapByID sd' = (serverMapByID sd)(sv_ID sv := None)"
    and "look sd' ty ident = (if ty = sv_Type sv \<and> ident = sv_ID sv then None else look sd ty ident)"
    and "sd_server sd' = sd_server sd" and "serverTypesBlacklist sd' = serverTypesBlacklist sd"
    and "appliedRevision sd' = appliedRevision sd" and "sd_ctx_Err sd' = sd_ctx_Err sd"
  by (cases "serverMapByType sd (sv_Type sv)"; cases "consistentHash sd (sv_Type sv)";
      simp add: sd'_def removeServerLocked_def Let_def look_def)+

lemma remove_ring:
  assumes "hash_laws env nodes"
  shows "ring nodes (fst (removeServerLocked env sv sd)) ty =
    (if ty = sv_Type sv then ring nodes sd ty - {sv_ID sv} else ring nodes sd ty)"
  by (cases "serverMapByType sd (sv_Type sv)"; cases "consistentHash sd (sv_Type sv)";
      simp add: removeServerLocked_def Let_def ring_def hash_lawsD [OF assms])

lemma remove_tables_ok:
  assumes ok: "tables_ok sd" and sv: "serverMapByID sd (sv_ID sv) = Some sv"
  shows "tables_ok (fst (removeServerLocked env sv sd))"
proof (rule tables_okI)
  fix ident x assume "serverMapByID (fst (removeServerLocked env sv sd)) ident = Some x"
  then show "sv_ID x = ident"
    by (intro tables_okD(1) [OF ok]) (simp add: remove_parts split: if_splits)
next
  fix ty ident x
  show "look (fst (removeServerLocked env sv sd)) ty ident = Some x \<longleftrightarrow>
      serverMapByID (fst (removeServerLocked env sv sd)) ident = Some x \<and> sv_Type x = ty"
    using sv by (cases "ident = sv_ID sv") (auto simp: remove_parts tables_okD(2) [OF ok])
qed

lemma remove_hash_ok:
  assumes "hash_laws env nodes" and ok: "hash_ok nodes sd" and sv: "serverMapByID sd (sv_ID sv) = Some sv"
  shows "hash_ok nodes (fst (removeServerLocked env sv sd))"
  unfolding hash_ok_def remove_parts remove_ring [OF assms(1)] hash_okD [OF ok]
  using sv by auto

subsection \<open>Storing\<close>

text \<open>Storing is removing an entry of another type, then adding.\<close>

definition add_server :: "'h sd_env \<Rightarrow> server \<Rightarrow> 'h sd \<Rightarrow> 'h sd" where
  "add_server env sv sd =
     (let sd = sd\<lparr>serverMapByID := (serverMapByID sd)(sv_ID sv \<mapsto> sv)\<rparr>;
          m = (case serverMapByType sd (sv_Type sv) of None \<Rightarrow> Map.empty | Some m \<Rightarrow> m);
          sd = sd\<lparr>serverMapByType := (serverMapByType sd)(sv_Type sv \<mapsto> m(sv_ID sv \<mapsto> sv))\<rparr>
      in (if sv_ID sv \<noteq> sv_ID (sd_server sd)
          then let h = (case consistentHash sd (sv_Type sv) of None \<Rightarrow> ch_New env | Some h \<Rightarrow> h)
               in sd\<lparr>consistentHash := (consistentHash sd)(sv_Type sv \<mapsto> ch_Add env (sv_ID sv) h)\<rparr>
          else sd))"

definition clear_other :: "'h sd_env \<Rightarrow> server \<Rightarrow> 'h sd \<Rightarrow> 'h sd" where
  "clear_other env sv sd =
     (case serverMapByID sd (sv_ID sv) of
        None \<Rightarrow> sd
      | Some previous \<Rightarrow>
          if sv_Type previous \<noteq> sv_Type sv then fst (removeServerLocked env previous sd) else sd)"

lemma store_eq: "fst (storeServerLocked env sv sd) = add_server env sv (clear_other env sv sd)"
  by (cases "serverMapByID sd (sv_ID sv)")
    (simp_all add: storeServerLocked_def add_server_def clear_other_def Let_def)

lemma add_parts:
  fixes env sv and sd :: "'h sd"
  defines "sd' \<equiv> add_server env sv sd"
  shows "serverMapByID sd' = (serverMapByID sd)(sv_ID sv \<mapsto> sv)"
    and "look sd' ty ident = (if ty = sv_Type sv \<and> ident = sv_ID sv then Some sv else look sd ty ident)"
    and "sd_server sd' = sd_server sd" and "serverTypesBlacklist sd' = serverTypesBlacklist sd"
    and "appliedRevision sd' = appliedRevision sd" and "sd_ctx_Err sd' = sd_ctx_Err sd"
  by (cases "serverMapByType sd (sv_Type sv)"; simp add: sd'_def add_server_def Let_def look_def)+

lemma add_ring:
  assumes "hash_laws env nodes"
  shows "ring nodes (add_server env sv sd) ty =
    (if ty = sv_Type sv \<and> sv_ID sv \<noteq> sv_ID (sd_server sd) then insert (sv_ID sv) (ring nodes sd ty) else ring nodes sd ty)"
  by (cases "serverMapByType sd (sv_Type sv)"; cases "consistentHash sd (sv_Type sv)";
      simp add: add_server_def Let_def ring_def hash_lawsD [OF assms])

lemma clear_other_parts:
  assumes ok: "tables_ok sd"
  shows "tables_ok (clear_other env sv sd)"
    and "\<And>old. serverMapByID (clear_other env sv sd) (sv_ID sv) = Some old \<Longrightarrow> sv_Type old = sv_Type sv"
    and "\<And>ident. ident \<noteq> sv_ID sv \<Longrightarrow> serverMapByID (clear_other env sv sd) ident = serverMapByID sd ident"
    and "sd_server (clear_other env sv sd) = sd_server sd"
    and "serverTypesBlacklist (clear_other env sv sd) = serverTypesBlacklist sd"
    and "appliedRevision (clear_other env sv sd) = appliedRevision sd"
    and "sd_ctx_Err (clear_other env sv sd) = sd_ctx_Err sd"
proof -
  let ?c = "clear_other env sv sd"
  consider "?c = sd" "\<And>old. serverMapByID sd (sv_ID sv) = Some old \<Longrightarrow> sv_Type old = sv_Type sv"
    | old where "?c = fst (removeServerLocked env old sd)" "serverMapByID sd (sv_ID sv) = Some old"
  proof (cases "\<exists>old. serverMapByID sd (sv_ID sv) = Some old \<and> sv_Type old \<noteq> sv_Type sv")
    case True
    then obtain old where "serverMapByID sd (sv_ID sv) = Some old" "sv_Type old \<noteq> sv_Type sv" by blast
    then show ?thesis using that(2) [of old] by (simp add: clear_other_def)
  next
    case False
    then show ?thesis using that(1) by (cases "serverMapByID sd (sv_ID sv)") (simp_all add: clear_other_def)
  qed
  then have "tables_ok ?c \<and> (\<forall>old. serverMapByID ?c (sv_ID sv) = Some old \<longrightarrow> sv_Type old = sv_Type sv) \<and>
    (\<forall>ident. ident \<noteq> sv_ID sv \<longrightarrow> serverMapByID ?c ident = serverMapByID sd ident) \<and>
    sd_server ?c = sd_server sd \<and> serverTypesBlacklist ?c = serverTypesBlacklist sd \<and>
    appliedRevision ?c = appliedRevision sd \<and> sd_ctx_Err ?c = sd_ctx_Err sd"
  proof cases
    case 1
    then show ?thesis using ok by simp
  next
    case 2
    have id: "sv_ID old = sv_ID sv" using tables_okD(1) [OF ok 2(2)] .
    then have "tables_ok (fst (removeServerLocked env old sd))" using remove_tables_ok [OF ok] 2(2) by simp
    then show ?thesis unfolding 2(1) remove_parts by (simp add: id)
  qed
  then show "tables_ok ?c" "\<And>old. serverMapByID ?c (sv_ID sv) = Some old \<Longrightarrow> sv_Type old = sv_Type sv"
    "\<And>ident. ident \<noteq> sv_ID sv \<Longrightarrow> serverMapByID ?c ident = serverMapByID sd ident"
    "sd_server ?c = sd_server sd" "serverTypesBlacklist ?c = serverTypesBlacklist sd"
    "appliedRevision ?c = appliedRevision sd" "sd_ctx_Err ?c = sd_ctx_Err sd"
    by simp_all
qed

lemma store_parts:
  assumes ok: "tables_ok sd"
  shows "serverMapByID (fst (storeServerLocked env sv sd)) = (serverMapByID sd)(sv_ID sv \<mapsto> sv)"
    and "sd_server (fst (storeServerLocked env sv sd)) = sd_server sd"
    and "serverTypesBlacklist (fst (storeServerLocked env sv sd)) = serverTypesBlacklist sd"
    and "appliedRevision (fst (storeServerLocked env sv sd)) = appliedRevision sd"
    and "sd_ctx_Err (fst (storeServerLocked env sv sd)) = sd_ctx_Err sd"
proof -
  show "serverMapByID (fst (storeServerLocked env sv sd)) = (serverMapByID sd)(sv_ID sv \<mapsto> sv)"
    using clear_other_parts(3) [OF ok] by (auto simp: store_eq add_parts)
qed (simp_all add: store_eq add_parts clear_other_parts [OF ok])

lemma store_tables_ok:
  assumes ok: "tables_ok sd"
  shows "tables_ok (fst (storeServerLocked env sv sd))"
proof -
  note c = clear_other_parts [OF ok, where env = env and sv = sv]
  show ?thesis unfolding store_eq
  proof (rule tables_okI)
    fix ident x assume "serverMapByID (add_server env sv (clear_other env sv sd)) ident = Some x"
    then show "sv_ID x = ident"
      using tables_okD(1) [OF c(1), of ident x] by (simp add: add_parts split: if_splits)
  next
    fix ty ident x
    have "serverMapByID (clear_other env sv sd) (sv_ID sv) = Some x \<Longrightarrow> sv_Type x = sv_Type sv" by (rule c(2))
    then show "look (add_server env sv (clear_other env sv sd)) ty ident = Some x \<longleftrightarrow>
        serverMapByID (add_server env sv (clear_other env sv sd)) ident = Some x \<and> sv_Type x = ty"
      by (cases "ident = sv_ID sv") (auto simp: add_parts tables_okD(2) [OF c(1)])
  qed
qed

lemma store_hash_ok:
  assumes laws: "hash_laws env nodes" and ok: "tables_ok sd" "hash_ok nodes sd"
  shows "hash_ok nodes (fst (storeServerLocked env sv sd))"
proof -
  note c = clear_other_parts [OF ok(1), where env = env and sv = sv]
  have "hash_ok nodes (clear_other env sv sd)"
  proof (cases "serverMapByID sd (sv_ID sv)")
    case (Some old)
    then have "serverMapByID sd (sv_ID old) = Some old" using tables_okD(1) [OF ok(1) Some] by simp
    then show ?thesis using remove_hash_ok [OF laws ok(2)] ok(2) Some by (simp add: clear_other_def)
  qed (simp add: clear_other_def ok)
  note h = hash_okD [OF this]
  let ?self = "sv_ID (sd_server sd)"
  have "(if ty = sv_Type sv \<and> sv_ID sv \<noteq> ?self
      then insert (sv_ID sv) {i. i \<noteq> ?self \<and> (\<exists>x. serverMapByID (clear_other env sv sd) i = Some x \<and> sv_Type x = ty)}
      else {i. i \<noteq> ?self \<and> (\<exists>x. serverMapByID (clear_other env sv sd) i = Some x \<and> sv_Type x = ty)}) =
      {i. i \<noteq> ?self \<and> (\<exists>x. ((serverMapByID (clear_other env sv sd))(sv_ID sv \<mapsto> sv)) i = Some x \<and> sv_Type x = ty)}" for ty
    using c(2) by (cases "ty = sv_Type sv") auto
  then show ?thesis
    unfolding hash_ok_def store_eq add_parts add_ring [OF laws] h c(4) by blast
qed

subsection \<open>Snapshots and watch responses\<close>

text \<open>What stays as it is in both loops, besides the caches.\<close>

definition same_config :: "'h sd \<Rightarrow> 'h sd \<Rightarrow> bool" where
  "same_config sd sd' \<longleftrightarrow>
     sd_server sd' = sd_server sd \<and> serverTypesBlacklist sd' = serverTypesBlacklist sd \<and>
     appliedRevision sd' = appliedRevision sd \<and> sd_ctx_Err sd' = sd_ctx_Err sd"

lemma same_config_refl [simp]: "same_config sd sd"
  by (simp add: same_config_def)

lemma same_config_trans [trans]: "same_config a b \<Longrightarrow> same_config b c \<Longrightarrow> same_config a c"
  by (simp add: same_config_def)

text \<open>The caches of \<open>sd'\<close> are consistent when those of \<open>sd\<close> are, and nothing else has changed.\<close>

definition caches_kept :: "'h sd_env \<Rightarrow> 'h sd \<Rightarrow> 'h sd \<Rightarrow> bool" where
  "caches_kept env sd sd' \<longleftrightarrow>
     tables_ok sd' \<and> same_config sd sd' \<and> (\<forall>nodes. hash_laws env nodes \<and> hash_ok nodes sd \<longrightarrow> hash_ok nodes sd')"

lemma caches_kept_refl: "tables_ok sd \<Longrightarrow> caches_kept env sd sd"
  by (simp add: caches_kept_def)

lemma caches_kept_trans: "caches_kept env a b \<Longrightarrow> caches_kept env b c \<Longrightarrow> caches_kept env a c"
  unfolding caches_kept_def using same_config_trans by blast

lemma caches_keptD: "caches_kept env sd sd' \<Longrightarrow> tables_ok sd'"
  by (simp add: caches_kept_def)

lemma remove_kept:
  assumes "tables_ok sd" and "serverMapByID sd (sv_ID sv) = Some sv"
  shows "caches_kept env sd (fst (removeServerLocked env sv sd))"
  using remove_tables_ok [OF assms] remove_hash_ok [OF _ _ assms(2)]
  unfolding caches_kept_def same_config_def remove_parts by blast

lemma store_kept:
  assumes "tables_ok sd"
  shows "caches_kept env sd (fst (storeServerLocked env sv sd))"
  using store_tables_ok [OF assms] store_hash_ok [OF _ assms]
  unfolding caches_kept_def same_config_def store_parts [OF assms] by blast

lemma store_changed_kept:
  assumes "tables_ok sd" and "\<And>k sv. servers k = Some sv \<Longrightarrow> sv_ID sv = k" and "set ks \<subseteq> dom servers"
  shows "caches_kept env sd (fst (store_changed env servers ks sd)) \<and>
    serverMapByID (fst (store_changed env servers ks sd)) =
      (\<lambda>k. if k \<in> set ks then servers k else serverMapByID sd k)"
  using assms
proof (induction ks arbitrary: sd)
  case Nil
  then show ?case by (simp add: caches_kept_refl)
next
  case (Cons k ks)
  from Cons.prems(3) obtain sv where sv: "servers k = Some sv" by auto
  have id: "sv_ID sv = k" using Cons.prems(2) [OF sv] .
  have sub: "set ks \<subseteq> dom servers" using Cons.prems(3) by simp
  show ?case
  proof (cases "serverMapByID sd k = Some sv")
    case True
    then show ?thesis using Cons.IH [OF Cons.prems(1,2) sub] sv by auto
  next
    case False
    let ?S = "fst (storeServerLocked env sv sd)"
    have kept: "caches_kept env sd ?S" using store_kept [OF Cons.prems(1)] .
    have IH: "caches_kept env ?S (fst (store_changed env servers ks ?S)) \<and>
      serverMapByID (fst (store_changed env servers ks ?S)) =
        (\<lambda>k. if k \<in> set ks then servers k else serverMapByID ?S k)"
      using Cons.IH [OF caches_keptD [OF kept] Cons.prems(2) sub] .
    have "fst (store_changed env servers (k # ks) sd) = fst (store_changed env servers ks ?S)"
      using False sv by (simp add: Let_def split: prod.splits)
    then show ?thesis
      using IH caches_kept_trans [OF kept] store_parts(1) [OF Cons.prems(1), of env sv] sv id by auto
  qed
qed

lemma remove_gone_kept:
  assumes "tables_ok sd"
  shows "caches_kept env sd (fst (remove_gone env servers rs sd)) \<and>
    serverMapByID (fst (remove_gone env servers rs sd)) =
      (\<lambda>k. if k \<in> set rs \<and> servers k = None then None else serverMapByID sd k)"
  using assms
proof (induction rs arbitrary: sd)
  case Nil
  then show ?case by (simp add: caches_kept_refl)
next
  case (Cons k rs)
  show ?case
  proof (cases "serverMapByID sd k = None \<or> servers k \<noteq> None")
    case True
    then have "fst (remove_gone env servers (k # rs) sd) = fst (remove_gone env servers rs sd)"
      by (auto split: option.splits)
    then show ?thesis using Cons.IH [OF Cons.prems] True by (auto simp: fun_eq_iff)
  next
    case False
    then obtain sv where sv: "serverMapByID sd k = Some sv" and none: "servers k = None" by auto
    have id: "sv_ID sv = k" using tables_okD(1) [OF Cons.prems sv] .
    let ?R = "fst (removeServerLocked env sv sd)"
    have kept: "caches_kept env sd ?R" using remove_kept [OF Cons.prems] sv id by simp
    have IH: "caches_kept env ?R (fst (remove_gone env servers rs ?R)) \<and>
      serverMapByID (fst (remove_gone env servers rs ?R)) =
        (\<lambda>k. if k \<in> set rs \<and> servers k = None then None else serverMapByID ?R k)"
      using Cons.IH [OF caches_keptD [OF kept]] .
    have "fst (remove_gone env servers (k # rs) sd) = fst (remove_gone env servers rs ?R)"
      using sv none by (simp add: Let_def split: prod.splits)
    then show ?thesis
      using IH caches_kept_trans [OF kept] none by (auto simp: remove_parts id)
  qed
qed

lemma notify_parts:
  "serverMapByID (notifyChanges cs sd) = serverMapByID sd"
  "serverMapByType (notifyChanges cs sd) = serverMapByType sd"
  "consistentHash (notifyChanges cs sd) = consistentHash sd"
  "sd_server (notifyChanges cs sd) = sd_server sd"
  "serverTypesBlacklist (notifyChanges cs sd) = serverTypesBlacklist sd"
  "appliedRevision (notifyChanges cs sd) = appliedRevision sd"
  "sd_ctx_Err (notifyChanges cs sd) = sd_ctx_Err sd"
proof -
  have fold: "serverMapByID (fold f ls sd) = serverMapByID sd \<and> serverMapByType (fold f ls sd) = serverMapByType sd \<and>
    consistentHash (fold f ls sd) = consistentHash sd \<and> sd_server (fold f ls sd) = sd_server sd \<and>
    serverTypesBlacklist (fold f ls sd) = serverTypesBlacklist sd \<and> appliedRevision (fold f ls sd) = appliedRevision sd \<and>
    sd_ctx_Err (fold f ls sd) = sd_ctx_Err sd"
    if "f = (\<lambda>l sd. sd\<lparr>sd_calls := (l, x) # sd_calls sd\<rparr>)" for f ls x and sd :: "'a sd"
    using that by (induction ls arbitrary: sd) auto
  have "serverMapByID (notifyChanges cs sd) = serverMapByID sd \<and> serverMapByType (notifyChanges cs sd) = serverMapByType sd \<and>
    consistentHash (notifyChanges cs sd) = consistentHash sd \<and> sd_server (notifyChanges cs sd) = sd_server sd \<and>
    serverTypesBlacklist (notifyChanges cs sd) = serverTypesBlacklist sd \<and>
    appliedRevision (notifyChanges cs sd) = appliedRevision sd \<and> sd_ctx_Err (notifyChanges cs sd) = sd_ctx_Err sd"
    by (induction cs arbitrary: sd) (simp_all add: notifyListeners_def fold [OF refl])
  then show "serverMapByID (notifyChanges cs sd) = serverMapByID sd"
    "serverMapByType (notifyChanges cs sd) = serverMapByType sd"
    "consistentHash (notifyChanges cs sd) = consistentHash sd"
    "sd_server (notifyChanges cs sd) = sd_server sd"
    "serverTypesBlacklist (notifyChanges cs sd) = serverTypesBlacklist sd"
    "appliedRevision (notifyChanges cs sd) = appliedRevision sd"
    "sd_ctx_Err (notifyChanges cs sd) = sd_ctx_Err sd"
    by simp_all
qed

lemma notify_ok:
  "tables_ok (notifyChanges cs (sd\<lparr>appliedRevision := r\<rparr>)) = tables_ok sd"
  "hash_ok nodes (notifyChanges cs (sd\<lparr>appliedRevision := r\<rparr>)) = hash_ok nodes sd"
  by (simp_all add: tables_ok_def hash_ok_def look_def ring_def notify_parts)

lemma collect_ids:
  assumes "tables_ok sd" and "\<And>k sv. acc k = Some sv \<Longrightarrow> sv_ID sv = k"
    and "collect_servers env sd kvs acc k = Some sv"
  shows "sv_ID sv = k"
  using assms(2,3)
proof (induction kvs arbitrary: acc)
  case (Cons kv kvs)
  obtain key v where kv: "kv = (key, v)" by fastforce
  have upd: "sv_ID sv = k"
    if "collect_servers env sd kvs (acc(i \<mapsto> s)) k = Some sv" and "sv_ID s = i" for i s
  proof (rule Cons.IH [OF _ that(1)])
    fix x y assume "(acc(i \<mapsto> s)) x = Some y"
    then show "sv_ID y = x" using Cons.prems(1) that(2) by (cases "x = i") auto
  qed
  show ?case
  proof (cases "parseEtcdKey key")
    case (Inl e)
    then show ?thesis using Cons.IH [OF Cons.prems(1)] Cons.prems(2) kv by simp
  next
    case (Inr p)
    obtain ty i where p: "p = (ty, i)" by fastforce
    show ?thesis
    proof (cases "isServerTypeBlacklisted ty sd \<and> i \<noteq> sv_ID (sd_server sd)")
      case True
      then show ?thesis using Cons.IH [OF Cons.prems(1)] Cons.prems(2) kv Inr p by simp
    next
      case False
      note eq = kv Inr p if_not_P [OF False]
      show ?thesis
      proof (cases "snapshot_server env ty i v")
        case (Inr s)
        then have "sv_ID s = i" by (auto simp: snapshot_server_def split: sum.splits if_splits)
        then show ?thesis using upd [of i s] Cons.prems(2) by (simp add: eq Inr)
      next
        case (Inl e)
        show ?thesis
        proof (cases "serverMapByID sd i")
          case None
          then show ?thesis using Cons.IH [OF Cons.prems(1)] Cons.prems(2) by (simp add: eq Inl)
        next
          case (Some old)
          then show ?thesis
            using upd [of i old] tables_okD(1) [OF assms(1) Some] Cons.prems(2) by (simp add: eq Inl)
        qed
      qed
    qed
  qed
qed simp

text \<open>The orders in which the two loops of a snapshot may visit their maps.\<close>

definition sync_orders :: "'h sd_env \<Rightarrow> (string \<times> byte list) list \<Rightarrow> string list \<Rightarrow> string list \<Rightarrow> 'h sd \<Rightarrow> bool" where
  "sync_orders env kvs ks rs sd \<longleftrightarrow>
     (let servers = collect_servers env sd kvs Map.empty in
      enumerates ks servers \<and> enumerates rs (serverMapByID (fst (store_changed env servers ks sd))))"

lemma sync_result:
  assumes ok: "tables_ok sd" and ord: "sync_orders env kvs ks rs sd" and ctx: "sd_ctx_Err sd = None"
    and rev: "\<not> revision <s appliedRevision sd"
  defines "sd' \<equiv> fst (syncServersLocked env (Inr (revision, kvs)) ks rs sd)"
  shows "tables_ok sd'" and "serverMapByID sd' = collect_servers env sd kvs Map.empty"
    and "sd_server sd' = sd_server sd" and "serverTypesBlacklist sd' = serverTypesBlacklist sd"
    and "appliedRevision sd' = revision" and "sd_ctx_Err sd' = None"
    and "hash_laws env nodes \<Longrightarrow> hash_ok nodes sd \<Longrightarrow> hash_ok nodes sd'"
proof -
  let ?servers = "collect_servers env sd kvs Map.empty"
  let ?S = "fst (store_changed env ?servers ks sd)"
  let ?R = "fst (remove_gone env ?servers rs ?S)"
  have ids: "sv_ID sv = k" if "?servers k = Some sv" for k sv
    using collect_ids [OF ok _ that] by simp
  have ks: "set ks = dom ?servers" and rs: "set rs = dom (serverMapByID ?S)"
    using ord by (auto simp: sync_orders_def Let_def enumerates_def)
  have S: "caches_kept env sd ?S" "serverMapByID ?S = (\<lambda>k. if k \<in> set ks then ?servers k else serverMapByID sd k)"
    using store_changed_kept [OF ok ids, where env = env and ks = ks] ks by simp_all
  have R: "caches_kept env ?S ?R"
    "serverMapByID ?R = (\<lambda>k. if k \<in> set rs \<and> ?servers k = None then None else serverMapByID ?S k)"
    using remove_gone_kept [OF caches_keptD [OF S(1)], of env ?servers rs] by simp_all
  have kept: "caches_kept env sd ?R" using caches_kept_trans [OF S(1) R(1)] .
  define cs where "cs = snd (store_changed env ?servers ks sd) @ snd (remove_gone env ?servers rs ?S)"
  have sd': "sd' = notifyChanges cs (?R\<lparr>appliedRevision := revision\<rparr>)"
    using ctx rev by (simp add: sd'_def cs_def syncServersLocked_def Let_def case_prod_beta)
  have "serverMapByID ?R k = ?servers k" for k
    by (cases "?servers k") (auto simp: R(2) S(2) ks rs domIff)
  then show "serverMapByID sd' = ?servers" by (auto simp: sd' notify_parts)
  show "tables_ok sd'" using kept by (simp add: sd' notify_ok caches_kept_def)
  show "sd_server sd' = sd_server sd" "serverTypesBlacklist sd' = serverTypesBlacklist sd"
    "appliedRevision sd' = revision" "sd_ctx_Err sd' = None"
    using kept ctx by (simp_all add: sd' notify_parts caches_kept_def same_config_def)
  show "hash_laws env nodes \<Longrightarrow> hash_ok nodes sd \<Longrightarrow> hash_ok nodes sd'"
    using kept by (simp add: sd' notify_ok caches_kept_def)
qed

lemma apply_event_kept:
  assumes "tables_ok sd"
  shows "caches_kept env sd (fst (apply_event env e sd))"
proof (cases e)
  case (EventPut r k v)
  have "fst (apply_put env k v sd) = sd \<or> (\<exists>sv. fst (apply_put env k v sd) = fst (storeServerLocked env sv sd))"
    by (auto simp: apply_put_def split: sum.splits prod.splits) (metis fst_conv)+
  then show ?thesis using EventPut store_kept [OF assms] caches_kept_refl [OF assms] by auto
next
  case (EventDelete r k)
  have "fst (apply_delete env k sd) = sd \<or>
      (\<exists>i sv. serverMapByID sd i = Some sv \<and> fst (apply_delete env k sd) = fst (removeServerLocked env sv sd))"
    by (auto simp: apply_delete_def split: sum.splits prod.splits option.splits) (metis fst_conv)+
  moreover have "caches_kept env sd (fst (removeServerLocked env sv sd))" if "serverMapByID sd i = Some sv" for i sv
    using remove_kept [OF assms] that tables_okD(1) [OF assms that] by simp
  ultimately show ?thesis using EventDelete caches_kept_refl [OF assms] by auto
qed

lemma apply_events_kept:
  "tables_ok sd \<Longrightarrow> caches_kept env sd (fst (apply_events env b es r sd))"
proof (induction es arbitrary: r sd)
  case Nil
  then show ?case by (simp add: caches_kept_refl)
next
  case (Cons e es)
  show ?case
  proof (cases "event_revision e \<le>s b")
    case True
    then show ?thesis using Cons by simp
  next
    case False
    let ?E = "fst (apply_event env e sd)"
    have kept: "caches_kept env sd ?E" using apply_event_kept [OF Cons.prems] .
    have "fst (apply_events env b (e # es) r sd) =
        fst (apply_events env b es (if r <s event_revision e then event_revision e else r) ?E)"
      using False by (simp add: Let_def split: prod.splits)
    then show ?thesis using caches_kept_trans [OF kept Cons.IH [OF caches_keptD [OF kept]]] by simp
  qed
qed

lemma watch_result:
  assumes "sd_ctx_Err sd = None"
  shows "\<exists>cs r. applyWatchResponse env es sd =
    notifyChanges cs (fst (apply_events env (appliedRevision sd) es (appliedRevision sd) sd)\<lparr>appliedRevision := r\<rparr>)"
  using assms by (simp add: applyWatchResponse_def Let_def split: prod.splits) blast

lemma watch_ok:
  assumes "tables_ok sd"
  shows "tables_ok (applyWatchResponse env es sd)"
    and "hash_laws env nodes \<Longrightarrow> hash_ok nodes sd \<Longrightarrow> hash_ok nodes (applyWatchResponse env es sd)"
    and "sd_server (applyWatchResponse env es sd) = sd_server sd"
    and "serverTypesBlacklist (applyWatchResponse env es sd) = serverTypesBlacklist sd"
proof -
  let ?E = "fst (apply_events env (appliedRevision sd) es (appliedRevision sd) sd)"
  have kept: "caches_kept env sd ?E" using apply_events_kept [OF assms] .
  have "tables_ok (applyWatchResponse env es sd) \<and>
    (hash_laws env nodes \<and> hash_ok nodes sd \<longrightarrow> hash_ok nodes (applyWatchResponse env es sd)) \<and>
    sd_server (applyWatchResponse env es sd) = sd_server sd \<and>
    serverTypesBlacklist (applyWatchResponse env es sd) = serverTypesBlacklist sd"
  proof (cases "sd_ctx_Err sd = None")
    case True
    obtain cs r where "applyWatchResponse env es sd = notifyChanges cs (?E\<lparr>appliedRevision := r\<rparr>)"
      using watch_result [OF True] by blast
    then show ?thesis using kept by (simp add: notify_ok notify_parts caches_kept_def same_config_def)
  next
    case False
    then show ?thesis using assms by (simp add: applyWatchResponse_def)
  qed
  then show "tables_ok (applyWatchResponse env es sd)"
    "hash_laws env nodes \<Longrightarrow> hash_ok nodes sd \<Longrightarrow> hash_ok nodes (applyWatchResponse env es sd)"
    "sd_server (applyWatchResponse env es sd) = sd_server sd"
    "serverTypesBlacklist (applyWatchResponse env es sd) = serverTypesBlacklist sd"
    by blast+
qed

text \<open>
  What happens to the caches: snapshots in any order of their loops, snapshots that fail, watch responses
  with any events, and the end of the context.
\<close>

inductive sd_step :: "'h sd_env \<Rightarrow> 'h sd \<Rightarrow> 'h sd \<Rightarrow> bool" for env where
  sd_sync: "sync_orders env kvs ks rs sd \<Longrightarrow>
    sd_step env sd (fst (syncServersLocked env (Inr (revision, kvs)) ks rs sd))"
| sd_sync_failed: "sd_step env sd (fst (syncServersLocked env (Inl e) ks rs sd))"
| sd_watch: "sd_step env sd (applyWatchResponse env events sd)"
| sd_stop: "sd_step env sd (sd\<lparr>sd_ctx_Err := Some e\<rparr>)"

lemma sd_step_ok:
  assumes laws: "hash_laws env nodes" and "sd_step env sd sd'" and ok: "tables_ok sd" "hash_ok nodes sd"
  shows "tables_ok sd' \<and> hash_ok nodes sd'"
  using assms(2)
proof (cases rule: sd_step.cases)
  case (sd_sync kvs ks rs revision)
  show ?thesis
  proof (cases "sd_ctx_Err sd = None \<and> \<not> revision <s appliedRevision sd")
    case True
    then show ?thesis using sync_result [OF ok(1) sd_sync(2)] laws ok(2) sd_sync(1) by blast
  next
    case False
    then have "sd' = sd" using sd_sync(1) by (cases "sd_ctx_Err sd") (auto simp: syncServersLocked_def)
    then show ?thesis using ok by simp
  qed
next
  case (sd_sync_failed e ks rs)
  then show ?thesis using ok by (simp add: syncServersLocked_def)
next
  case (sd_watch events)
  then show ?thesis using watch_ok [OF ok(1)] laws ok(2) by blast
next
  case (sd_stop e)
  then show ?thesis using ok by (simp add: tables_ok_def hash_ok_def look_def ring_def)
qed

lemma sd_reach_ok:
  assumes "hash_laws env nodes" and "(sd_step env)\<^sup>*\<^sup>* (NewEtcdServiceDiscovery bl self) sd"
  shows "tables_ok sd \<and> hash_ok nodes sd"
  using assms(2)
proof (induction rule: rtranclp_induct)
  case base
  show ?case by (simp add: tables_ok_def hash_ok_def look_def ring_def NewEtcdServiceDiscovery_def)
next
  case (step y z)
  then show ?case using sd_step_ok [OF assms(1)] by blast
qed

lemma GetServer_Inr [simp]: "GetServer i sd = Inr sv \<longleftrightarrow> serverMapByID sd i = Some sv"
  by (simp add: GetServer_def split: option.splits)

text \<open>
  C18. The three caches of the service discovery agree, after any sequence of snapshots, failed
  snapshots and watch responses, whatever servers come, go, change or change their type. The servers
  of a type are exactly the servers known by id that have this type, and the error says that there
  are none. The consistent hash of a type answers with a known server of that type that is not the
  server itself, and reports an error only when there is none.
\<close>

theorem discovery_consistent:
  assumes "hash_laws env nodes" and "(sd_step env)\<^sup>*\<^sup>* (NewEtcdServiceDiscovery bl self) sd"
  shows "(\<forall>m. GetServersByType ty sd = Inr m \<longrightarrow>
            m \<noteq> Map.empty \<and> (\<forall>i sv. m i = Some sv \<longleftrightarrow> GetServer i sd = Inr sv \<and> sv_Type sv = ty)) \<and>
    (\<forall>e. GetServersByType ty sd = Inl e \<longrightarrow> (\<forall>i sv. GetServer i sd = Inr sv \<longrightarrow> sv_Type sv \<noteq> ty)) \<and>
    (\<forall>n. GetConsistentHashNode env ty s sd = Inr n \<longrightarrow>
            n \<noteq> sv_ID (GetSelfServer sd) \<and> (\<exists>sv. GetServer n sd = Inr sv \<and> sv_Type sv = ty)) \<and>
    (\<forall>e. GetConsistentHashNode env ty s sd = Inl e \<longrightarrow>
            (\<forall>i sv. GetServer i sd = Inr sv \<longrightarrow> sv_Type sv = ty \<longrightarrow> i = sv_ID (GetSelfServer sd)))"
proof -
  have ok: "tables_ok sd" "hash_ok nodes sd" using sd_reach_ok [OF assms] by simp_all
  have look: "serverMapByID sd i = Some sv \<and> sv_Type sv = ty \<longleftrightarrow>
      (case serverMapByType sd ty of None \<Rightarrow> False | Some m \<Rightarrow> m i = Some sv)" for i sv
    using tables_okD(2) [OF ok(1), of ty i sv] by (simp add: look_def split: option.splits)
  have ring: "i \<noteq> sv_ID (sd_server sd) \<and> (\<exists>sv. serverMapByID sd i = Some sv \<and> sv_Type sv = ty) \<longleftrightarrow>
      (case consistentHash sd ty of None \<Rightarrow> False | Some h \<Rightarrow> i \<in> nodes h)" for i
    using hash_okD [OF ok(2), of ty] by (auto simp: ring_def split: option.splits)
  have 1: "m \<noteq> Map.empty \<and> (\<forall>i sv. m i = Some sv \<longleftrightarrow> GetServer i sd = Inr sv \<and> sv_Type sv = ty)"
    if "GetServersByType ty sd = Inr m" for m
    using that look by (auto simp: GetServersByType_def split: option.splits if_splits)
  have 2: "sv_Type sv \<noteq> ty" if "GetServersByType ty sd = Inl e" "GetServer i sd = Inr sv" for e i sv
    using that look [of i sv] by (auto simp: GetServersByType_def split: option.splits if_splits)
  have 3: "n \<noteq> sv_ID (GetSelfServer sd) \<and> (\<exists>sv. GetServer n sd = Inr sv \<and> sv_Type sv = ty)"
    if "GetConsistentHashNode env ty s sd = Inr n" for n
    using that ring [of n] hash_lawsD(4) [OF assms(1)]
    by (auto simp: GetConsistentHashNode_def GetSelfServer_def split: option.splits)
  have 4: "i = sv_ID (GetSelfServer sd)"
    if "GetConsistentHashNode env ty s sd = Inl e" "GetServer i sd = Inr sv" "sv_Type sv = ty" for e i sv
    using that ring [of i] hash_lawsD(5) [OF assms(1)]
    by (auto simp: GetConsistentHashNode_def GetSelfServer_def split: option.splits)
  from 1 2 3 4 show ?thesis by blast
qed

text \<open>A hash that is a list of nodes, and two servers with one byte for each of their registrations.\<close>

definition game_server :: server where
  "game_server = NewServer ''host'' ''g1'' ''game'' False []"

definition chat_server :: server where
  "chat_server = NewServer ''host'' ''g1'' ''chat'' False []"

definition front_server :: server where
  "front_server = NewServer ''host'' ''f1'' ''connector'' True []"

definition sd_example :: "string list sd_env" where
  "sd_example =
     \<lparr>ch_New = [], ch_Add = (\<lambda>n h. n # removeAll n h), ch_Remove = removeAll,
      ch_Get = (\<lambda>k h. case h of [] \<Rightarrow> None | n # _ \<Rightarrow> Some n),
      server_Marshal = (\<lambda>s. if s = game_server then Inr [1] else if s = chat_server then Inr [2] else Inr [3]),
      server_Unmarshal = (\<lambda>b. if b = [1] then Inr (Some game_server) else if b = [2] then Inr (Some chat_server)
         else if b = [3] then Inr (Some front_server) else Inl (ErrExternal ''json''))\<rparr>"

lemma sd_example_laws: "hash_laws sd_example set"
  by (auto simp: hash_laws_def sd_example_def split: list.splits)

lemmas sd_eval = sd_example_def game_server_def chat_server_def front_server_def NewServer_def parseEtcdKey_def
  isServerTypeBlacklisted_def snapshot_server_def parseServer_def server_fix_def NewEtcdServiceDiscovery_def

abbreviation sd_start :: "string list sd" where
  "sd_start \<equiv> NewEtcdServiceDiscovery [] front_server"

abbreviation registry_example :: "(string \<times> byte list) list" where
  "registry_example \<equiv> [(''servers/game/g1'', [1])]"

lemma collect_example:
  "collect_servers sd_example sd_start registry_example Map.empty = [''g1'' \<mapsto> game_server]"
  by (simp add: sd_eval)

lemma sync_orders_example: "sync_orders sd_example registry_example [''g1''] [''g1''] sd_start"
proof -
  have ok: "tables_ok sd_start" by (simp add: tables_ok_def look_def NewEtcdServiceDiscovery_def)
  have "sv_ID sv = k" if "[''g1'' \<mapsto> game_server] k = Some sv" for k sv
    using that by (auto simp: game_server_def NewServer_def split: if_splits)
  from store_changed_kept [OF ok this, where ks = "[''g1'']" and env = sd_example and servers = "[''g1'' \<mapsto> game_server]"]
  have "serverMapByID (fst (store_changed sd_example [''g1'' \<mapsto> game_server] [''g1''] sd_start)) = [''g1'' \<mapsto> game_server]"
    by (simp add: fun_eq_iff NewEtcdServiceDiscovery_def del: store_changed.simps)
  then show ?thesis unfolding sync_orders_def collect_example Let_def by (simp add: enumerates_def)
qed

definition sd_synced :: "string list sd" where
  "sd_synced = fst (syncServersLocked sd_example (Inr (5, registry_example)) [''g1''] [''g1''] sd_start)"

lemma sd_synced_parts:
  "tables_ok sd_synced" "serverMapByID sd_synced = [''g1'' \<mapsto> game_server]" "sd_server sd_synced = front_server"
  "serverTypesBlacklist sd_synced = []" "appliedRevision sd_synced = 5" "sd_ctx_Err sd_synced = None"
proof -
  have ok: "tables_ok sd_start" by (simp add: tables_ok_def look_def NewEtcdServiceDiscovery_def)
  have start: "sd_ctx_Err sd_start = None" "\<not> 5 <s appliedRevision sd_start"
    by (simp_all add: NewEtcdServiceDiscovery_def word_sless_alt)
  note r = sync_result [OF ok sync_orders_example start, folded sd_synced_def]
  show "tables_ok sd_synced" "serverMapByID sd_synced = [''g1'' \<mapsto> game_server]" "sd_server sd_synced = front_server"
    "serverTypesBlacklist sd_synced = []" "appliedRevision sd_synced = 5" "sd_ctx_Err sd_synced = None"
    using r by (simp_all only: collect_example) (simp_all add: NewEtcdServiceDiscovery_def)
qed

lemma discovery_consistent_witness:
  "\<exists>sd. (sd_step sd_example)\<^sup>*\<^sup>* sd_start sd \<and> GetServer ''g1'' sd = Inr game_server \<and>
     (\<exists>m. GetServersByType ''game'' sd = Inr m \<and> m ''g1'' = Some game_server) \<and>
     GetConsistentHashNode sd_example ''game'' ''s'' sd = Inr ''g1''"
proof -
  have reach: "(sd_step sd_example)\<^sup>*\<^sup>* sd_start sd_synced"
    using sd_sync [OF sync_orders_example, of 5] unfolding sd_synced_def by blast
  have type: "sv_Type game_server = ''game''" by (simp add: game_server_def NewServer_def)
  have get: "GetServer i sd_synced = Inr sv \<longleftrightarrow> i = ''g1'' \<and> sv = game_server" for i sv
    unfolding GetServer_Inr sd_synced_parts by auto
  have self: "sv_ID (GetSelfServer sd_synced) = ''f1''"
    unfolding GetSelfServer_def sd_synced_parts(3) by (simp add: front_server_def NewServer_def)
  note c = discovery_consistent [OF sd_example_laws reach, of "''game''" "''s''", unfolded get self]
  have "\<exists>m. GetServersByType ''game'' sd_synced = Inr m \<and> m ''g1'' = Some game_server"
    using c type by (cases "GetServersByType ''game'' sd_synced") auto
  moreover have "GetConsistentHashNode sd_example ''game'' ''s'' sd_synced = Inr ''g1''"
    using c type by (cases "GetConsistentHashNode sd_example ''game'' ''s'' sd_synced") auto
  moreover have "GetServer ''g1'' sd_synced = Inr game_server" unfolding get by simp
  ultimately show ?thesis using reach by (intro exI [of _ sd_synced] conjI)
qed

section \<open>The registry\<close>

text \<open>
  What a registration in etcd says: the server under the key, unless the key or the value is not
  valid, they do not match, or the type is on the blacklist.
\<close>

definition accepted :: "'h sd_env \<Rightarrow> 'h sd \<Rightarrow> string \<Rightarrow> byte list \<Rightarrow> (string \<times> server) option" where
  "accepted env sd k v =
     (case parseEtcdKey k of
        Inl e \<Rightarrow> None
      | Inr (ty, i) \<Rightarrow>
          if isServerTypeBlacklisted ty sd \<and> i \<noteq> sv_ID (sd_server sd) then None
          else (case snapshot_server env ty i v of Inl e \<Rightarrow> None | Inr sv \<Rightarrow> Some (i, sv)))"

definition wanted :: "'h sd \<Rightarrow> string \<Rightarrow> bool" where
  "wanted sd k \<longleftrightarrow>
     (case parseEtcdKey k of
        Inl e \<Rightarrow> False
      | Inr (ty, i) \<Rightarrow> \<not> (isServerTypeBlacklisted ty sd \<and> i \<noteq> sv_ID (sd_server sd)))"

text \<open>
  A registry is in order when the registrations the server wants are valid and no two of them are for
  the same server id. The caches hold a registry when they know exactly the servers it registers.
\<close>

definition registry_ok :: "'h sd_env \<Rightarrow> 'h sd \<Rightarrow> (string \<rightharpoonup> byte list) \<Rightarrow> bool" where
  "registry_ok env sd reg \<longleftrightarrow>
     (\<forall>k v. reg k = Some v \<and> wanted sd k \<longrightarrow> accepted env sd k v \<noteq> None) \<and>
     (\<forall>k k' v v' i sv sv'. reg k = Some v \<and> reg k' = Some v' \<and> accepted env sd k v = Some (i, sv) \<and>
        accepted env sd k' v' = Some (i, sv') \<longrightarrow> k = k')"

definition holds_registry :: "'h sd_env \<Rightarrow> 'h sd \<Rightarrow> (string \<rightharpoonup> byte list) \<Rightarrow> bool" where
  "holds_registry env sd reg \<longleftrightarrow>
     (\<forall>i sv. GetServer i sd = Inr sv \<longleftrightarrow> (\<exists>k v. reg k = Some v \<and> accepted env sd k v = Some (i, sv)))"

fun reg_apply :: "sd_event \<Rightarrow> (string \<rightharpoonup> byte list) \<Rightarrow> (string \<rightharpoonup> byte list)" where
  "reg_apply (EventPut r k v) reg = reg(k \<mapsto> v)"
| "reg_apply (EventDelete r k) reg = reg(k := None)"

text \<open>Etcd reports the deletion of keys that exist.\<close>

fun event_possible :: "sd_event \<Rightarrow> (string \<rightharpoonup> byte list) \<Rightarrow> bool" where
  "event_possible (EventPut r k v) reg \<longleftrightarrow> True"
| "event_possible (EventDelete r k) reg \<longleftrightarrow> reg k \<noteq> None"

fun registries_ok :: "'h sd_env \<Rightarrow> 'h sd \<Rightarrow> sd_event list \<Rightarrow> (string \<rightharpoonup> byte list) \<Rightarrow> bool" where
  "registries_ok env sd [] reg \<longleftrightarrow> registry_ok env sd reg"
| "registries_ok env sd (e # es) reg \<longleftrightarrow>
     registry_ok env sd reg \<and> event_possible e reg \<and> registries_ok env sd es (reg_apply e reg)"

lemma registries_ok_head: "registries_ok env sd es reg \<Longrightarrow> registry_ok env sd reg"
  by (cases es) auto

lemma same_config_accepted: "same_config sd sd' \<Longrightarrow> accepted env sd' = accepted env sd"
  by (intro ext) (auto simp: accepted_def same_config_def isServerTypeBlacklisted_def split: sum.splits)

lemma same_config_wanted: "same_config sd sd' \<Longrightarrow> wanted sd' = wanted sd"
  by (intro ext) (auto simp: wanted_def same_config_def isServerTypeBlacklisted_def split: sum.splits)

lemma accepted_wanted: "accepted env sd k v = Some p \<Longrightarrow> wanted sd k"
  by (auto simp: accepted_def wanted_def split: sum.splits prod.splits if_splits)

definition put_accepted ::
  "(string \<Rightarrow> byte list \<Rightarrow> (string \<times> server) option) \<Rightarrow> string \<times> byte list \<Rightarrow> (string \<rightharpoonup> server) \<Rightarrow> (string \<rightharpoonup> server)" where
  "put_accepted acc kv m = (case acc (fst kv) (snd kv) of None \<Rightarrow> m | Some (i, sv) \<Rightarrow> m(i \<mapsto> sv))"

lemma registry_okD:
  assumes "registry_ok env sd reg"
  shows "reg k = Some v \<Longrightarrow> wanted sd k \<Longrightarrow> accepted env sd k v \<noteq> None"
    and "reg k = Some v \<Longrightarrow> reg k' = Some v' \<Longrightarrow> accepted env sd k v = Some (i, s) \<Longrightarrow>
      accepted env sd k' v' = Some (i, s') \<Longrightarrow> k = k'"
  using assms unfolding registry_ok_def by blast+

lemma collect_accepted:
  assumes "\<And>k v. (k, v) \<in> set kvs \<Longrightarrow> wanted sd k \<Longrightarrow> accepted env sd k v \<noteq> None"
  shows "collect_servers env sd kvs acc =
    fold (put_accepted (accepted env sd)) kvs acc"
  using assms
proof (induction kvs arbitrary: acc)
  case (Cons kv kvs)
  obtain k v where kv: "kv = (k, v)" by fastforce
  have IH: "collect_servers env sd kvs acc =
    fold (put_accepted (accepted env sd)) kvs acc" for acc
    using Cons by simp
  have "wanted sd k \<Longrightarrow> accepted env sd k v \<noteq> None" using Cons.prems kv by simp
  then have "collect_servers env sd ((k, v) # kvs) acc =
      collect_servers env sd kvs (put_accepted (accepted env sd) (k, v) acc)"
    by (cases "parseEtcdKey k") (auto simp: accepted_def wanted_def put_accepted_def split: sum.splits)
  then show ?case using IH kv by simp
qed simp

lemma fold_accepted:
  assumes "distinct (map fst kvs)"
    and "\<And>k k' v v' i s s'. (k, v) \<in> set kvs \<Longrightarrow> (k', v') \<in> set kvs \<Longrightarrow> acc k v = Some (i, s) \<Longrightarrow>
      acc k' v' = Some (i, s') \<Longrightarrow> k = k'"
  shows "fold (put_accepted acc) kvs m i = Some sv \<longleftrightarrow>
    (\<exists>k v. (k, v) \<in> set kvs \<and> acc k v = Some (i, sv)) \<or>
    (m i = Some sv \<and> (\<forall>k v s. (k, v) \<in> set kvs \<longrightarrow> acc k v \<noteq> Some (i, s)))"
  using assms
proof (induction kvs arbitrary: m)
  case (Cons kv kvs)
  obtain k v where kv: "kv = (k, v)" by fastforce
  have IH: "fold (put_accepted acc) kvs m i = Some sv \<longleftrightarrow>
    (\<exists>k v. (k, v) \<in> set kvs \<and> acc k v = Some (i, sv)) \<or>
    (m i = Some sv \<and> (\<forall>k v s. (k, v) \<in> set kvs \<longrightarrow> acc k v \<noteq> Some (i, s)))" for m
  proof (rule Cons.IH)
    show "distinct (map fst kvs)" using Cons.prems(1) by simp
  qed (rule Cons.prems(2), auto)
  have mem: "(k', v') \<in> set (kv # kvs) \<longleftrightarrow> (k' = k \<and> v' = v) \<or> (k', v') \<in> set kvs" for k' v'
    using kv by simp
  show ?case
  proof (cases "acc k v")
    case None
    have "fold (put_accepted acc) (kv # kvs) m = fold (put_accepted acc) kvs m"
      using None kv by (simp add: put_accepted_def)
    then show ?thesis unfolding mem using IH [of m] None by (metis option.distinct(1))
  next
    case (Some p)
    obtain j s where p: "acc k v = Some (j, s)" using Some by (cases p) auto
    have fold: "fold (put_accepted acc) (kv # kvs) m = fold (put_accepted acc) kvs (m(j \<mapsto> s))"
      using p kv by (simp add: put_accepted_def)
    have none: "acc k' v' \<noteq> Some (j, s')" if "(k', v') \<in> set kvs" for k' v' s'
    proof
      assume "acc k' v' = Some (j, s')"
      then have "k = k'" using Cons.prems(2) [of k v k' v' j s s'] p that kv by simp
      then show False using Cons.prems(1) kv that by (force simp: image_iff)
    qed
    show ?thesis
    proof (cases "i = j")
      case True
      then show ?thesis unfolding fold IH mem using none p by auto
    next
      case False
      then show ?thesis unfolding fold IH mem using p by auto
    qed
  qed
qed simp

lemma sync_holds:
  assumes ok: "tables_ok sd" and ord: "sync_orders env kvs ks rs sd" and ctx: "sd_ctx_Err sd = None"
    and rev: "\<not> revision <s appliedRevision sd"
    and reg: "registry_ok env sd (map_of kvs)" "distinct (map fst kvs)"
  defines "sd' \<equiv> fst (syncServersLocked env (Inr (revision, kvs)) ks rs sd)"
  shows "tables_ok sd'" and "holds_registry env sd' (map_of kvs)" and "accepted env sd' = accepted env sd"
    and "wanted sd' = wanted sd" and "appliedRevision sd' = revision" and "sd_ctx_Err sd' = None"
proof -
  note r = sync_result [OF ok ord ctx rev, folded sd'_def]
  show "tables_ok sd'" "appliedRevision sd' = revision" "sd_ctx_Err sd' = None" by (fact r)+
  show acc: "accepted env sd' = accepted env sd"
    by (intro ext) (auto simp: accepted_def r isServerTypeBlacklisted_def split: sum.splits)
  show "wanted sd' = wanted sd"
    by (intro ext) (auto simp: wanted_def r isServerTypeBlacklisted_def split: sum.splits)
  have in_reg: "(k, v) \<in> set kvs \<longleftrightarrow> map_of kvs k = Some v" for k v
    using reg(2) by simp
  have "serverMapByID sd' =
      fold (put_accepted (accepted env sd)) kvs Map.empty"
    unfolding r(2) by (rule collect_accepted) (use reg(1) in_reg in \<open>auto simp: registry_ok_def\<close>)
  moreover have "fold (put_accepted (accepted env sd)) kvs Map.empty i = Some sv \<longleftrightarrow>
      (\<exists>k v. (k, v) \<in> set kvs \<and> accepted env sd k v = Some (i, sv))" for i sv
  proof -
    have "k = k'" if "(k, v) \<in> set kvs" "(k', v') \<in> set kvs" "accepted env sd k v = Some (j, s)"
      "accepted env sd k' v' = Some (j, s')" for k k' v v' j s s'
      using registry_okD(2) [OF reg(1)] that unfolding in_reg by blast
    from fold_accepted [OF reg(2) this, where m = Map.empty and i = i and sv = sv] show ?thesis by simp
  qed
  ultimately have "serverMapByID sd' i = Some sv \<longleftrightarrow> (\<exists>k v. map_of kvs k = Some v \<and> accepted env sd k v = Some (i, sv))" for i sv
    unfolding in_reg [symmetric] by (simp only:)
  then show "holds_registry env sd' (map_of kvs)"
    unfolding holds_registry_def acc GetServer_Inr by blast
qed

lemma accepted_id:
  "accepted env sd k v = Some (i, s) \<Longrightarrow> accepted env sd k v' = Some (i', s') \<Longrightarrow> i' = i"
  by (auto simp: accepted_def split: sum.splits prod.splits if_splits)

text \<open>What a registration says after a change of the registry.\<close>

lemma registered_put:
  assumes ok: "registry_ok env sd (reg(k \<mapsto> v))" and acc: "accepted env sd k v = Some (i0, s0)"
  shows "(\<exists>k' v'. (reg(k \<mapsto> v)) k' = Some v' \<and> accepted env sd k' v' = Some (i, sv)) \<longleftrightarrow>
    (if i = i0 then sv = s0 else \<exists>k' v'. reg k' = Some v' \<and> accepted env sd k' v' = Some (i, sv))"
proof (cases "i = i0")
  case True
  have "sv = s0" if "(reg(k \<mapsto> v)) k' = Some v'" "accepted env sd k' v' = Some (i0, sv)" for k' v'
  proof -
    have "k = k'" by (rule registry_okD(2) [OF ok _ that(1) acc that(2)]) simp
    then show ?thesis using that acc by simp
  qed
  moreover have "(reg(k \<mapsto> v)) k = Some v" by simp
  ultimately show ?thesis using True acc by metis
next
  case False
  have "k' \<noteq> k" if "accepted env sd k' v' = Some (i, sv)" for k' v'
    using accepted_id [OF acc] that False by blast
  then show ?thesis using False by (metis fun_upd_other)
qed

lemma registered_delete:
  assumes ok: "registry_ok env sd reg" and k: "reg k = Some v" and acc: "accepted env sd k v = Some (i0, s0)"
  shows "(\<exists>k' v'. (reg(k := None)) k' = Some v' \<and> accepted env sd k' v' = Some (i, sv)) \<longleftrightarrow>
    i \<noteq> i0 \<and> (\<exists>k' v'. reg k' = Some v' \<and> accepted env sd k' v' = Some (i, sv))"
proof (cases "i = i0")
  case True
  have "\<not> ((reg(k := None)) k' = Some v' \<and> accepted env sd k' v' = Some (i0, sv))" for k' v'
    using registry_okD(2) [OF ok k _ acc] by (metis fun_upd_apply option.distinct(1))
  then show ?thesis using True by blast
next
  case False
  have "k' \<noteq> k" if "accepted env sd k' v' = Some (i, sv)" for k' v'
    using accepted_id [OF acc] that False by blast
  then show ?thesis using False by (metis fun_upd_other fun_upd_same option.distinct(1))
qed

lemma registered_unwanted:
  assumes "\<not> wanted sd k"
  shows "(\<exists>k' v'. (reg(k := x)) k' = Some v' \<and> accepted env sd k' v' = Some (i, sv)) \<longleftrightarrow>
    (\<exists>k' v'. reg k' = Some v' \<and> accepted env sd k' v' = Some (i, sv))"
proof -
  have "k' \<noteq> k" if "accepted env sd k' v' = Some (i, sv)" for k' v'
    using accepted_wanted [OF that] assms by auto
  then show ?thesis by (metis fun_upd_other)
qed

text \<open>One event of the watch, on caches that hold the registry.\<close>

lemma apply_event_holds:
  assumes ok: "tables_ok sd" and holds: "holds_registry env sd reg" and poss: "event_possible e reg"
    and reg: "registry_ok env sd reg" "registry_ok env sd (reg_apply e reg)"
  shows "holds_registry env (fst (apply_event env e sd)) (reg_apply e reg)"
proof -
  let ?E = "fst (apply_event env e sd)"
  have same: "same_config sd ?E" using apply_event_kept [OF ok, of env e] by (simp add: caches_kept_def)
  note acc = same_config_accepted [OF same, of env]
  have holdsD: "serverMapByID sd i = Some sv \<longleftrightarrow> (\<exists>k v. reg k = Some v \<and> accepted env sd k v = Some (i, sv))" for i sv
    using holds unfolding holds_registry_def GetServer_Inr by blast
  show ?thesis
  proof (cases e)
    case (EventPut r k v)
    show ?thesis
    proof (cases "accepted env sd k v")
      case None
      then have no: "\<not> wanted sd k" using registry_okD(1) [OF reg(2), of k v] EventPut by auto
      then have "?E = sd"
        by (auto simp: EventPut apply_put_def wanted_def split: sum.splits prod.splits)
      then show ?thesis
        unfolding holds_registry_def EventPut reg_apply.simps GetServer_Inr
        using registered_unwanted [OF no, of reg "Some v" env] holdsD EventPut by simp
    next
      case (Some p)
      obtain i0 s0 where p: "p = (i0, s0)" by fastforce
      have s0: "sv_ID s0 = i0" and E: "?E = fst (storeServerLocked env s0 sd)"
        using Some p by (auto simp: EventPut accepted_def snapshot_server_def apply_put_def
            split: sum.splits prod.splits if_splits)
      have "registry_ok env sd (reg(k \<mapsto> v))" using reg(2) EventPut by simp
      note put = registered_put [OF this, of i0 s0]
      have "((serverMapByID sd)(i0 \<mapsto> s0)) i = Some sv \<longleftrightarrow>
          (\<exists>k' v'. (reg(k \<mapsto> v)) k' = Some v' \<and> accepted env sd k' v' = Some (i, sv))" for i sv
        unfolding put [OF Some [unfolded p]] using holdsD [of i sv] by auto
      then show ?thesis
        unfolding holds_registry_def acc GetServer_Inr unfolding E store_parts(1) [OF ok] s0
        by (simp add: EventPut)
    qed
  next
    case (EventDelete r k)
    obtain v where k: "reg k = Some v" using poss EventDelete by auto
    show ?thesis
    proof (cases "wanted sd k")
      case False
      then have "?E = sd"
        by (auto simp: EventDelete apply_delete_def wanted_def split: sum.splits prod.splits)
      then show ?thesis
        unfolding holds_registry_def EventDelete reg_apply.simps GetServer_Inr
        using registered_unwanted [OF False, of reg None env] holdsD EventDelete by simp
    next
      case True
      then obtain i0 s0 where a: "accepted env sd k v = Some (i0, s0)"
        using registry_okD(1) [OF reg(1) k] by fastforce
      then have s0: "serverMapByID sd i0 = Some s0" using holdsD k by blast
      have id: "sv_ID s0 = i0" using tables_okD(1) [OF ok s0] .
      have E: "?E = fst (removeServerLocked env s0 sd)"
        using a s0 by (auto simp: EventDelete accepted_def apply_delete_def split: sum.splits prod.splits if_splits)
      have "((serverMapByID sd)(i0 := None)) i = Some sv \<longleftrightarrow>
          (\<exists>k' v'. (reg(k := None)) k' = Some v' \<and> accepted env sd k' v' = Some (i, sv))" for i sv
        unfolding registered_delete [OF reg(1) k a] using holdsD [of i sv] by auto
      then show ?thesis
        unfolding holds_registry_def acc GetServer_Inr unfolding E remove_parts(1) id
        by (simp add: EventDelete)
    qed
  qed
qed

lemma registries_ok_config:
  assumes "accepted env sd' = accepted env sd" and "wanted sd' = wanted sd"
  shows "registries_ok env sd' es reg = registries_ok env sd es reg"
proof -
  have "registry_ok env sd' = registry_ok env sd"
    by (intro ext) (simp add: registry_ok_def assms)
  then show ?thesis by (induction es arbitrary: reg) simp_all
qed

lemma apply_events_holds:
  assumes "tables_ok sd" and "holds_registry env sd reg" and "registries_ok env sd es reg"
    and "\<And>e. e \<in> set es \<Longrightarrow> \<not> event_revision e \<le>s b"
  shows "holds_registry env (fst (apply_events env b es r sd)) (fold reg_apply es reg)"
  using assms
proof (induction es arbitrary: r sd reg)
  case (Cons e es)
  let ?E = "fst (apply_event env e sd)"
  have kept: "caches_kept env sd ?E" using apply_event_kept [OF Cons.prems(1)] .
  then have same: "same_config sd ?E" by (simp add: caches_kept_def)
  have ok: "registry_ok env sd reg" "event_possible e reg" "registries_ok env sd es (reg_apply e reg)"
    using Cons.prems(3) by simp_all
  have "holds_registry env ?E (reg_apply e reg)"
    using apply_event_holds [OF Cons.prems(1,2) ok(2,1) registries_ok_head [OF ok(3)]] .
  moreover have "registries_ok env ?E es (reg_apply e reg)"
    using ok(3) registries_ok_config [OF same_config_accepted [OF same] same_config_wanted [OF same]] by blast
  ultimately have "holds_registry env (fst (apply_events env b es r' ?E)) (fold reg_apply es (reg_apply e reg))" for r'
    using Cons.IH [OF caches_keptD [OF kept]] Cons.prems(4) by simp
  moreover have "fst (apply_events env b (e # es) r sd) =
      fst (apply_events env b es (if r <s event_revision e then event_revision e else r) ?E)"
    using Cons.prems(4) [of e] by (simp add: Let_def split: prod.splits)
  ultimately show ?case by simp
qed simp

lemma watch_holds:
  assumes "tables_ok sd" and "holds_registry env sd reg" and "registries_ok env sd es reg"
    and "sd_ctx_Err sd = None" and "\<And>e. e \<in> set es \<Longrightarrow> appliedRevision sd <s event_revision e"
  shows "holds_registry env (applyWatchResponse env es sd) (fold reg_apply es reg)"
proof -
  let ?E = "fst (apply_events env (appliedRevision sd) es (appliedRevision sd) sd)"
  have "\<not> event_revision e \<le>s appliedRevision sd" if "e \<in> set es" for e
    using assms(5) [OF that] by (simp add: word_sless_alt word_sle_eq)
  then have E: "holds_registry env ?E (fold reg_apply es reg)" by (rule apply_events_holds [OF assms(1-3)])
  obtain cs r where w: "applyWatchResponse env es sd = notifyChanges cs (?E\<lparr>appliedRevision := r\<rparr>)"
    using watch_result [OF assms(4)] by blast
  have "accepted env (notifyChanges cs (?E\<lparr>appliedRevision := r\<rparr>)) = accepted env ?E"
    by (intro ext) (auto simp: accepted_def notify_parts isServerTypeBlacklisted_def split: sum.splits)
  then show ?thesis using E unfolding w holds_registry_def GetServer_Inr by (simp add: notify_parts)
qed


abbreviation sd_events :: "sd_event list" where
  "sd_events \<equiv> [EventPut 6 ''servers/connector/f1'' [3], EventDelete 7 ''servers/game/g1'']"


text \<open>
  A server that moves to another type is lost. It registers under its new type, and the caches
  replace the old entry. When the old key goes away after that, the deletion removes the server by its id,
  whatever type it has by then: the caches do not know the server although it is registered.
\<close>

theorem watch_type_change:
  assumes "tables_ok sd" and "sd_ctx_Err sd = None" and "wanted sd k1" and "parseEtcdKey k1 = Inr (t1, i)"
    and "accepted env sd k2 v2 = Some (i, sv2)" and "k1 \<noteq> k2"
    and "appliedRevision sd <s r1" and "appliedRevision sd <s r2"
  shows "GetServer i (applyWatchResponse env [EventPut r1 k2 v2, EventDelete r2 k1] sd) = Inl ErrNoServerWithID \<and>
    fold reg_apply [EventPut r1 k2 v2, EventDelete r2 k1] reg k2 = Some v2"
proof -
  let ?S = "fst (storeServerLocked env sv2 sd)"
  have put: "fst (apply_put env k2 v2 sd) = ?S" "sv_ID sv2 = i"
    using assms(5) by (auto simp: accepted_def snapshot_server_def apply_put_def
        split: sum.splits prod.splits if_splits)
  have kept: "caches_kept env sd ?S" using store_kept [OF assms(1)] .
  have at: "serverMapByID ?S i = Some sv2" using store_parts(1) [OF assms(1)] put(2) by simp
  have "wanted ?S k1" using same_config_wanted [of sd ?S] kept assms(3) by (simp add: caches_kept_def)
  then have "fst (apply_delete env k1 ?S) = fst (removeServerLocked env sv2 ?S)"
    using assms(4) at by (auto simp: apply_delete_def wanted_def split: prod.splits)
  then have none: "serverMapByID (fst (apply_delete env k1 ?S)) i = None"
    by (simp add: remove_parts put(2))
  let ?E = "fst (apply_events env (appliedRevision sd) [EventPut r1 k2 v2, EventDelete r2 k1] (appliedRevision sd) sd)"
  have "?E = fst (apply_delete env k1 ?S)"
    using assms(7,8) put(1) by (simp add: Let_def word_sless_alt word_sle_eq case_prod_beta)
  moreover obtain cs r where "applyWatchResponse env [EventPut r1 k2 v2, EventDelete r2 k1] sd =
      notifyChanges cs (?E\<lparr>appliedRevision := r\<rparr>)"
    using watch_result [OF assms(2)] by blast
  ultimately show ?thesis using none assms(6) by (simp add: GetServer_def notify_parts)
qed

lemma watch_type_change_witness:
  "GetServer ''g1'' sd_synced = Inr game_server \<and>
   GetServer ''g1'' (applyWatchResponse sd_example
     [EventPut 6 ''servers/chat/g1'' [2], EventDelete 7 ''servers/game/g1''] sd_synced) = Inl ErrNoServerWithID"
proof
  show "GetServer ''g1'' sd_synced = Inr game_server" unfolding GetServer_Inr sd_synced_parts by simp
  have "wanted sd_synced ''servers/game/g1''" "parseEtcdKey ''servers/game/g1'' = Inr (''game'', ''g1'')"
    by (simp_all add: wanted_def parseEtcdKey_def isServerTypeBlacklisted_def sd_synced_parts)
  moreover have "accepted sd_example sd_synced ''servers/chat/g1'' [2] = Some (''g1'', chat_server)"
    unfolding accepted_def isServerTypeBlacklisted_def sd_synced_parts by (simp add: sd_eval)
  ultimately show "GetServer ''g1'' (applyWatchResponse sd_example
     [EventPut 6 ''servers/chat/g1'' [2], EventDelete 7 ''servers/game/g1''] sd_synced) = Inl ErrNoServerWithID"
    using watch_type_change [OF sd_synced_parts(1,6), where ?k1.0 = "''servers/game/g1''" and ?k2.0 = "''servers/chat/g1''"
        and ?r1.0 = 6 and ?r2.0 = 7]
    unfolding sd_synced_parts(5) by (simp add: word_sless_alt)
qed

section \<open>Registering\<close>

text \<open>The key and the value that \<open>addServerIntoEtcd\<close> puts.\<close>

definition addServerIntoEtcd :: "'h sd_env \<Rightarrow> server \<Rightarrow> string \<times> byte list" where
  "addServerIntoEtcd env sv = (getKey (sv_ID sv) (sv_Type sv), AsJSONString env sv)"

text \<open>
  What a server registers is what the others discover. A server whose id and type are not empty
  and hold no slash puts a registration that every other server accepts, unless the type is on its blacklist, as
  a server of this id with the fields it was registered with; only maps that were nil come back empty.
\<close>

theorem registration_roundtrip:
  assumes "server_Marshal env sv = Inr b" and "server_Unmarshal env b = Inr (Some sv)"
    and "sv_ID sv \<noteq> []" and "sv_Type sv \<noteq> []"
    and "CHR ''/'' \<notin> set (sv_ID sv)" and "CHR ''/'' \<notin> set (sv_Type sv)"
    and "\<not> isServerTypeBlacklisted (sv_Type sv) sd"
  shows "accepted env sd (fst (addServerIntoEtcd env sv)) (snd (addServerIntoEtcd env sv)) = Some (sv_ID sv, server_fix sv)"
proof -
  have "split_on CHR ''/'' (''servers'' @ CHR ''/'' # (sv_Type sv @ CHR ''/'' # sv_ID sv)) = [''servers'', sv_Type sv, sv_ID sv]"
    using assms(5,6) by (subst split_on_append) simp_all
  then have "parseEtcdKey (getKey (sv_ID sv) (sv_Type sv)) = Inr (sv_Type sv, sv_ID sv)"
    using assms(3,4) by (simp add: parseEtcdKey_def getKey_def)
  moreover have "sv_ID (server_fix sv) = sv_ID sv" "sv_Type (server_fix sv) = sv_Type sv"
    by (simp_all add: server_fix_def Let_def)
  ultimately show ?thesis
    using assms by (simp add: accepted_def addServerIntoEtcd_def AsJSONString_def snapshot_server_def parseServer_def)
qed

lemma registration_roundtrip_witness:
  "accepted sd_example sd_start (fst (addServerIntoEtcd sd_example game_server)) (snd (addServerIntoEtcd sd_example game_server))
     = Some (''g1'', game_server)"
proof -
  have "server_Marshal sd_example game_server = Inr [1]" "server_Unmarshal sd_example [1] = Inr (Some game_server)"
    by (simp_all add: sd_example_def)
  from registration_roundtrip [OF this, of sd_start] show ?thesis
    by (simp add: game_server_def NewServer_def isServerTypeBlacklisted_def NewEtcdServiceDiscovery_def server_fix_def)
qed

section \<open>The lease\<close>

text \<open>
  \<open>watchLeaseChan\<close>: the messages it receives, and the results of the calls to \<open>renewLease\<close> once the lease
  is lost. The counter of failed attempts is zero when the renewal starts, for every
  renewal ends the function. \<open>None\<close> is a loop that still waits.
\<close>

datatype lease_message = LeaseStop | LeaseAlive | LeaseLost

datatype lease_end = LeaseStopped | LeaseRenewed | LeaseDead

fun renew_loop :: "i64 \<Rightarrow> i64 \<Rightarrow> goerr option list \<Rightarrow> lease_end option" where
  "renew_loop maxRetries failed [] = None"
| "renew_loop maxRetries failed (r # rs) =
     (case r of
        None \<Rightarrow> Some LeaseRenewed
      | Some e \<Rightarrow>
          let failed = failed + 1 in
          if e = ErrEtcdGrantLeaseTimeout then Some LeaseDead
          else if maxRetries \<le>s failed then Some LeaseDead
          else renew_loop maxRetries failed rs)"

fun watchLeaseChan :: "i64 \<Rightarrow> i64 \<Rightarrow> lease_message list \<Rightarrow> goerr option list \<Rightarrow> lease_end option" where
  "watchLeaseChan maxRetries failed [] renewals = None"
| "watchLeaseChan maxRetries failed (LeaseStop # ms) renewals = Some LeaseStopped"
| "watchLeaseChan maxRetries failed (LeaseAlive # ms) renewals = watchLeaseChan maxRetries 0 ms renewals"
| "watchLeaseChan maxRetries failed (LeaseLost # ms) renewals = renew_loop maxRetries failed renewals"

lemma renew_loop_ends:
  assumes "0 \<le> sint failed" and "sint failed < 2 ^ 63 - 1"
    and "max (sint failed + 1) (sint maxRetries) - sint failed \<le> int (length rs)"
  shows "\<exists>x. renew_loop maxRetries failed rs = Some x \<and> (None \<notin> set rs \<longrightarrow> x = LeaseDead) \<and> x \<noteq> LeaseStopped"
  using assms
proof (induction rs arbitrary: failed)
  case (Cons r rs)
  have plus: "sint (failed + 1) = sint failed + 1"
    using Cons.prems(2) sint_bounds(1) [of failed] by (simp add: sint_word_ariths signed_take_bit_int_eq_self)
  show ?case
  proof (cases "\<exists>e. r = Some e \<and> e \<noteq> ErrEtcdGrantLeaseTimeout \<and> \<not> maxRetries \<le>s failed + 1")
    case True
    then have "sint (failed + 1) < sint maxRetries" by (auto simp: word_sle_eq)
    then have "0 \<le> sint (failed + 1)" "sint (failed + 1) < 2 ^ 63 - 1"
      "max (sint (failed + 1) + 1) (sint maxRetries) - sint (failed + 1) \<le> int (length rs)"
      using Cons.prems plus sint_bounds(2) [of maxRetries] by auto
    then show ?thesis using Cons.IH [of "failed + 1"] True by auto
  next
    case False
    then show ?thesis by (cases r) (auto simp: Let_def)
  qed
qed simp

text \<open>
  C21. A server that loses its lease does not wait for ever. After at most \<open>grantLeaseMaxRetries\<close>
  attempts to get a new one (and at least one attempt) the loop has ended: with a new lease, or by telling the application to
  die, which it does when all the attempts failed. The messages before the loss only renew the lease.
\<close>

theorem lease_loss_ends:
  assumes "max 1 (sint maxRetries) \<le> int (length renewals)" and "set alive \<subseteq> {LeaseAlive}"
  shows "\<exists>x. watchLeaseChan maxRetries 0 (alive @ LeaseLost # rest) renewals = Some x \<and>
    x \<in> {LeaseRenewed, LeaseDead} \<and> (None \<notin> set renewals \<longrightarrow> x = LeaseDead)"
proof -
  have "watchLeaseChan maxRetries 0 (alive @ LeaseLost # rest) renewals = renew_loop maxRetries 0 renewals"
    using assms(2) by (induction alive) auto
  moreover obtain x where "renew_loop maxRetries 0 renewals = Some x" "None \<notin> set renewals \<longrightarrow> x = LeaseDead"
    "x \<noteq> LeaseStopped"
    using renew_loop_ends [of 0 maxRetries renewals] assms(1) by auto
  ultimately show ?thesis by (cases x) auto
qed

lemma lease_loss_ends_witness:
  "watchLeaseChan 2 0 [LeaseAlive, LeaseLost] [Some ErrNilCondition, Some ErrNilCondition] = Some LeaseDead"
proof -
  have "max 1 (sint (2 :: i64)) \<le> int (length [Some ErrNilCondition, Some ErrNilCondition])" by simp
  from lease_loss_ends [OF this, of "[LeaseAlive]" "[]"] show ?thesis by auto
qed

section \<open>The interface\<close>

text \<open>
  What the clients of \<open>ServiceDiscovery\<close> rely on, for the states \<open>ok\<close> in which it is used: the
  servers of a type and the nodes of its hash are servers known by their id, of that type.
\<close>

locale discovery =
  fixes ok :: "'s \<Rightarrow> bool"
    and servers_by_type :: "string \<Rightarrow> 's \<Rightarrow> (string \<rightharpoonup> server) res"
    and hash_node :: "string \<Rightarrow> string \<Rightarrow> 's \<Rightarrow> string res"
    and server_by_id :: "string \<Rightarrow> 's \<Rightarrow> server res"
  assumes by_type_nonempty: "ok s \<Longrightarrow> servers_by_type ty s = Inr m \<Longrightarrow> m \<noteq> Map.empty"
    and by_type_known: "ok s \<Longrightarrow> servers_by_type ty s = Inr m \<Longrightarrow>
      m i = Some sv \<longleftrightarrow> server_by_id i s = Inr sv \<and> sv_Type sv = ty"
    and known_id: "ok s \<Longrightarrow> server_by_id i s = Inr sv \<Longrightarrow> sv_ID sv = i"
    and hash_known: "ok s \<Longrightarrow> hash_node ty k s = Inr n \<Longrightarrow>
      \<exists>sv. server_by_id n s = Inr sv \<and> sv_Type sv = ty"
begin

lemma hash_in_type:
  assumes "ok s" and "servers_by_type ty s = Inr m" and "hash_node ty k s = Inr n"
  shows "\<exists>sv. m n = Some sv"
  using hash_known [OF assms(1,3)] by_type_known [OF assms(1,2)] by blast

lemma in_type:
  assumes "ok s" and "servers_by_type ty s = Inr m" and "m i = Some sv"
  shows "sv_ID sv = i \<and> sv_Type sv = ty \<and> server_by_id i s = Inr sv"
  using by_type_known [OF assms(1,2)] known_id [OF assms(1)] assms(3) by blast

end

definition sd_consistent :: "'h sd_env \<Rightarrow> 'h sd \<Rightarrow> bool" where
  "sd_consistent env sd \<longleftrightarrow> tables_ok sd \<and> (\<exists>nodes. hash_laws env nodes \<and> hash_ok nodes sd)"

interpretation etcd_sd: discovery "sd_consistent env" GetServersByType "GetConsistentHashNode env" GetServer
  for env :: "'h sd_env"
proof (unfold_locales, goal_cases)
  case (1 s ty m)
  then show ?case by (auto simp: GetServersByType_def split: option.splits if_splits)
next
  case (2 s ty m i sv)
  then have "tables_ok s" by (simp add: sd_consistent_def)
  from tables_okD(2) [OF this, of ty i sv] 2(2) show ?case
    by (auto simp: GetServersByType_def look_def split: option.splits if_splits)
next
  case (3 s i sv)
  then show ?case using tables_okD(1) [of s i sv] by (simp add: sd_consistent_def)
next
  case (4 s ty k n)
  then obtain nodes where "hash_laws env nodes" "hash_ok nodes s" by (auto simp: sd_consistent_def)
  then show ?case
    using 4(2) hash_okD [of nodes s ty] hash_lawsD(4) [of env nodes k]
    by (auto simp: GetConsistentHashNode_def ring_def split: option.splits)
qed

end
