(* ===== verification/Router.thy ===== *)
theory Router
  imports Service_Discovery Session Route
begin

text \<open>
  The router of \<open>router/router.go\<close>: which server a request goes to. The order in which the map of
  servers is visited and the random index are arguments of the model. A session that has a
  user always reaches the same server of a type, whatever these are, and only servers of
  the type are ever chosen.
\<close>

section \<open>The router\<close>

text \<open>
  \<open>rt_servers\<close> and \<open>rt_hash\<close> are the two operations of the service discovery the router calls, in the
  state it has at the call; \<open>rt_functions\<close> are the routing functions an application has added.
\<close>

record router =
  rt_initialized :: bool
  rt_servers :: "string \<Rightarrow> (string \<rightharpoonup> server) res"
  rt_hash :: "string \<Rightarrow> string \<Rightarrow> string res"
  routesMap :: "string \<rightharpoonup> nat"
  rt_functions :: "nat \<Rightarrow> route \<Rightarrow> byte list \<Rightarrow> (string \<rightharpoonup> server) \<Rightarrow> session option \<Rightarrow> server res"

definition AddRoute :: "string \<Rightarrow> nat \<Rightarrow> router \<Rightarrow> router" where
  "AddRoute serverType f r = r\<lparr>routesMap := (routesMap r)(serverType \<mapsto> f)\<rparr>"

text \<open>The key under which a session without a user is looked up in the consistent hash.\<close>

definition session_key :: "session \<Rightarrow> string" where
  "session_key s = frontendID s @ ''-'' @ FormatInt (frontendSessionID s)"

definition route_by_id :: "(string \<rightharpoonup> server) \<Rightarrow> string \<Rightarrow> server res" where
  "route_by_id servers svId =
     (if svId \<noteq> [] then (case servers svId of None \<Rightarrow> Inl ErrServerNotFound | Some sv \<Rightarrow> Inr sv)
      else Inl ErrForbiddenServerOfSession)"

definition route_by_hash :: "router \<Rightarrow> string \<Rightarrow> (string \<rightharpoonup> server) \<Rightarrow> session \<Rightarrow> server \<Rightarrow> server res" where
  "route_by_hash r svType servers s server =
     (if uid s \<noteq> [] then
        (case rt_hash r svType (uid s) of
           Inl e \<Rightarrow> Inr server
         | Inr svId \<Rightarrow> route_by_id servers svId)
      else if frontendID s \<noteq> [] \<and> 0 <s frontendSessionID s then
        (case rt_hash r svType (session_key s) of
           Inl e \<Rightarrow> Inr server
         | Inr svId \<Rightarrow> route_by_id servers svId)
      else Inr server)"

text \<open>
  \<open>ks\<close> is the order in which the map is visited, \<open>pick\<close> the random index; an index out of range is
  \<open>None\<close>.
\<close>

definition defaultRoute ::
  "router \<Rightarrow> string list \<Rightarrow> nat \<Rightarrow> string \<Rightarrow> (string \<rightharpoonup> server) \<Rightarrow> session option \<Rightarrow> server res option" where
  "defaultRoute r ks pick svType servers sess =
     (case index (map (\<lambda>k. the (servers k)) ks) pick of
        None \<Rightarrow> None
      | Some server \<Rightarrow>
          Some (case sess of
                  None \<Rightarrow> Inr server
                | Some s \<Rightarrow>
                    if sv_Frontend server then route_by_id servers (frontendID s)
                    else if sv_SessionStickiness server then route_by_id servers (GetBackendID s (sv_Type server))
                    else route_by_hash r svType servers s server))"

definition router_Route ::
  "router \<Rightarrow> string list \<Rightarrow> nat \<Rightarrow> string \<Rightarrow> route \<Rightarrow> byte list \<Rightarrow> session option \<Rightarrow> server res option" where
  "router_Route r ks pick svType rt payload sess =
     (if \<not> rt_initialized r then Some (Inl ErrServiceDiscoveryNotInitialized)
      else
        case rt_servers r svType of
          Inl e \<Rightarrow> Some (Inl e)
        | Inr servers \<Rightarrow>
            (case routesMap r svType of
               None \<Rightarrow> defaultRoute r ks pick svType servers sess
             | Some f \<Rightarrow> Some (rt_functions r f rt payload servers sess)))"

text \<open>A router on a state of the service discovery on etcd.\<close>

definition etcd_router :: "'h sd_env \<Rightarrow> 'h sd \<Rightarrow> (string \<rightharpoonup> nat) \<Rightarrow> router" where
  "etcd_router env sd routes =
     \<lparr>rt_initialized = True, rt_servers = (\<lambda>ty. GetServersByType ty sd),
      rt_hash = (\<lambda>ty k. GetConsistentHashNode env ty k sd), routesMap = routes,
      rt_functions = (\<lambda>f rt p servers s. Inl ErrServerNotFound)\<rparr>"

section \<open>Where requests go\<close>

text \<open>The choice by the session alone, for a type all of whose servers are of the same kind.\<close>

definition chosen_id :: "router \<Rightarrow> string \<Rightarrow> server \<Rightarrow> session \<Rightarrow> string option" where
  "chosen_id r svType kind s =
     (if sv_Frontend kind then Some (frontendID s)
      else if sv_SessionStickiness kind then Some (GetBackendID s svType)
      else if uid s \<noteq> [] then (case rt_hash r svType (uid s) of Inl e \<Rightarrow> None | Inr n \<Rightarrow> Some n)
      else if frontendID s \<noteq> [] \<and> 0 <s frontendSessionID s
           then (case rt_hash r svType (session_key s) of Inl e \<Rightarrow> None | Inr n \<Rightarrow> Some n)
      else None)"

definition same_kind :: "server \<Rightarrow> (string \<rightharpoonup> server) \<Rightarrow> bool" where
  "same_kind kind servers \<longleftrightarrow>
     (\<forall>i sv. servers i = Some sv \<longrightarrow>
        sv_Frontend sv = sv_Frontend kind \<and> sv_SessionStickiness sv = sv_SessionStickiness kind)"

lemma defaultRoute_chosen:
  assumes "enumerates ks servers" and "pick < length ks" and "same_kind kind servers"
    and type: "\<And>i sv. servers i = Some sv \<Longrightarrow> sv_Type sv = svType"
    and "chosen_id r svType kind s = Some n"
  shows "defaultRoute r ks pick svType servers (Some s) = Some (route_by_id servers n)"
proof -
  let ?server = "the (servers (ks ! pick))"
  have "ks ! pick \<in> dom servers" using assms(1,2) by (metis enumeratesD(2) nth_mem)
  then have server: "servers (ks ! pick) = Some ?server" by auto
  then have kind: "sv_Frontend ?server = sv_Frontend kind" "sv_SessionStickiness ?server = sv_SessionStickiness kind"
    "sv_Type ?server = svType"
    using assms(3) type by (auto simp: same_kind_def)
  have "route_by_hash r svType servers s ?server = route_by_id servers n"
    if "\<not> sv_Frontend kind" "\<not> sv_SessionStickiness kind"
    using assms(5) that by (auto simp: chosen_id_def route_by_hash_def split: if_splits sum.splits)
  then show ?thesis
    using assms(2,5) kind by (auto simp: defaultRoute_def chosen_id_def split: if_splits)
qed

lemma defaultRoute_random:
  assumes "enumerates ks servers" and "pick < length ks" and "defaultRoute r ks pick svType servers sess = Some (Inr sv)"
  shows "\<exists>i. servers i = Some sv"
proof -
  have "ks ! pick \<in> dom servers" using assms(1,2) by (metis enumeratesD(2) nth_mem)
  then have server: "servers (ks ! pick) = Some (the (servers (ks ! pick)))" by auto
  then show ?thesis
    using assms(2,3)
    by (auto simp: defaultRoute_def route_by_id_def route_by_hash_def split: option.splits if_splits sum.splits)
qed


lemma sd_synced_consistent: "sd_consistent sd_example sd_synced"
proof -
  have "(sd_step sd_example)\<^sup>*\<^sup>* sd_start sd_synced"
    using sd_sync [OF sync_orders_example, of 5] unfolding sd_synced_def by blast
  from sd_reach_ok [OF sd_example_laws this] show ?thesis
    unfolding sd_consistent_def using sd_example_laws by blast
qed

lemma sd_synced_games: "GetServersByType ''game'' sd_synced = Inr [''g1'' \<mapsto> game_server]"
proof -
  have "sv_Type game_server = ''game''" by (simp add: game_server_def NewServer_def)
  then have look: "look sd_synced ''game'' i = Some sv \<longleftrightarrow> i = ''g1'' \<and> sv = game_server" for i sv
    unfolding tables_okD(2) [OF sd_synced_parts(1)] sd_synced_parts(2) by auto
  obtain m where m: "serverMapByType sd_synced ''game'' = Some m"
    using look [of "''g1''" game_server] by (auto simp: look_def split: option.splits)
  have "m i = ([''g1'' \<mapsto> game_server]) i" for i
    using look [of i] m by (cases "m i") (auto simp: look_def)
  then have "m = [''g1'' \<mapsto> game_server]" by blast
  then show ?thesis using m by (simp add: GetServersByType_def)
qed


end
