(* ===== verification/Sys_Remote.thy ===== *)
theory Sys_Remote
  imports Session_Pool Router
begin

text \<open>
  The system remote of \<open>remote/sys.go\<close>: the callbacks by which the framework itself follows the binding, the
  closing and the backends of sessions, and the requests by which the servers tell each other about them.
  The callbacks run inside the operations of the session pool, on its tables and on the cluster's cache; calls to
  other servers are parameters. Binding a session on a frontend with these callbacks publishes the session to the
  cluster, and the callback that binds a backend stores the session also on a server that only
  forwards the request.
\<close>

section \<open>The environment\<close>

datatype listener_call =
    OnUserBind string string
  | OnUserBound string string cbk
  | OnUserDisconnected string cbk
  | OnUserBindBackend string string string
  | OnUserBoundBackend string string string cbk
  | OnUserUnboundBackend string string string cbk

text \<open>
  \<open>se_pool\<close> is what the session pool calls, without the callbacks of this module. \<open>se_Fork\<close>, \<open>se_NotifyAll\<close>
  and \<open>se_RPC\<close> are the methods of \<open>RemoteService\<close> by which other servers are told or asked, with the route (nil when it
  did not decode), the message and the session; \<open>se_binding\<close> and \<open>se_session\<close> are the registered listeners and
  \<open>se_listen\<close> runs one.
\<close>

record 'c sys_env =
  se_pool :: "'c pool_env"
  se_server :: server
  se_Fork :: "route option \<Rightarrow> proto_msg \<Rightarrow> nat \<Rightarrow> 'c pool \<Rightarrow> 'c pool \<times> goerr option"
  se_NotifyAll :: "route option \<Rightarrow> proto_msg \<Rightarrow> nat \<Rightarrow> 'c pool \<Rightarrow> 'c pool \<times> goerr option"
  se_RPC :: "string \<Rightarrow> route \<Rightarrow> proto_msg \<Rightarrow> nat \<Rightarrow> 'c pool \<Rightarrow> 'c pool \<times> goerr option"
  se_binding :: "nat list"
  se_session :: "nat list"
  se_listen :: "nat \<Rightarrow> listener_call \<Rightarrow> 'c pool \<Rightarrow> 'c pool"

abbreviation SessionBoundForkRoute :: string where "SessionBoundForkRoute \<equiv> ''sys.sessionboundfork''"
abbreviation SessionBoundRoute :: string where "SessionBoundRoute \<equiv> ''sys.sessionbound''"
abbreviation SessionClosedRoute :: string where "SessionClosedRoute \<equiv> ''sys.sessionclosed''"
abbreviation SessionBindBackendRoute :: string where "SessionBindBackendRoute \<equiv> ''sys.bindbackendsession''"
abbreviation SessionBoundBackendForkRoute :: string where
  "SessionBoundBackendForkRoute \<equiv> ''sys.sessionboundbackendfork''"
abbreviation SessionBoundBackendRoute :: string where "SessionBoundBackendRoute \<equiv> ''sys.sessionboundbackend''"
abbreviation KickBackendRoute :: string where "KickBackendRoute \<equiv> ''sys.kickbackend''"
abbreviation SessionKickedBackendRoute :: string where "SessionKickedBackendRoute \<equiv> ''sys.sessionkickedbackend''"

definition decoded :: "string \<Rightarrow> route option" where
  "decoded s = (case RouteDecode s of Inl e \<Rightarrow> None | Inr r \<Rightarrow> Some r)"

text \<open>The operations of a session that go to the cache, on the pool.\<close>

definition pool_initial :: "'c pool_env \<Rightarrow> nat \<Rightarrow> 'c pool \<Rightarrow> 'c pool \<times> goerr option" where
  "pool_initial env q P =
     (let s = heap P q;
          ks = (case cache_Hgetall (pe_cache env) (ClusterStorageKey s) (storage P) of
                  Inl e \<Rightarrow> [] | Inr h \<Rightarrow> fields_order env h);
          r = InitialFromCluster (pe_json env) (pe_cache env) ks (storage P) s
      in (upd q (\<lambda>_. fst r) P, snd r))"

definition pool_flush ::
  "('c cache \<Rightarrow> session \<Rightarrow> 'c \<Rightarrow> 'c \<times> goerr option) \<Rightarrow> 'c pool_env \<Rightarrow> nat \<Rightarrow> 'c pool \<Rightarrow> 'c pool \<times> goerr option" where
  "pool_flush flush env q P =
     (let r = flush (pe_cache env) (heap P q) (storage P) in (P\<lparr>storage := fst r\<rparr>, snd r))"

section \<open>The callbacks\<close>

text \<open>Telling the other servers that a session was bound; errors are logged and ignored.\<close>

definition announce_bind :: "'c sys_env \<Rightarrow> nat \<Rightarrow> cbk \<Rightarrow> 'c pool \<Rightarrow> 'c pool \<times> goerr option" where
  "announce_bind env q callback P =
     (let s = heap P q;
          msg = BindMsg (uid s) (sv_ID (se_server env)) (sess_id s) callback [] in
      case RouteDecode (sv_Type (se_server env) @ ''.'' @ SessionBoundForkRoute) of
        Inl e \<Rightarrow> (P, Some e)
      | Inr r \<Rightarrow>
          let P = fst (se_Fork env (Some r) msg q P);
              P = fst (se_NotifyAll env (decoded SessionBoundRoute) msg q P)
          in (P, None))"

text \<open>
  The callback for the binding of a session: an older session of the user is kicked, backends and data of
  the user are read from the cache, data given with the binding replaces what was read, and the session is
  written to the cache.
\<close>

definition sys_on_bind :: "'c sys_env \<Rightarrow> nat \<Rightarrow> cbk \<Rightarrow> 'c pool \<Rightarrow> 'c pool \<times> goerr option" where
  "sys_on_bind env q callback P =
     (if \<not> sv_Frontend (se_server env) then (P, None)
      else
        case (case GetSessionByUID P (uid (heap P q)) of
                None \<Rightarrow> (P, None)
              | Some old \<Rightarrow> sess_Kick (se_pool env) old None [CloseReasonKickRebind] P) of
          (P, Some e) \<Rightarrow> (P, Some e)
        | (P, None) \<Rightarrow>
            let custData = GetData (heap P q) in
            (case pool_initial (se_pool env) q P of
               (P, Some e) \<Rightarrow> (P, Some e)
             | (P, None) \<Rightarrow>
                 (case (if map_get custData = Map.empty then (P, None)
                        else let r = SetData (pe_json (se_pool env)) custData (heap P q)
                             in (upd q (\<lambda>_. fst r) P, snd r)) of
                    (P, Some e) \<Rightarrow> (P, Some e)
                  | (P, None) \<Rightarrow>
                      (case pool_flush FlushFrontendData (se_pool env) q P of
                         (P, Some e) \<Rightarrow> (P, Some e)
                       | (P, None) \<Rightarrow> announce_bind env q callback P))))"

definition sys_on_close :: "'c sys_env \<Rightarrow> nat \<Rightarrow> cbk \<Rightarrow> i64 \<Rightarrow> 'c pool \<Rightarrow> 'c pool" where
  "sys_on_close env q callback reason P =
     (if \<not> sv_Frontend (se_server env) then P
      else if reason = CloseReasonKickRebind then P
      else
        case (if uid (heap P q) \<noteq> [] then pool_flush FlushOnline (se_pool env) q P else (P, None)) of
          (P, Some e) \<Rightarrow> P
        | (P, None) \<Rightarrow>
            (case RouteDecode SessionClosedRoute of
               Inl e \<Rightarrow> P
             | Inr r \<Rightarrow> fst (se_NotifyAll env (Some r) (KickMsg (uid (heap P q)) callback 0) q P)))"

text \<open>Telling the other servers that a backend was bound; the first error ends it and is ignored.\<close>

definition announce_backend :: "'c sys_env \<Rightarrow> string \<Rightarrow> proto_msg \<Rightarrow> nat \<Rightarrow> 'c pool \<Rightarrow> 'c pool" where
  "announce_backend env svType msg q P =
     (case RouteDecode (svType @ ''.'' @ SessionBoundBackendForkRoute) of
        Inl e \<Rightarrow> P
      | Inr r \<Rightarrow>
          (case se_Fork env (Some r) msg q P of
             (P, Some e) \<Rightarrow> P
           | (P, None) \<Rightarrow>
               (case RouteDecode SessionBoundBackendRoute of
                  Inl e \<Rightarrow> P
                | Inr r \<Rightarrow> fst (se_NotifyAll env (Some r) msg q P))))"

definition backend_rollback_local :: "'c sys_env \<Rightarrow> nat \<Rightarrow> string \<Rightarrow> 'c pool \<Rightarrow> 'c pool" where
  "backend_rollback_local env q svType P =
     (let P = upd q (RemoveBackendID svType) P;
          P = RemoveSessionLocal q P
      in fst (pool_flush (FlushBackendData (pe_json (se_pool env))) (se_pool env) q P))"

definition forward_backend ::
  "'c sys_env \<Rightarrow> string \<Rightarrow> string \<Rightarrow> string \<Rightarrow> proto_msg \<Rightarrow> nat \<Rightarrow> 'c pool \<Rightarrow> 'c pool \<times> goerr option" where
  "forward_backend env rt svType svID msg q P =
     (case RouteDecode (svType @ ''.'' @ rt) of
        Inl e \<Rightarrow> (P, Some e)
      | Inr r \<Rightarrow> se_RPC env svID r msg q P)"

definition sys_on_bind_backend ::
  "'c sys_env \<Rightarrow> nat \<Rightarrow> string \<Rightarrow> string \<Rightarrow> cbk \<Rightarrow> 'c pool \<Rightarrow> 'c pool \<times> goerr option" where
  "sys_on_bind_backend env q svType svID callback P =
     (let msg = BindBackendMsg (uid (heap P q)) svType svID callback in
      if sv_Frontend (se_server env) then (P, Some ErrDeveloperLogicFatal)
      else
        case (if sv_ID (se_server env) \<noteq> svID then forward_backend env SessionBindBackendRoute svType svID msg q P
              else (P, None)) of
          (P, Some e) \<Rightarrow> (P, Some e)
        | (P, None) \<Rightarrow>
            if GetSessionByUID P (uid (heap P q)) \<noteq> None then (P, None)
            else
              (case StoreSessionLocal q P of
                 (P, Some e) \<Rightarrow> (backend_rollback_local env q svType P, Some e)
               | (P, None) \<Rightarrow>
                   (case SendRequestToFrontend (se_pool env) q SessionBindBackendRoute msg P of
                      (P, Some e) \<Rightarrow> (backend_rollback_local env q svType P, Some e)
                    | (P, None) \<Rightarrow> (announce_backend env svType msg q P, None))))"

definition announce_kick :: "'c sys_env \<Rightarrow> proto_msg \<Rightarrow> nat \<Rightarrow> 'c pool \<Rightarrow> 'c pool" where
  "announce_kick env msg q P =
     (case RouteDecode SessionKickedBackendRoute of
        Inl e \<Rightarrow> P
      | Inr r \<Rightarrow> fst (se_NotifyAll env (Some r) msg q P))"

definition kick_backend_here ::
  "'c sys_env \<Rightarrow> nat \<Rightarrow> string \<Rightarrow> proto_msg \<Rightarrow> i64 \<Rightarrow> 'c pool \<Rightarrow> 'c pool \<times> goerr option" where
  "kick_backend_here env q svID msg reason P =
     (let P = (if sv_ID (se_server env) = svID then RemoveSessionLocal q P else P) in
      if reason = CloseReasonKickRebind then (P, None)
      else
        case (case SendRequestToFrontend (se_pool env) q KickBackendRoute msg P of
                (P, None) \<Rightarrow> (P, None)
              | (P, Some e) \<Rightarrow> pool_flush (FlushBackendData (pe_json (se_pool env))) (se_pool env) q P) of
          (P, Some e) \<Rightarrow> (P, Some e)
        | (P, None) \<Rightarrow> (announce_kick env msg q P, None))"

definition sys_on_kick_backend ::
  "'c sys_env \<Rightarrow> nat \<Rightarrow> string \<Rightarrow> string \<Rightarrow> cbk \<Rightarrow> i64 \<Rightarrow> 'c pool \<Rightarrow> 'c pool \<times> goerr option" where
  "sys_on_kick_backend env q svType svID callback reason P =
     (let msg = BindBackendMsg (uid (heap P q)) svType svID callback in
      if sv_Frontend (se_server env) then (P, Some ErrDeveloperLogicFatal)
      else if sv_ID (se_server env) \<noteq> svID then
        (case RouteDecode (svType @ ''.'' @ KickBackendRoute) of
           Inl e \<Rightarrow> (P, Some e)
         | Inr r \<Rightarrow>
             (case se_RPC env svID r msg q P of
                (P, None) \<Rightarrow> (P, None)
              | (P, Some e) \<Rightarrow> if e = ErrServerNotFound then kick_backend_here env q svID msg reason P
                               else (P, Some e)))
      else kick_backend_here env q svID msg reason P)"

text \<open>
  \<open>Init\<close> registers the callbacks; their code pointer is 0, and the session pool runs them where it finds
  this pointer.
\<close>

definition sys_Init :: "'c pool \<Rightarrow> 'c pool" where
  "sys_Init P = OnKickBackend 0 (OnBindBackend 0 (OnSessionClose 0 (OnSessionBind 0 P)))"

definition sys_pool_env :: "'c sys_env \<Rightarrow> 'c pool_env" where
  "sys_pool_env env = (se_pool env)
     \<lparr>on_bind := (\<lambda>f. if f = 0 then sys_on_bind env else on_bind (se_pool env) f),
      on_bind_backend := (\<lambda>f. if f = 0 then sys_on_bind_backend env else on_bind_backend (se_pool env) f),
      on_kick_backend := (\<lambda>f. if f = 0 then sys_on_kick_backend env else on_kick_backend (se_pool env) f)\<rparr>"

section \<open>The requests\<close>

definition ack :: "byte list" where
  "ack = str_bytes ''ack''"

definition sys_BindSession ::
  "'c sys_env \<Rightarrow> string \<Rightarrow> i64 \<Rightarrow> cbk \<Rightarrow> byte list \<Rightarrow> 'c pool \<Rightarrow> 'c pool \<times> byte list res" where
  "sys_BindSession env u ident metadata sessionData P =
     (case GetSessionByID P ident of
        None \<Rightarrow> (P, Inl ErrSessionNotFound_proto)
      | Some q \<Rightarrow>
          let r = SetDataEncoded (pe_json (se_pool env)) sessionData (heap P q);
              P = upd q (\<lambda>_. fst r) P in
          (case snd r of
             Some e \<Rightarrow> (P, Inl e)
           | None \<Rightarrow>
               (case Bind (sys_pool_env env) q u (GetData (heap P q)) metadata P of
                  (P, Some e) \<Rightarrow> (P, Inl e)
                | (P, None) \<Rightarrow> (P, Inr ack))))"

definition sys_PushSession ::
  "'c sys_env \<Rightarrow> i64 \<Rightarrow> string \<Rightarrow> byte list \<Rightarrow> 'c pool \<Rightarrow> 'c pool \<times> byte list res" where
  "sys_PushSession env ident u sessionData P =
     (case GetSessionByID P ident of
        None \<Rightarrow> (P, Inl ErrSessionNotFound_proto)
      | Some q \<Rightarrow>
          if uid (heap P q) \<noteq> u then (P, Inl (ErrNew ''uid not equal''))
          else
            let r = SetDataEncoded (pe_json (se_pool env)) sessionData (heap P q);
                P = upd q (\<lambda>_. fst r) P in
            (case snd r of
               Some e \<Rightarrow> (P, Inl e)
             | None \<Rightarrow>
                 (case pool_flush FlushUserData (se_pool env) q P of
                    (P, Some e) \<Rightarrow> (P, Inl e)
                  | (P, None) \<Rightarrow> (P, Inr ack))))"

definition sys_Kick :: "'c sys_env \<Rightarrow> string \<Rightarrow> cbk \<Rightarrow> i64 \<Rightarrow> 'c pool \<Rightarrow> 'c pool \<times> bool \<times> goerr option" where
  "sys_Kick env u metadata reason P =
     (case GetSessionByUID P u of
        None \<Rightarrow> (P, False, Some ErrSessionNotFound_proto)
      | Some q \<Rightarrow>
          (case sess_Kick (se_pool env) q metadata [reason] P of
             (P, Some e) \<Rightarrow> (P, False, Some e)
           | (P, None) \<Rightarrow> (P, True, None)))"

text \<open>A frontend only keeps its copy of the backends; the session in the context is \<open>ctx\<close>. \<open>None\<close> is the panic of a write to a
  nil map of backends.\<close>

definition sync_backend :: "'c sys_env \<Rightarrow> string \<Rightarrow> (session \<Rightarrow> session option) \<Rightarrow> 'c pool \<Rightarrow> ('c pool \<times> byte list res) option" where
  "sync_backend env u change P =
     (case GetSessionByUID P u of
        None \<Rightarrow> Some (P, Inl ErrSessionNotFound_proto)
      | Some q \<Rightarrow>
          map_option (\<lambda>s.
              case pool_flush (FlushBackendData (pe_json (se_pool env))) (se_pool env) q (upd q (\<lambda>_. s) P) of
                (P, Some e) \<Rightarrow> (P, Inl e)
              | (P, None) \<Rightarrow> (P, Inr []))
            (change (heap P q)))"

definition sys_BindBackendSession ::
  "'c sys_env \<Rightarrow> nat option \<Rightarrow> string \<Rightarrow> string \<Rightarrow> string \<Rightarrow> cbk \<Rightarrow> 'c pool \<Rightarrow> ('c pool \<times> byte list res) option" where
  "sys_BindBackendSession env ctx u btype bid metadata P =
     (if sv_Frontend (se_server env) then sync_backend env u (SetBackendID btype bid) P
      else if btype \<noteq> sv_Type (se_server env) \<or> bid \<noteq> sv_ID (se_server env) then Some (P, Inl ErrIllegalBindBackendID)
      else
        case (case GetSessionByUID P u of
                Some q \<Rightarrow> Some q
              | None \<Rightarrow> (case ctx of None \<Rightarrow> None | Some q \<Rightarrow> if uid (heap P q) \<noteq> u then None else Some q)) of
          None \<Rightarrow> Some (P, Inl ErrSessionNotFound_proto)
        | Some q \<Rightarrow>
            map_option (\<lambda>r. case r of (P, Some e) \<Rightarrow> (P, Inl e) | (P, None) \<Rightarrow> (P, Inr ack))
              (BindBackend (sys_pool_env env) q btype bid metadata P))"

definition sys_KickBackend ::
  "'c sys_env \<Rightarrow> string \<Rightarrow> string \<Rightarrow> string \<Rightarrow> cbk \<Rightarrow> 'c pool \<Rightarrow> ('c pool \<times> byte list res) option" where
  "sys_KickBackend env u btype bid metadata P =
     (if sv_Frontend (se_server env) then sync_backend env u (\<lambda>s. Some (RemoveBackendID btype s)) P
      else if btype \<noteq> sv_Type (se_server env) \<or> bid \<noteq> sv_ID (se_server env) then Some (P, Inl ErrIllegalBindBackendID)
      else
        case GetSessionByUID P u of
          None \<Rightarrow> Some (P, Inl ErrSessionNotFound)
        | Some q \<Rightarrow>
            map_option (\<lambda>r. case r of (P, Some e) \<Rightarrow> (P, Inl e) | (P, None) \<Rightarrow> (P, Inr ack))
              (KickBackend (sys_pool_env env) q btype metadata [] P))"

text \<open>The notifications: every listener is called in turn.\<close>

definition tell :: "'c sys_env \<Rightarrow> nat list \<Rightarrow> listener_call \<Rightarrow> 'c pool \<Rightarrow> 'c pool" where
  "tell env ls c P = fold (\<lambda>l. se_listen env l c) ls P"

definition sys_SessionBoundFork :: "'c sys_env \<Rightarrow> string \<Rightarrow> string \<Rightarrow> 'c pool \<Rightarrow> 'c pool \<times> byte list res" where
  "sys_SessionBoundFork env u fid P = (tell env (se_binding env) (OnUserBind u fid) P, Inr ack)"

definition sys_SessionBound ::
  "'c sys_env \<Rightarrow> string \<Rightarrow> string \<Rightarrow> i64 \<Rightarrow> cbk \<Rightarrow> 'c pool \<Rightarrow> 'c pool \<times> byte list res" where
  "sys_SessionBound env u fid ident metadata P =
     (let P = (case GetSessionByUID P u of None \<Rightarrow> P | Some q \<Rightarrow> upd q (SetFrontendData fid ident) P)
      in (tell env (se_session env) (OnUserBound u fid metadata) P, Inr ack))"

definition sys_SessionClosed :: "'c sys_env \<Rightarrow> string \<Rightarrow> cbk \<Rightarrow> 'c pool \<Rightarrow> 'c pool \<times> byte list res" where
  "sys_SessionClosed env u metadata P = (tell env (se_session env) (OnUserDisconnected u metadata) P, Inr ack)"

definition sys_SessionBoundBackendFork ::
  "'c sys_env \<Rightarrow> string \<Rightarrow> string \<Rightarrow> string \<Rightarrow> 'c pool \<Rightarrow> 'c pool \<times> byte list res" where
  "sys_SessionBoundBackendFork env u btype bid P =
     (tell env (se_binding env) (OnUserBindBackend u btype bid) P, Inr ack)"

definition sys_SessionBoundBackend ::
  "'c sys_env \<Rightarrow> string \<Rightarrow> string \<Rightarrow> string \<Rightarrow> cbk \<Rightarrow> 'c pool \<Rightarrow> ('c pool \<times> byte list res) option" where
  "sys_SessionBoundBackend env u btype bid metadata P =
     map_option (\<lambda>P. (tell env (se_session env) (OnUserBoundBackend u btype bid metadata) P, Inr ack))
       (if sv_Frontend (se_server env) then Some P
        else case GetSessionByUID P u of
               None \<Rightarrow> Some P
             | Some q \<Rightarrow> map_option (\<lambda>s. upd q (\<lambda>_. s) P) (SetBackendID btype bid (heap P q)))"

definition sys_SessionKickedBackend ::
  "'c sys_env \<Rightarrow> string \<Rightarrow> string \<Rightarrow> string \<Rightarrow> cbk \<Rightarrow> 'c pool \<Rightarrow> 'c pool \<times> byte list res" where
  "sys_SessionKickedBackend env u btype bid metadata P =
     (let P = (if sv_Frontend (se_server env) then P
               else case GetSessionByUID P u of None \<Rightarrow> P | Some q \<Rightarrow> upd q (RemoveBackendID btype) P)
      in (tell env (se_session env) (OnUserUnboundBackend u btype bid metadata) P, Inr ack))"

section \<open>The callbacks leave the tables of the pool alone\<close>

text \<open>
  What the module relies on: the calls to other servers and to the connections leave the tables of the
  pool and the identity of the sessions as they are.
\<close>

definition quiet_calls :: "'c sys_env \<Rightarrow> bool" where
  "quiet_calls env \<longleftrightarrow>
     quiet_env (se_pool env) \<and>
     (\<forall>e r P. keeps_core P (fst (entity_Kick (se_pool env) e r P))) \<and>
     (\<forall>e sv rt b P. keeps_core P (fst (entity_SendRequest (se_pool env) e sv rt b P))) \<and>
     (\<forall>r m q P. keeps_core P (fst (se_Fork env r m q P))) \<and>
     (\<forall>r m q P. keeps_core P (fst (se_NotifyAll env r m q P))) \<and>
     (\<forall>sv r m q P. keeps_core P (fst (se_RPC env sv r m q P)))"

lemma quiet_callsD:
  assumes "quiet_calls env"
  shows "quiet_env (se_pool env)"
    and "keeps_core P (fst (entity_Kick (se_pool env) e r P))"
    and "keeps_core P (fst (entity_Close (se_pool env) e cb r P))"
    and "keeps_core P (fst (entity_SendRequest (se_pool env) e sv rt b P))"
    and "keeps_core P (fst (se_Fork env rr m q P))"
    and "keeps_core P (fst (se_NotifyAll env rr m q P))"
    and "keeps_core P (fst (se_RPC env sv ro m q P))"
  using assms by (auto simp: quiet_calls_def quiet_env_def)

lemma keeps_core_case:
  assumes "keeps_core P (fst r)" and "\<And>Q. r = (Q, None) \<Longrightarrow> keeps_core Q (fst (f Q))"
  shows "keeps_core P (fst (case r of (Q, Some e) \<Rightarrow> (Q, Some e) | (Q, None) \<Rightarrow> f Q))"
proof -
  obtain Q e where r: "r = (Q, e)" by fastforce
  show ?thesis
    using assms r keeps_core_trans by (cases e) auto
qed

lemma sess_Kick_core:
  fixes env :: "'c sys_env"
  assumes "quiet_calls env"
  shows "keeps_core P (fst (sess_Kick (se_pool env) q cb r P))"
  unfolding sess_Kick_def
proof (rule keeps_core_case [OF quiet_callsD(2) [OF assms]])
  fix Q :: "'c pool"
  have "keeps_core Q (upd q (online_update (\<lambda>_. False)) Q)" by (rule keeps_core_upd) simp_all
  then show "keeps_core Q (fst (let P = upd q (online_update (\<lambda>_. False)) Q
      in entity_Close (se_pool env) (entity (heap P q)) cb r P))"
    unfolding Let_def using quiet_callsD(3) [OF assms] by (rule keeps_core_trans)
qed

text \<open>Reading a session from the cache changes its backends and its data, nothing else.\<close>

definition same_identity :: "session \<Rightarrow> session \<Rightarrow> bool" where
  "same_identity s s' \<longleftrightarrow>
     sess_id s' = sess_id s \<and> uid s' = uid s \<and> IsFrontend s' = IsFrontend s \<and>
     requestsInFlight s' = requestsInFlight s \<and> frontendID s' = frontendID s \<and>
     frontendSessionID s' = frontendSessionID s \<and> sess_ip s' = sess_ip s \<and> online s' = online s"

lemma same_identity_refl [simp]: "same_identity s s"
  by (simp add: same_identity_def)

lemma same_identity_trans: "same_identity a b \<Longrightarrow> same_identity b c \<Longrightarrow> same_identity a c"
  by (simp add: same_identity_def)

lemma updateEncodedData_identity: "same_identity s (fst (updateEncodedData j s))"
  by (cases "EncodeSessionData j (data s)") (simp_all add: updateEncodedData_def same_identity_def)

lemma SetData_identity: "same_identity s (fst (SetData j d s))"
  using updateEncodedData_identity [of "s\<lparr>data := Some (map_get d)\<rparr>" j]
  by (simp add: SetData_def same_identity_def)

lemma initial_field_identity: "same_identity s (fst (initial_field j field v s))"
proof -
  have "same_identity s (fst (obtain_backends j v s))"
    by (cases "DecodeSessionData j (str_bytes v)") (simp_all add: obtain_backends_def SetBackends_def same_identity_def)
  moreover have "same_identity s (fst (obtain_data j v s))"
  proof (cases "DecodeSessionData j (str_bytes v)")
    case (Inr d)
    then show ?thesis
      using updateEncodedData_identity [of "s\<lparr>data := d\<rparr>" j] by (simp add: obtain_data_def same_identity_def)
  qed (simp add: obtain_data_def)
  ultimately show ?thesis by (simp add: initial_field_def)
qed

lemma each_field_identity:
  assumes "\<And>k v s. same_identity s (fst (f k v s))"
  shows "same_identity s (fst (each_field f h ks s))"
proof (induction ks arbitrary: s)
  case (Cons k ks)
  obtain s' e where f: "f k (the (h k)) s = (s', e)" by fastforce
  then have "same_identity s s'" using assms [of s k "the (h k)"] by simp
  then show ?case using Cons.IH [of s'] f same_identity_trans by (cases e) auto
qed simp

lemma InitialFromCluster_identity: "same_identity s (fst (InitialFromCluster j c ks st s))"
  using each_field_identity [OF initial_field_identity]
  by (cases "cache_Hgetall c (ClusterStorageKey s) st") (simp_all add: InitialFromCluster_def)

lemma upd_identity_core:
  assumes "same_identity (heap P q) s"
  shows "keeps_core P (upd q (\<lambda>_. s) P)"
  using assms by (simp add: keeps_core_def upd_def same_identity_def)

lemma pool_flush_core: "keeps_core P (fst (pool_flush f env q P))"
  by (simp add: pool_flush_def Let_def keeps_core_def)

lemma sys_on_bind_core:
  fixes env :: "'c sys_env"
  assumes "quiet_calls env"
  shows "keeps_core P (fst (sys_on_bind env q cb P))"
proof (cases "sv_Frontend (se_server env)")
  case True
  have kick: "keeps_core P (fst (case GetSessionByUID P (uid (heap P q)) of
      None \<Rightarrow> (P, None) | Some old \<Rightarrow> sess_Kick (se_pool env) old None [CloseReasonKickRebind] P))"
    using sess_Kick_core [OF assms] by (cases "GetSessionByUID P (uid (heap P q))") auto
  have ini: "keeps_core Q (fst (pool_initial (se_pool env) q Q))" for Q :: "'c pool"
    using upd_identity_core [OF InitialFromCluster_identity] by (simp add: pool_initial_def Let_def)
  have set: "keeps_core Q (fst (if map_get d = Map.empty then (Q, None)
      else let r = SetData (pe_json (se_pool env)) d (heap Q q) in (upd q (\<lambda>_. fst r) Q, snd r)))" for Q :: "'c pool" and d
    by (simp add: Let_def upd_identity_core [OF SetData_identity])
  have ann: "keeps_core Q (fst (announce_bind env q cb Q))" for Q :: "'c pool"
    using keeps_core_trans [OF quiet_callsD(5) [OF assms] quiet_callsD(6) [OF assms]]
    by (cases "RouteDecode (sv_Type (se_server env) @ ''.'' @ SessionBoundForkRoute)")
      (simp_all add: announce_bind_def Let_def)
  have "\<not> \<not> sv_Frontend (se_server env)" using True by simp
  note front = if_not_P [OF this]
  show ?thesis
    unfolding sys_on_bind_def Let_def front
    by (intro keeps_core_case kick ini pool_flush_core ann set [unfolded Let_def])
qed (simp add: sys_on_bind_def)

lemma sys_pool_env_quiet:
  assumes "quiet_calls env"
  shows "quiet_env (sys_pool_env env)"
  using quiet_callsD(1) [OF assms] sys_on_bind_core [OF assms]
  by (simp add: quiet_env_def sys_pool_env_def)

section \<open>Binding publishes the session\<close>

text \<open>
  The part of a session that is in the cache, and the cache. Calls to connections and to other servers leave
  both alone for every session, and so do changes of other sessions.
\<close>

definition keeps_cluster :: "nat \<Rightarrow> 'c pool \<Rightarrow> 'c pool \<Rightarrow> bool" where
  "keeps_cluster q P P' \<longleftrightarrow>
     storage P' = storage P \<and> uid (heap P' q) = uid (heap P q) \<and> frontendID (heap P' q) = frontendID (heap P q) \<and>
     frontendSessionID (heap P' q) = frontendSessionID (heap P q) \<and> sess_ip (heap P' q) = sess_ip (heap P q) \<and>
     encodedData (heap P' q) = encodedData (heap P q) \<and> online (heap P' q) = online (heap P q)"

definition cluster_calls :: "'c sys_env \<Rightarrow> bool" where
  "cluster_calls env \<longleftrightarrow>
     (\<forall>q e cb r P. keeps_cluster q P (fst (entity_Close (se_pool env) e cb r P))) \<and>
     (\<forall>q s P. keeps_cluster q P (sub_Drain (se_pool env) s P)) \<and>
     (\<forall>q r m s P. keeps_cluster q P (fst (se_Fork env r m s P))) \<and>
     (\<forall>q r m s P. keeps_cluster q P (fst (se_NotifyAll env r m s P)))"

lemma keeps_cluster_refl [simp]: "keeps_cluster q P P"
  by (simp add: keeps_cluster_def)

lemma keeps_cluster_trans: "keeps_cluster q P Q \<Longrightarrow> keeps_cluster q Q R \<Longrightarrow> keeps_cluster q P R"
  by (simp add: keeps_cluster_def)

lemma announce_bind_cluster:
  assumes "cluster_calls env" and "announce_bind env q cb P = (P', None)"
  shows "keeps_cluster v P P'"
proof -
  obtain r where "RouteDecode (sv_Type (se_server env) @ ''.'' @ SessionBoundForkRoute) = Inr r"
    using assms(2) by (auto simp: announce_bind_def Let_def split: sum.splits)
  then obtain Q m rr where "Q = fst (se_Fork env (Some r) m q P)" "P' = fst (se_NotifyAll env rr m q Q)"
    using assms(2) by (auto simp: announce_bind_def Let_def)
  then have "keeps_cluster v P Q" "keeps_cluster v Q P'" using assms(1) by (simp_all add: cluster_calls_def)
  then show ?thesis by (rule keeps_cluster_trans)
qed

lemma sys_env_fields:
  "entity_Close (sys_pool_env env) = entity_Close (se_pool env)" "sub_Drain (sys_pool_env env) = sub_Drain (se_pool env)"
  "pe_json (sys_pool_env env) = pe_json (se_pool env)" "pe_cache (sys_pool_env env) = pe_cache (se_pool env)"
  "on_bind (sys_pool_env env) 0 = sys_on_bind env"
  by (simp_all add: sys_pool_env_def)

lemma sess_Close_cluster:
  assumes "cluster_calls env" and "v \<noteq> q"
  shows "keeps_cluster q P (sess_Close (sys_pool_env env) v cb r P)"
proof -
  let ?s = "heap P v" and ?C = "close_tables v P"
  have "keeps_cluster q Q (fold (sub_Drain (se_pool env)) xs Q)" for Q xs
  proof (induction xs arbitrary: Q)
    case (Cons x xs)
    have "keeps_cluster q Q (sub_Drain (se_pool env) x Q)" using assms(1) by (simp add: cluster_calls_def)
    from keeps_cluster_trans [OF this Cons.IH] show ?case by simp
  qed simp
  then have fold: "keeps_cluster q ?C (if IsFrontend ?s \<and> Subscriptions ?s \<noteq> []
      then fold (sub_Drain (se_pool env)) (Subscriptions ?s) ?C else ?C)" (is "keeps_cluster q ?C ?D")
    by simp
  have "keeps_cluster q P ?C"
    using assms(2) by (simp add: close_tables_def Let_def keeps_cluster_def upd_def split: option.splits)
  also have "keeps_cluster q ?C ?D" by (rule fold)
  finally (keeps_cluster_trans) have "keeps_cluster q P ?D" .
  moreover have "keeps_cluster q ?D (fst (entity_Close (se_pool env) (entity ?s) cb r ?D))"
    using assms(1) by (simp add: cluster_calls_def)
  ultimately show ?thesis
    unfolding sess_Close_def Let_def sys_env_fields by (rule keeps_cluster_trans)
qed

lemma bind_front_cluster:
  assumes "cluster_calls env" and "sessionsByUID P u \<noteq> Some q"
  shows "keeps_cluster q P (bind_front (sys_pool_env env) q u P)"
proof (cases "sessionsByUID P u")
  case None
  then show ?thesis by (simp add: bind_front_def keeps_cluster_def)
next
  case (Some v)
  then have "keeps_cluster q P (sess_Close (sys_pool_env env) v None [CloseReasonKickRebind] P)"
    using sess_Close_cluster [OF assms(1)] assms(2) by simp
  then show ?thesis by (simp add: bind_front_def Some Let_def keeps_cluster_def)
qed

lemma sys_on_bind_flushes:
  assumes "cluster_calls env" and "sv_Frontend (se_server env)" and "sys_on_bind env q cb P = (P', None)"
  obtains Q PF where "pool_flush FlushFrontendData (se_pool env) q Q = (PF, None)" and "keeps_cluster q PF P'"
proof -
  let ?kick = "case GetSessionByUID P (uid (heap P q)) of
      None \<Rightarrow> (P, None) | Some old \<Rightarrow> sess_Kick (se_pool env) old None [CloseReasonKickRebind] P"
  obtain P1 e1 where 1: "?kick = (P1, e1)" by fastforce
  obtain P2 e2 where 2: "pool_initial (se_pool env) q P1 = (P2, e2)" by fastforce
  let ?set = "if map_get (GetData (heap P1 q)) = Map.empty then (P2, None)
      else (upd q (\<lambda>_. fst (SetData (pe_json (se_pool env)) (GetData (heap P1 q)) (heap P2 q))) P2,
            snd (SetData (pe_json (se_pool env)) (GetData (heap P1 q)) (heap P2 q)))"
  obtain P3 e3 where 3: "?set = (P3, e3)" by fastforce
  have "\<not> \<not> sv_Frontend (se_server env)" using assms(2) by simp
  note front = if_not_P [OF this]
  obtain P4 e4 where 4: "pool_flush FlushFrontendData (se_pool env) q P3 = (P4, e4)" by fastforce
  have "e1 = None \<and> e2 = None \<and> e3 = None \<and> e4 = None \<and> announce_bind env q cb P4 = (P', None)"
    using assms(3) unfolding sys_on_bind_def Let_def front 1
    by (cases e1; simp add: 2; cases e2; simp add: 3; cases e3; simp add: 4; cases e4; simp)
  then show ?thesis using that 4 announce_bind_cluster [OF assms(1)] by blast
qed

lemma bind_front_after:
  assumes "quiet_env env"
  shows "afterBindCallbacks (bind_front env q u P) = afterBindCallbacks P"
proof -
  have "afterBindCallbacks (sess_Close env v cb r P) = afterBindCallbacks P" for v cb r
    unfolding keeps_core_tables(11) [OF sess_Close_core [OF assms]]
    by (simp add: close_tables_def Let_def upd_def split: option.splits)
  then show ?thesis by (cases "sessionsByUID P u") (simp_all add: bind_front_def Let_def)
qed

lemma Bind_sys_front:
  assumes quiet: "quiet_calls env" and calls: "cluster_calls env" and front: "sv_Frontend (se_server env)"
    and P: "IsFrontend (heap P q)" "GetSessionByUID P u \<noteq> Some q"
    and cbs: "sessionBindCallbacks P = [0]" "afterBindCallbacks P = []"
    and bind: "Bind (sys_pool_env env) q u cust cb P = (P', None)"
  obtains Q PF where "pool_flush FlushFrontendData (se_pool env) q Q = (PF, None)" and "keeps_cluster q PF P'"
    and "uid (heap P' q) = u" and "u \<noteq> []"
proof -
  note qe = sys_pool_env_quiet [OF quiet]
  have on: "keeps_core Q (fst (on_bind (sys_pool_env env) f q c Q))" for f c Q
    using qe by (simp add: quiet_env_def)
  obtain P0 P1 where run: "keeps_core (upd q (bound_to u) P) P0" "sessionBindCallbacks P0 = [0]"
    "until_error (\<lambda>f. on_bind (sys_pool_env env) f q cb) (sessionBindCallbacks P0) P0 = (P1, None)"
    "keeps_core P0 P1" "u \<noteq> []"
    "P' = fold (\<lambda>f P. fst (on_bind (sys_pool_env env) f q cb P))
        (afterBindCallbacks (bind_front (sys_pool_env env) q u P1)) (bind_front (sys_pool_env env) q u P1)"
    by (rule Bind_front_run [OF bind P(1) on]) (use cbs(1) in auto)
  have core: "keeps_core (upd q (bound_to u) P) P1" using run(1,4) by (rule keeps_core_trans)
  have "afterBindCallbacks (bind_front (sys_pool_env env) q u P1) = []"
    using bind_front_after [OF qe] keeps_core_tables(11) [OF core] cbs(2) by (simp add: upd_def)
  then have P': "P' = bind_front (sys_pool_env env) q u P1" using run(6) by simp
  have "sys_on_bind env q cb P0 = (P1, None)"
    using run(2,3) by (simp add: sys_env_fields split: prod.splits option.splits)
  then obtain Q PF where flush: "pool_flush FlushFrontendData (se_pool env) q Q = (PF, None)" "keeps_cluster q PF P1"
    by (rule sys_on_bind_flushes [OF calls front])
  have "sessionsByUID P1 u \<noteq> Some q"
    using P(2) keeps_core_tables(1) [OF core] by (simp add: upd_def GetSessionByUID_def)
  then have kept: "keeps_cluster q P1 P'" unfolding P' by (rule bind_front_cluster [OF calls])
  have "uid (heap P1 q) = u" using keeps_core_tables(8) [OF core, of q] by (simp add: upd_def bound_to_def)
  then have "uid (heap P' q) = u" using kept by (simp add: keeps_cluster_def)
  then show ?thesis using that flush keeps_cluster_trans [OF flush(2) kept] run(5) by blast
qed


text \<open>A frontend whose calls to other servers do nothing.\<close>

definition sys_example :: "(string \<Rightarrow> string \<rightharpoonup> string) sys_env" where
  "sys_example =
     \<lparr>se_pool = env_example, se_server = front_server, se_Fork = (\<lambda>r m q P. (P, None)),
      se_NotifyAll = (\<lambda>r m q P. (P, None)), se_RPC = (\<lambda>sv r m q P. (P, None)), se_binding = [], se_session = [],
      se_listen = (\<lambda>l c P. P)\<rparr>"

lemma sys_example_quiet: "quiet_calls sys_example" "cluster_calls sys_example"
  using env_example_quiet by (simp_all add: quiet_calls_def cluster_calls_def sys_example_def env_example_def)

lemma decode_fork: "RouteDecode ''connector.sys.sessionboundfork'' = Inr (NewRoute ''connector'' ''sys'' ''sessionboundfork'')"
  using RouteDecode_literal(1) [of "''sys''" "''sessionboundfork''" "''connector''"] by (simp add: field_ok_letters letters_def)


section \<open>Forwarding a backend binding\<close>

lemma announce_backend_core:
  fixes env :: "'c sys_env"
  assumes "quiet_calls env"
  shows "keeps_core P (announce_backend env svType msg q P)"
proof (cases "RouteDecode (svType @ ''.'' @ SessionBoundBackendForkRoute)")
  case (Inr r)
  obtain Q e where fork: "se_Fork env (Some r) msg q P = (Q, e)" by fastforce
  then have Q: "keeps_core P Q" using quiet_callsD(5) [OF assms, of P "Some r" msg q] by simp
  have R: "keeps_core Q (fst (se_NotifyAll env rr msg q Q))" for rr by (rule quiet_callsD(6) [OF assms])
  show ?thesis
    unfolding announce_backend_def Inr sum.case fork prod.case
    using Q keeps_core_trans [OF Q R] by (cases e; cases "RouteDecode SessionBoundBackendRoute") simp_all
qed (simp add: announce_backend_def)

text \<open>
  A server that forwards the binding of a backend stores the session as if it were the backend. The callback
  sends the request to the backend when it is another server, and when that has succeeded it does not return but
  goes on with what only the backend itself should do: afterwards the session is found in the pool of
  the forwarding server, under its user and under its id.
\<close>

theorem bind_backend_forward_stores:
  assumes "quiet_calls env" and "sv_ID (se_server env) \<noteq> svID"
    and "GetSessionByUID P (uid (heap P q)) = None"
    and "sys_on_bind_backend env q svType svID cb P = (P', None)"
  shows "GetSessionByUID P' (uid (heap P q)) = Some q \<and> GetSessionByID P' (sess_id (heap P q)) \<noteq> None"
proof -
  let ?msg = "BindBackendMsg (uid (heap P q)) svType svID cb"
  obtain P1 where fwd: "forward_backend env SessionBindBackendRoute svType svID ?msg q P = (P1, None)"
    using assms(2,4) by (auto simp: sys_on_bind_backend_def Let_def split: if_splits prod.splits option.splits)
  have c1: "keeps_core P P1"
    using fwd quiet_callsD(7) [OF assms(1), of P svID _ ?msg q]
    by (auto simp: forward_backend_def split: sum.splits) (metis fst_conv)
  have id: "uid (heap P1 q) = uid (heap P q)" "sess_id (heap P1 q) = sess_id (heap P q)"
    "sessionsByUID P1 = sessionsByUID P"
    using keeps_core_tables [OF c1] by simp_all
  have free: "GetSessionByUID P1 (uid (heap P1 q)) = None" using assms(3) id by (simp add: GetSessionByUID_def)
  obtain P2 where st: "StoreSessionLocal q P1 = (P2, None)"
    using assms(2,4) fwd free by (auto simp: sys_on_bind_backend_def Let_def split: if_splits prod.splits option.splits)
  have 2: "sessionsByUID P2 (uid (heap P q)) = Some q" "sessionsByID P2 (sess_id (heap P q)) \<noteq> None"
    using st id by (auto simp: StoreSessionLocal_def Let_def split: if_splits)
  obtain P3 where send: "SendRequestToFrontend (se_pool env) q SessionBindBackendRoute ?msg P2 = (P3, None)"
    and P': "P' = announce_backend env svType ?msg q P3"
    using assms(2,4) fwd free st by (auto simp: sys_on_bind_backend_def Let_def split: if_splits prod.splits option.splits)
  have c3: "keeps_core P2 P3"
    using send quiet_callsD(4) [OF assms(1)]
    by (auto simp: SendRequestToFrontend_def SendRequest_def split: if_splits sum.splits) (metis fst_conv)
  have "keeps_core P3 P'" unfolding P' by (rule announce_backend_core [OF assms(1)])
  with c3 have "keeps_core P2 P'" by (rule keeps_core_trans)
  then show ?thesis using 2 by (simp add: GetSessionByUID_def GetSessionByID_def keeps_core_tables)
qed

text \<open>A backend that is not the one the session is bound to.\<close>

definition sys_backend_example :: "(string \<Rightarrow> string \<rightharpoonup> string) sys_env" where
  "sys_backend_example = sys_example\<lparr>se_server := game_server\<rparr>"

lemma decode_backend:
  "RouteDecode ''chat.sys.bindbackendsession'' = Inr (NewRoute ''chat'' ''sys'' ''bindbackendsession'')"
  "RouteDecode ''sys.bindbackendsession'' = Inr (NewRoute [] ''sys'' ''bindbackendsession'')"
  "RouteDecode ''chat.sys.sessionboundbackendfork'' = Inr (NewRoute ''chat'' ''sys'' ''sessionboundbackendfork'')"
  "RouteDecode ''sys.sessionboundbackend'' = Inr (NewRoute [] ''sys'' ''sessionboundbackend'')"
  using RouteDecode_literal(1) [of "''sys''" "''bindbackendsession''" "''chat''"]
    RouteDecode_literal(2) [of "''sys''" "''bindbackendsession''"]
    RouteDecode_literal(1) [of "''sys''" "''sessionboundbackendfork''" "''chat''"]
    RouteDecode_literal(2) [of "''sys''" "''sessionboundbackend''"]
  by (simp_all add: field_ok_letters letters_def)

lemma bind_backend_forward_stores_witness:
  "\<exists>P'. sys_on_bind_backend sys_backend_example 0 ''chat'' ''c9'' None
       (upd 0 (\<lambda>_. (new_session 1 0 0 False)\<lparr>uid := ''u'', frontendID := ''f1''\<rparr>) pool_start) = (P', None) \<and>
     GetSessionByUID P' ''u'' = Some 0"
proof -
  define P where "P = upd 0 (\<lambda>_. (new_session 1 0 0 False)\<lparr>uid := ''u'', frontendID := ''f1''\<rparr>) pool_start"
  have P: "heap P 0 = (new_session 1 0 0 False)\<lparr>uid := ''u'', frontendID := ''f1''\<rparr>" "sessionsByUID P = Map.empty"
    "sessionsByID P = Map.empty"
    by (simp_all add: P_def upd_def NewSessionPool_def)
  have quiet: "quiet_calls sys_backend_example"
    using sys_example_quiet(1) by (simp add: quiet_calls_def sys_backend_example_def)
  have "\<exists>P'. sys_on_bind_backend sys_backend_example 0 ''chat'' ''c9'' None P = (P', None)"
    by (simp add: sys_on_bind_backend_def sys_backend_example_def sys_example_def game_server_def NewServer_def P
        new_session_def forward_backend_def decode_backend GetSessionByUID_def StoreSessionLocal_def Let_def
        SendRequestToFrontend_def SendRequest_def env_example_def)
  then obtain P' where P': "sys_on_bind_backend sys_backend_example 0 ''chat'' ''c9'' None P = (P', None)" by blast
  have "sv_ID (se_server sys_backend_example) \<noteq> ''c9''"
    by (simp add: sys_backend_example_def game_server_def NewServer_def)
  from bind_backend_forward_stores [OF quiet this _ P'] have "GetSessionByUID P' ''u'' = Some 0"
    by (simp add: P new_session_def GetSessionByUID_def)
  then show ?thesis using P' unfolding P_def by blast
qed

end
