(* ===== verification/Component.thy ===== *)
theory Component
  imports Route Message Go_Values
begin

text \<open>
  Components, \<open>component/method.go\<close>, \<open>component/service.go\<close> and \<open>component/options.go\<close>: how the
  methods of a user's component become handlers and remotes. The framework finds them by reflection, so a
  method is its signature, a list of reflected types, with a code pointer. Whatever the methods of a component
  look like, the handlers that are extracted from it are typed: the argument that is built for a
  handler fits its signature, and its results are of the form the caller expects.
\<close>

section \<open>Reflected types\<close>

text \<open>
  The types the checks tell apart: the four types the package names (\<open>context.Context\<close>, \<open>error\<close>,
  \<open>[]byte\<close> and \<open>proto.Message\<close>), other interfaces, pointers and other named types.
\<close>

datatype rtype =
    TContext | TError | TBytes | TProtoMsg | TInterface string | TPtr rtype | TNamed string

fun is_Ptr :: "rtype \<Rightarrow> bool" where
  "is_Ptr (TPtr t) = True"
| "is_Ptr _ = False"

fun is_Interface :: "rtype \<Rightarrow> bool" where
  "is_Interface TContext = True"
| "is_Interface TError = True"
| "is_Interface TProtoMsg = True"
| "is_Interface (TInterface n) = True"
| "is_Interface _ = False"

text \<open>\<open>Type.Elem\<close> of a pointer or of a slice; it panics on a type that has no element type.\<close>

fun Elem :: "rtype \<Rightarrow> rtype option" where
  "Elem (TPtr t) = Some t"
| "Elem TBytes = Some (TNamed ''uint8'')"
| "Elem _ = None"

text \<open>
  Which type implements which interface depends on the user's types and is a parameter. What the language says of
  it: an interface implements itself, an implementation of an interface that extends another implements
  that one too, and only interfaces are implemented.
\<close>

type_synonym impls = "rtype \<Rightarrow> rtype \<Rightarrow> bool"

definition implements_laws :: "impls \<Rightarrow> bool" where
  "implements_laws impl \<longleftrightarrow>
     (\<forall>t. is_Interface t \<longrightarrow> impl t t) \<and>
     (\<forall>t u v. impl t u \<longrightarrow> impl u v \<longrightarrow> impl t v) \<and>
     (\<forall>t u. impl t u \<longrightarrow> is_Interface u)"

text \<open>A value of dynamic type \<open>t\<close> can be passed for a parameter of type \<open>u\<close>.\<close>

definition assignable :: "impls \<Rightarrow> rtype \<Rightarrow> rtype \<Rightarrow> bool" where
  "assignable impl t u \<longleftrightarrow> t = u \<or> is_Interface u \<and> impl t u"

record rmethod =
  m_Name :: string
  m_PkgPath :: string
  m_In :: "rtype list"
  m_Out :: "rtype list"
  m_Func :: nat

section \<open>Suitable methods\<close>

text \<open>\<open>isExported\<close>: \<open>upper\<close> is \<open>unicode.IsUpper\<close> on names whose first rune is not ASCII.\<close>

definition isExported :: "(string \<Rightarrow> bool) \<Rightarrow> string \<Rightarrow> bool" where
  "isExported upper name =
     (case name of
        [] \<Rightarrow> False
      | c # _ \<Rightarrow> if (of_char c :: nat) < 128 then 65 \<le> (of_char c :: nat) \<and> (of_char c :: nat) \<le> 90
                 else upper name)"

definition isRemoteMethod :: "impls \<Rightarrow> rmethod \<Rightarrow> bool" where
  "isRemoteMethod impl m =
     (if m_PkgPath m \<noteq> [] then False
      else if length (m_In m) \<noteq> 2 \<and> length (m_In m) \<noteq> 3 then False
      else if \<not> impl (m_In m ! 1) TContext then False
      else if length (m_In m) = 3 \<and> \<not> impl (m_In m ! 2) TProtoMsg then False
      else if length (m_Out m) \<noteq> 2 then False
      else if \<not> is_Ptr (m_Out m ! 0) \<or> m_Out m ! 1 \<noteq> TError then False
      else if \<not> impl (m_Out m ! 0) TProtoMsg then False
      else True)"

definition isHandlerMethod :: "impls \<Rightarrow> rmethod \<Rightarrow> bool" where
  "isHandlerMethod impl m =
     (if m_PkgPath m \<noteq> [] then False
      else if length (m_In m) \<noteq> 2 \<and> length (m_In m) \<noteq> 3 then False
      else if \<not> impl (m_In m ! 1) TContext then False
      else if length (m_In m) = 3 \<and> \<not> is_Ptr (m_In m ! 2) \<and> m_In m ! 2 \<noteq> TBytes then False
      else if length (m_Out m) \<noteq> 0 \<and> length (m_Out m) \<noteq> 2 then False
      else if length (m_Out m) = 2 \<and>
        (m_Out m ! 1 \<noteq> TError \<or> m_Out m ! 0 \<noteq> TBytes \<and> \<not> is_Ptr (m_Out m ! 0)) then False
      else True)"

section \<open>Options\<close>

text \<open>Functions of the user that are only called are code pointers.\<close>

record options =
  opt_name :: string
  opt_nameFunc :: "(string \<Rightarrow> string) option"
  opt_Subscriber :: bool
  opt_ForkMethods :: "string list"
  opt_ForkAll :: bool
  opt_ReceiverProvider :: "nat option"
  opt_TaskGoProvider :: "nat option"

definition zero_options :: options where
  "zero_options =
     \<lparr>opt_name = [], opt_nameFunc = None, opt_Subscriber = False, opt_ForkMethods = [], opt_ForkAll = False,
      opt_ReceiverProvider = None, opt_TaskGoProvider = None\<rparr>"

type_synonym option_fn = "options \<Rightarrow> options"

definition apply_options :: "option_fn list \<Rightarrow> options \<Rightarrow> options" where
  "apply_options opts opt =
     (let opt = fold (\<lambda>f. f) opts opt in
      case opt_nameFunc opt of
        None \<Rightarrow> opt
      | Some f \<Rightarrow> opt\<lparr>opt_ForkMethods := map f (opt_ForkMethods opt)\<rparr>)"

definition WithName :: "string \<Rightarrow> option_fn" where
  "WithName name opt = opt\<lparr>opt_name := name\<rparr>"

definition WithNameFunc :: "(string \<Rightarrow> string) \<Rightarrow> option_fn" where
  "WithNameFunc fn opt = opt\<lparr>opt_nameFunc := Some fn\<rparr>"

definition WithSubscriber :: option_fn where
  "WithSubscriber opt = opt\<lparr>opt_Subscriber := True\<rparr>"

definition WithForkMethods :: "string list \<Rightarrow> option_fn" where
  "WithForkMethods methods opt = opt\<lparr>opt_ForkMethods := methods\<rparr>"

definition WithForkAll :: option_fn where
  "WithForkAll opt = opt\<lparr>opt_ForkAll := True\<rparr>"

definition WithReceiverProvider :: "nat \<Rightarrow> option_fn" where
  "WithReceiverProvider provider opt = opt\<lparr>opt_ReceiverProvider := Some provider\<rparr>"

definition WithTaskGoProvider :: "nat \<Rightarrow> option_fn" where
  "WithTaskGoProvider provider opt = opt\<lparr>opt_TaskGoProvider := Some provider\<rparr>"

section \<open>Services\<close>

record handler =
  h_Receiver :: "nat option"
  h_Method :: rmethod
  h_Type :: "rtype option"
  h_IsRawArg :: bool
  h_MessageType :: byte
  h_Options :: options

record remote =
  r_Receiver :: "nat option"
  r_Method :: rmethod
  r_HasArgs :: bool
  r_Type :: "rtype option"
  r_Options :: options

text \<open>
  What reflection sees of a component: its type, the name of the type behind a pointer, the methods in the
  order of \<open>Type.Method\<close>, those of the pointer type, and the value itself.
\<close>

record comp_info =
  comp_Type :: rtype
  comp_TypeName :: string
  comp_Methods :: "rmethod list"
  comp_PtrMethods :: "rmethod list"
  comp_Value :: nat

record service =
  svc_Name :: string
  svc_Comp :: comp_info
  svc_Handlers :: "string \<rightharpoonup> handler"
  svc_Remotes :: "string \<rightharpoonup> remote"
  svc_Options :: options

definition renamed :: "(string \<Rightarrow> string) option \<Rightarrow> rmethod \<Rightarrow> string" where
  "renamed nameFunc m = (case nameFunc of None \<Rightarrow> m_Name m | Some f \<Rightarrow> f (m_Name m))"

definition remote_of :: "rmethod \<Rightarrow> remote" where
  "remote_of m =
     \<lparr>r_Receiver = None, r_Method = m, r_HasArgs = (length (m_In m) = 3),
      r_Type = (if length (m_In m) = 3 then Some (m_In m ! 2) else None), r_Options = zero_options\<rparr>"

definition suitableRemoteMethods ::
  "impls \<Rightarrow> rmethod list \<Rightarrow> (string \<Rightarrow> string) option \<Rightarrow> (string \<rightharpoonup> remote)" where
  "suitableRemoteMethods impl ms nameFunc =
     fold (\<lambda>m methods. if isRemoteMethod impl m then methods(renamed nameFunc m \<mapsto> remote_of m) else methods)
       ms Map.empty"

definition handler_of :: "rmethod \<Rightarrow> handler" where
  "handler_of m =
     (let raw = (length (m_In m) = 3 \<and> m_In m ! 2 = TBytes);
          msgType = (if length (m_Out m) = 0 then Notify else Request)
      in \<lparr>h_Receiver = None, h_Method = m, h_Type = (if length (m_In m) = 3 then Some (m_In m ! 2) else None),
          h_IsRawArg = raw, h_MessageType = msgType, h_Options = zero_options\<rparr>)"

definition suitableHandlerMethods ::
  "impls \<Rightarrow> rmethod list \<Rightarrow> (string \<Rightarrow> string) option \<Rightarrow> (string \<rightharpoonup> handler)" where
  "suitableHandlerMethods impl ms nameFunc =
     fold (\<lambda>m methods. if isHandlerMethod impl m then methods(renamed nameFunc m \<mapsto> handler_of m) else methods)
       ms Map.empty"

definition NewService :: "comp_info \<Rightarrow> option_fn list \<Rightarrow> service" where
  "NewService c opts =
     (let opt = apply_options opts zero_options
      in \<lparr>svc_Name = (if opt_name opt \<noteq> [] then opt_name opt else comp_TypeName c), svc_Comp = c,
          svc_Handlers = Map.empty, svc_Remotes = Map.empty, svc_Options = opt\<rparr>)"

definition ExtractHandler :: "impls \<Rightarrow> (string \<Rightarrow> bool) \<Rightarrow> service \<Rightarrow> service \<times> goerr option" where
  "ExtractHandler impl upper s =
     (let typeName = comp_TypeName (svc_Comp s);
          nameFunc = opt_nameFunc (svc_Options s) in
      if typeName = [] then (s, Some (ErrNew ''no service name for type''))
      else if \<not> isExported upper typeName then (s, Some (ErrNew ''type is not exported''))
      else
        let s = s\<lparr>svc_Handlers := suitableHandlerMethods impl (comp_Methods (svc_Comp s)) nameFunc\<rparr> in
        if svc_Handlers s = Map.empty
        then (s, Some (if suitableHandlerMethods impl (comp_PtrMethods (svc_Comp s)) nameFunc \<noteq> Map.empty
                       then ErrNew ''no exported methods of handler type (hint: pass a pointer to value of that type)''
                       else ErrNew ''no exported methods of handler type''))
        else (s\<lparr>svc_Handlers := (\<lambda>n. map_option
                 (\<lambda>h. h\<lparr>h_Receiver := Some (comp_Value (svc_Comp s)), h_Options := svc_Options s\<rparr>)
                 (svc_Handlers s n))\<rparr>, None))"

definition ExtractRemote :: "impls \<Rightarrow> (string \<Rightarrow> bool) \<Rightarrow> service \<Rightarrow> service \<times> goerr option" where
  "ExtractRemote impl upper s =
     (let typeName = comp_TypeName (svc_Comp s);
          nameFunc = opt_nameFunc (svc_Options s) in
      if typeName = [] then (s, Some (ErrNew ''no service name for type''))
      else if \<not> isExported upper typeName then (s, Some (ErrNew ''type is not exported''))
      else
        let s = s\<lparr>svc_Remotes := suitableRemoteMethods impl (comp_Methods (svc_Comp s)) nameFunc\<rparr> in
        if svc_Remotes s = Map.empty
        then (s, Some (if suitableRemoteMethods impl (comp_PtrMethods (svc_Comp s)) nameFunc \<noteq> Map.empty
                       then ErrNew ''no exported methods of remote type (hint: pass a pointer to value of that type)''
                       else ErrNew ''no exported methods of remote type''))
        else (s\<lparr>svc_Remotes := (\<lambda>n. map_option
                 (\<lambda>r. r\<lparr>r_Receiver := Some (comp_Value (svc_Comp s)), r_Options := svc_Options s\<rparr>)
                 (svc_Remotes s n))\<rparr>, None))"

definition ValidateMessageType :: "handler \<Rightarrow> byte \<Rightarrow> bool \<times> goerr option" where
  "ValidateMessageType h msgType = (False, None)"

section \<open>Extracted handlers and remotes are typed\<close>

text \<open>
  A typed handler: its signature is that of a suitable method, and the fields by which a call is
  made agree with the signature.
\<close>

definition handler_typed :: "impls \<Rightarrow> handler \<Rightarrow> bool" where
  "handler_typed impl h \<longleftrightarrow>
     (let m = h_Method h in
      isHandlerMethod impl m \<and>
      (h_Type h = None \<and> length (m_In m) = 2 \<and> \<not> h_IsRawArg h \<or>
       h_Type h = Some TBytes \<and> length (m_In m) = 3 \<and> m_In m ! 2 = TBytes \<and> h_IsRawArg h \<or>
       (\<exists>t. h_Type h = Some (TPtr t) \<and> length (m_In m) = 3 \<and> m_In m ! 2 = TPtr t \<and> \<not> h_IsRawArg h)) \<and>
      (h_MessageType h = Notify \<longleftrightarrow> m_Out m = []))"

definition remote_typed :: "impls \<Rightarrow> remote \<Rightarrow> bool" where
  "remote_typed impl r \<longleftrightarrow>
     (let m = r_Method r in
      isRemoteMethod impl m \<and> (r_HasArgs r \<longleftrightarrow> length (m_In m) = 3) \<and>
      r_Type r = (if length (m_In m) = 3 then Some (m_In m ! 2) else None))"

lemma fold_map_range:
  assumes "fold (\<lambda>m f. if ok m then f(name m \<mapsto> mk m) else f) ms f0 n = Some y"
  shows "f0 n = Some y \<or> (\<exists>m \<in> set ms. ok m \<and> y = mk m \<and> n = name m)"
  using assms
proof (induction ms arbitrary: f0)
  case (Cons m ms)
  then show ?case by (cases "ok m") (fastforce split: if_splits)+
qed simp

lemma handler_of_typed:
  assumes "isHandlerMethod impl m"
  shows "handler_typed impl (handler_of m)"
proof -
  have ins: "length (m_In m) = 2 \<or> length (m_In m) = 3 \<and> (is_Ptr (m_In m ! 2) \<or> m_In m ! 2 = TBytes)"
    using assms by (auto simp: isHandlerMethod_def split: if_splits)
  show ?thesis
    using assms ins by (cases "m_In m ! 2") (auto simp: handler_typed_def handler_of_def Let_def)
qed

lemma remote_of_typed: "isRemoteMethod impl m \<Longrightarrow> remote_typed impl (remote_of m)"
  by (simp add: remote_typed_def remote_of_def Let_def)

lemma ExtractHandler_handlers:
  assumes "ExtractHandler impl upper s = (s', None)" and "svc_Handlers s' n = Some h"
  shows "handler_typed impl h" and "h_Receiver h = Some (comp_Value (svc_Comp s))"
    and "h_Options h = svc_Options s" and "h_Method h \<in> set (comp_Methods (svc_Comp s))"
proof -
  obtain h0 where h0: "suitableHandlerMethods impl (comp_Methods (svc_Comp s)) (opt_nameFunc (svc_Options s)) n = Some h0"
    and h: "h = h0\<lparr>h_Receiver := Some (comp_Value (svc_Comp s)), h_Options := svc_Options s\<rparr>"
    using assms by (auto simp: ExtractHandler_def Let_def split: if_splits)
  from h0 obtain m where m: "m \<in> set (comp_Methods (svc_Comp s))" "isHandlerMethod impl m" "h0 = handler_of m"
    unfolding suitableHandlerMethods_def using fold_map_range by fastforce
  from handler_of_typed [OF m(2)] show "handler_typed impl h" unfolding h m(3) by (simp add: handler_typed_def)
  show "h_Receiver h = Some (comp_Value (svc_Comp s))" "h_Options h = svc_Options s" by (simp_all add: h)
  show "h_Method h \<in> set (comp_Methods (svc_Comp s))" using m by (simp add: h handler_of_def Let_def)
qed

lemma ExtractRemote_remotes:
  assumes "ExtractRemote impl upper s = (s', None)" and "svc_Remotes s' n = Some r"
  shows "remote_typed impl r" and "r_Receiver r = Some (comp_Value (svc_Comp s))"
    and "r_Options r = svc_Options s" and "r_Method r \<in> set (comp_Methods (svc_Comp s))"
proof -
  obtain r0 where r0: "suitableRemoteMethods impl (comp_Methods (svc_Comp s)) (opt_nameFunc (svc_Options s)) n = Some r0"
    and r: "r = r0\<lparr>r_Receiver := Some (comp_Value (svc_Comp s)), r_Options := svc_Options s\<rparr>"
    using assms by (auto simp: ExtractRemote_def Let_def split: if_splits)
  from r0 obtain m where m: "m \<in> set (comp_Methods (svc_Comp s))" "isRemoteMethod impl m" "r0 = remote_of m"
    unfolding suitableRemoteMethods_def using fold_map_range by fastforce
  from remote_of_typed [OF m(2)] show "remote_typed impl r" unfolding r m(3) by (simp add: remote_typed_def)
  show "r_Receiver r = Some (comp_Value (svc_Comp s))" "r_Options r = svc_Options s" by (simp_all add: r)
  show "r_Method r \<in> set (comp_Methods (svc_Comp s))" using m by (simp add: r remote_of_def)
qed

lemma handler_typed_cases [consumes 1, case_names no_arg raw pointer]:
  assumes "handler_typed impl h"
  obtains (no_arg) "h_Type h = None" "length (m_In (h_Method h)) = 2" "\<not> h_IsRawArg h"
  | (raw) "h_Type h = Some TBytes" "length (m_In (h_Method h)) = 3" "m_In (h_Method h) ! 2 = TBytes" "h_IsRawArg h"
  | (pointer) t where "h_Type h = Some (TPtr t)" "length (m_In (h_Method h)) = 3" "m_In (h_Method h) ! 2 = TPtr t"
      "\<not> h_IsRawArg h"
  using assms by (auto simp: handler_typed_def Let_def)

end
