(* ===== verification/Handler_Pool.thy ===== *)
theory Handler_Pool
  imports Component
begin

text \<open>
  Calling a handler: the pipeline of hooks (\<open>pipeline/pipeline.go\<close>), the reflective call
  (\<open>util.Pcall\<close>), the argument and the result of a call (\<open>service/util.go\<close>) and the pool of handlers
  (\<open>service/handler_pool.go\<close>). User code (methods, hooks, interceptors, receiver providers) is a parameter that acts
  on a state \<open>'w\<close> of the rest of the program. Handlers that come into the pool by registration are called
  with arguments that fit their signatures, so the panic of a reflective call with wrong
  arguments, which \<open>Pcall\<close> would turn into an error of the request, does not happen.
\<close>

section \<open>Values and contexts\<close>

text \<open>
  A value of interface type: nil, a byte slice, a pointer to a value of the type given, or any other value with its
  type. What is in the user's values is \<open>'v\<close>.
\<close>

datatype 'v iface = NilV | BytesV "byte list" | PtrV rtype 'v | OtherV rtype 'v

fun typeOf :: "'v iface \<Rightarrow> rtype option" where
  "typeOf NilV = None"
| "typeOf (BytesV b) = Some TBytes"
| "typeOf (PtrV t v) = Some (TPtr t)"
| "typeOf (OtherV t v) = Some t"

text \<open>A context: the propagated values, the session and the logger with the route and the user it
  was made for.\<close>

record hctx =
  hc_values :: go_ctx
  hc_session :: "nat option"
  hc_logger :: "(string \<times> string) option"

abbreviation UserIdCtxKey :: string where "UserIdCtxKey \<equiv> ''userId''"

definition CtxWithDefaultLogger :: "string \<Rightarrow> string \<Rightarrow> hctx \<Rightarrow> hctx" where
  "CtxWithDefaultLogger rt userID ctx =
     (let ctx = (if userID \<noteq> []
                 then ctx\<lparr>hc_values := AddToPropagateCtx (hc_values ctx) UserIdCtxKey (GString userID)\<rparr> else ctx)
      in ctx\<lparr>hc_logger := Some (rt, userID)\<rparr>)"

section \<open>The pipeline\<close>

type_synonym ('v, 'w) before_hook = "hctx \<Rightarrow> route \<Rightarrow> 'v iface \<Rightarrow> 'w \<Rightarrow> 'w \<times> hctx \<times> 'v iface \<times> goerr option"
type_synonym ('v, 'w) after_hook =
  "hctx \<Rightarrow> route \<Rightarrow> 'v iface \<Rightarrow> 'v iface \<Rightarrow> goerr option \<Rightarrow> 'w \<Rightarrow> 'w \<times> 'v iface \<times> goerr option"

record ('v, 'w) hooks =
  BeforeHandler :: "('v, 'w) before_hook list"
  AfterHandler :: "('v, 'w) after_hook list"

definition NewHandlerHooks :: "('v, 'w) hooks" where
  "NewHandlerHooks = \<lparr>BeforeHandler = [], AfterHandler = []\<rparr>"

fun ExecuteBeforePipeline :: "('v, 'w) before_hook list \<Rightarrow> ('v, 'w) before_hook" where
  "ExecuteBeforePipeline [] ctx rt res w = (w, ctx, res, None)"
| "ExecuteBeforePipeline (h # hs) ctx rt res w =
     (case h ctx rt res w of
        (w, ctx, res, Some e) \<Rightarrow> (w, ctx, res, Some e)
      | (w, ctx, res, None) \<Rightarrow> ExecuteBeforePipeline hs ctx rt res w)"

fun ExecuteAfterPipeline :: "('v, 'w) after_hook list \<Rightarrow> ('v, 'w) after_hook" where
  "ExecuteAfterPipeline [] ctx rt inp ret err w = (w, ret, err)"
| "ExecuteAfterPipeline (h # hs) ctx rt inp ret err w =
     (case h ctx rt inp ret err w of (w, ret, err) \<Rightarrow> ExecuteAfterPipeline hs ctx rt inp ret err w)"

definition PushFront :: "'h \<Rightarrow> 'h list \<Rightarrow> 'h list" where
  "PushFront h hs = h # hs"

definition PushBack :: "'h \<Rightarrow> 'h list \<Rightarrow> 'h list" where
  "PushBack h hs = hs @ [h]"

definition ClearChannel :: "'h list \<Rightarrow> 'h list" where
  "ClearChannel hs = []"

section \<open>Reflective calls\<close>

text \<open>
  The values a method is called with, and what it does. The receiver of a handler that was never given one is the zero
  \<open>reflect.Value\<close>. A method that is extracted from a component returns nothing, or a value and an error.
\<close>

datatype 'v rvalue = VRecv "nat option" | VCtx hctx | VArg "'v iface"

datatype panic_value = PString string | POther

datatype 'v outcome = Panics panic_value | Returns "('v iface \<times> goerr option) option"

text \<open>
  The environment of a call. \<open>he_run\<close> is the code of the methods by code pointer, \<open>he_recv_type\<close> the type of a
  receiver and \<open>he_ctx_type\<close> that of the contexts in use; \<open>he_Marshal\<close> and \<open>he_Unmarshal\<close> are the serializer,
  \<open>he_proto_Unmarshal\<close> and \<open>he_is_proto\<close> protobuf; \<open>he_FromError\<close>, \<open>he_BadRequest\<close> and \<open>he_NotFound\<close> are
  constructors of the API error package, \<open>he_Status\<close> the status message in such an error, and
  \<open>he_customError\<close> the conversion the user may have installed for it.
\<close>

record ('v, 'w) handler_env =
  he_impl :: impls
  he_recv_type :: "nat \<Rightarrow> rtype"
  he_ctx_type :: rtype
  he_run :: "nat \<Rightarrow> 'v rvalue list \<Rightarrow> 'w \<Rightarrow> 'w \<times> 'v outcome"
  he_provider :: "nat \<Rightarrow> hctx \<Rightarrow> nat option"
  he_taskgo :: "nat \<Rightarrow> hctx \<Rightarrow> hctx option"
  he_intercept :: "nat \<Rightarrow> hctx \<Rightarrow> route \<Rightarrow> byte list \<Rightarrow> 'w \<Rightarrow> 'w \<times> 'v iface \<times> goerr option"
  he_Marshal :: "'v iface \<Rightarrow> byte list res"
  he_Unmarshal :: "byte list \<Rightarrow> rtype \<Rightarrow> 'v res"
  he_proto_Unmarshal :: "byte list \<Rightarrow> rtype \<Rightarrow> 'v res"
  he_FromError :: "goerr \<Rightarrow> goerr"
  he_BadRequest :: "goerr \<Rightarrow> goerr"
  he_NotFound :: "goerr option \<Rightarrow> goerr"
  he_Status :: "goerr \<Rightarrow> 'v iface"
  he_customError :: "(goerr \<Rightarrow> 'v iface res) option"

fun rvalue_type :: "('v, 'w) handler_env \<Rightarrow> 'v rvalue \<Rightarrow> rtype option" where
  "rvalue_type env (VRecv r) = map_option (he_recv_type env) r"
| "rvalue_type env (VCtx c) = Some (he_ctx_type env)"
| "rvalue_type env (VArg v) = typeOf v"

definition accepts :: "('v, 'w) handler_env \<Rightarrow> rtype \<Rightarrow> 'v rvalue \<Rightarrow> bool" where
  "accepts env u v = (case rvalue_type env v of None \<Rightarrow> False | Some t \<Rightarrow> assignable (he_impl env) t u)"

text \<open>The arguments that \<open>Value.Call\<close> refuses with a panic: a wrong number of them, or one of a type
  that is not the parameter's.\<close>

definition call_refused :: "('v, 'w) handler_env \<Rightarrow> rmethod \<Rightarrow> 'v rvalue list \<Rightarrow> bool" where
  "call_refused env m args \<longleftrightarrow>
     length args \<noteq> length (m_In m) \<or> \<not> list_all2 (accepts env) (m_In m) args"

definition Value_Call :: "('v, 'w) handler_env \<Rightarrow> rmethod \<Rightarrow> 'v rvalue list \<Rightarrow> 'w \<Rightarrow> 'w \<times> 'v outcome" where
  "Value_Call env m args w =
     (if call_refused env m args then (w, Panics (PString ''reflect: Call'')) else he_run env (m_Func m) args w)"

fun recovered :: "panic_value \<Rightarrow> goerr" where
  "recovered (PString s) = ErrNew s"
| "recovered POther = ErrNew ''rpc call internal error''"

definition Pcall :: "('v, 'w) handler_env \<Rightarrow> rmethod \<Rightarrow> 'v rvalue list \<Rightarrow> 'w \<Rightarrow> 'w \<times> 'v iface \<times> goerr option" where
  "Pcall env m args w =
     (case Value_Call env m args w of
        (w, Panics p) \<Rightarrow> (w, NilV, Some (recovered p))
      | (w, Returns None) \<Rightarrow> (w, NilV, None)
      | (w, Returns (Some (v, Some e))) \<Rightarrow> (w, NilV, Some e)
      | (w, Returns (Some (v, None))) \<Rightarrow> if v \<noteq> NilV then (w, v, None) else (w, NilV, Some ErrReplyShouldBeNotNull))"

section \<open>Arguments and results\<close>

text \<open>\<open>None\<close> is the panic of \<open>Elem\<close> on a type without element type.\<close>

definition unmarshalHandlerArg :: "('v, 'w) handler_env \<Rightarrow> handler \<Rightarrow> byte list \<Rightarrow> 'v iface res option" where
  "unmarshalHandlerArg env h payload =
     (if h_IsRawArg h then Some (Inr (BytesV payload))
      else case h_Type h of
        None \<Rightarrow> Some (Inr NilV)
      | Some t \<Rightarrow>
          (case Elem t of
             None \<Rightarrow> None
           | Some u \<Rightarrow> Some (case he_Unmarshal env payload u of Inl e \<Rightarrow> Inl e | Inr v \<Rightarrow> Inr (PtrV u v))))"

definition unmarshalRemoteArg :: "('v, 'w) handler_env \<Rightarrow> remote \<Rightarrow> byte list \<Rightarrow> 'v iface res option" where
  "unmarshalRemoteArg env r payload =
     (case r_Type r of
        None \<Rightarrow> Some (Inr NilV)
      | Some t \<Rightarrow>
          (case Elem t of
             None \<Rightarrow> None
           | Some u \<Rightarrow>
               Some (if \<not> he_impl env (TPtr u) TProtoMsg then Inl ErrWrongValueType
                     else case he_proto_Unmarshal env payload u of Inl e \<Rightarrow> Inl e | Inr v \<Rightarrow> Inr (PtrV u v))))"

datatype msg_type_iface = MsgTypeV byte | ProtoMsgTypeV nat | OtherTypeV

abbreviation (input) MsgType_MsgRequest :: nat where "MsgType_MsgRequest \<equiv> 0"
abbreviation (input) MsgType_MsgNotify :: nat where "MsgType_MsgNotify \<equiv> 1"

definition ConvertProtoToMessageType :: "nat \<Rightarrow> byte" where
  "ConvertProtoToMessageType t =
     (if t = MsgType_MsgRequest then Request else if t = MsgType_MsgNotify then Notify else 0)"

fun getMsgType :: "msg_type_iface \<Rightarrow> byte res" where
  "getMsgType (MsgTypeV t) = Inr t"
| "getMsgType (ProtoMsgTypeV t) = Inr (ConvertProtoToMessageType t)"
| "getMsgType OtherTypeV = Inl (ErrNew ''invalid message type provided'')"

fun SerializeOrRaw :: "('v, 'w) handler_env \<Rightarrow> 'v iface \<Rightarrow> byte list res" where
  "SerializeOrRaw env (BytesV b) = Inr b"
| "SerializeOrRaw env v = he_Marshal env v"

definition GetErrorPayload :: "('v, 'w) handler_env \<Rightarrow> goerr \<Rightarrow> byte list res" where
  "GetErrorPayload env err =
     (case (case he_customError env of None \<Rightarrow> Inl err | Some f \<Rightarrow> f err) of
        Inr msg \<Rightarrow> SerializeOrRaw env msg
      | Inl _ \<Rightarrow> SerializeOrRaw env (he_Status env err))"

definition serializeReturn :: "('v, 'w) handler_env \<Rightarrow> 'v iface \<Rightarrow> byte list res" where
  "serializeReturn env ret =
     (case SerializeOrRaw env ret of Inr b \<Rightarrow> Inr b | Inl e \<Rightarrow> GetErrorPayload env e)"

section \<open>The pool of handlers\<close>

record handler_pool =
  hp_handlers :: "string \<rightharpoonup> handler"
  hp_interceptors :: "string \<rightharpoonup> nat"

definition NewHandlerPool :: handler_pool where
  "NewHandlerPool = \<lparr>hp_handlers = Map.empty, hp_interceptors = Map.empty\<rparr>"

definition pool_Register :: "string \<Rightarrow> string \<Rightarrow> handler \<Rightarrow> handler_pool \<Rightarrow> handler_pool" where
  "pool_Register serviceName name h hp =
     hp\<lparr>hp_handlers := (hp_handlers hp)(serviceName @ ''.'' @ name \<mapsto> h)\<rparr>"

definition RegisterInterceptor :: "string \<Rightarrow> nat \<Rightarrow> handler_pool \<Rightarrow> handler_pool" where
  "RegisterInterceptor serviceName i hp = hp\<lparr>hp_interceptors := (hp_interceptors hp)(serviceName \<mapsto> i)\<rparr>"

definition GetHandlers :: "handler_pool \<Rightarrow> (string \<rightharpoonup> handler)" where
  "GetHandlers hp = hp_handlers hp"

definition getHandler :: "handler_pool \<Rightarrow> route \<Rightarrow> handler res" where
  "getHandler hp rt =
     (case hp_handlers hp (RouteShort rt) of
        None \<Rightarrow> Inl (ErrNew ''pitaya/handler: not found'') | Some h \<Rightarrow> Inr h)"

definition getInterceptor :: "handler_pool \<Rightarrow> route \<Rightarrow> nat res" where
  "getInterceptor hp rt =
     (case hp_interceptors hp (Service rt) of
        None \<Rightarrow> Inl (ErrNew ''pitaya/handler/dispatcher: not found'') | Some i \<Rightarrow> Inr i)"

definition ack_reply :: "bool \<Rightarrow> byte \<Rightarrow> 'v iface \<Rightarrow> 'v iface" where
  "ack_reply remote msgType resp = (if remote \<and> msgType = Notify then BytesV (str_bytes ''ack'') else resp)"

definition call_interceptor ::
  "('v, 'w) handler_env \<Rightarrow> nat \<Rightarrow> hctx \<Rightarrow> route \<Rightarrow> byte list \<Rightarrow> msg_type_iface \<Rightarrow> bool \<Rightarrow> 'w \<Rightarrow> 'w \<times> byte list res" where
  "call_interceptor env i ctx rt payload msgTypeIface remote w =
     (case getMsgType msgTypeIface of
        Inl e \<Rightarrow> (w, Inl (he_FromError env e))
      | Inr msgType \<Rightarrow>
          (case he_intercept env i ctx rt payload w of
             (w, resp, Some e) \<Rightarrow> (w, Inl e)
           | (w, resp, None) \<Rightarrow> (w, serializeReturn env (ack_reply remote msgType resp))))"

definition handler_args :: "nat option \<Rightarrow> hctx \<Rightarrow> 'v iface \<Rightarrow> 'v rvalue list" where
  "handler_args receiver ctx arg = [VRecv receiver, VCtx ctx] @ (if arg \<noteq> NilV then [VArg arg] else [])"

text \<open>
  The call itself, in the goroutine of the caller or where the task provider of the component runs it. A
  provider that drops the task only calls the final function, and there is neither a response nor an
  error.
\<close>

definition run_handler ::
  "('v, 'w) handler_env \<Rightarrow> rmethod \<Rightarrow> nat option \<Rightarrow> (hctx \<Rightarrow> 'v rvalue list) \<Rightarrow> hctx \<Rightarrow> 'w \<Rightarrow> 'w \<times> 'v iface \<times> goerr option" where
  "run_handler env m taskgo args ctx w =
     (case taskgo of
        None \<Rightarrow> Pcall env m (args ctx) w
      | Some g \<Rightarrow> (case he_taskgo env g ctx of None \<Rightarrow> (w, NilV, None) | Some ctx' \<Rightarrow> Pcall env m (args ctx') w))"

text \<open>The receiver of a call: the component that was registered or the one the provider gives. \<open>None\<close> is a provider
  that gives nil.\<close>

definition receiver_of :: "('v, 'w) handler_env \<Rightarrow> nat option \<Rightarrow> options \<Rightarrow> hctx \<Rightarrow> nat option option" where
  "receiver_of env registered opt ctx =
     (case opt_ReceiverProvider opt of
        None \<Rightarrow> Some registered
      | Some p \<Rightarrow> map_option Some (he_provider env p ctx))"

definition call_handler ::
  "('v, 'w) handler_env \<Rightarrow> ('v, 'w) hooks \<Rightarrow> handler \<Rightarrow> hctx \<Rightarrow> route \<Rightarrow> byte list \<Rightarrow> byte \<Rightarrow> bool \<Rightarrow> 'w
     \<Rightarrow> ('w \<times> byte list res) option" where
  "call_handler env hooks h ctx rt payload msgType remote w =
     (case unmarshalHandlerArg env h payload of
        None \<Rightarrow> None
      | Some (Inl e) \<Rightarrow> Some (w, Inl (he_BadRequest env e))
      | Some (Inr arg) \<Rightarrow> Some
          (case ExecuteBeforePipeline (BeforeHandler hooks) ctx rt arg w of
             (w, ctx, arg, Some e) \<Rightarrow> (w, Inl e)
           | (w, ctx, arg, None) \<Rightarrow>
               (case receiver_of env (h_Receiver h) (h_Options h) ctx of
                  None \<Rightarrow> (w, Inl (he_NotFound env None))
                | Some receiver \<Rightarrow>
                    (case run_handler env (h_Method h) (opt_TaskGoProvider (h_Options h))
                            (\<lambda>ctx. handler_args receiver ctx arg) ctx w of
                       (w, resp, err) \<Rightarrow>
                         (case ExecuteAfterPipeline (AfterHandler hooks) ctx rt arg
                                 (ack_reply remote msgType resp) err w of
                            (w, resp, Some e) \<Rightarrow> (w, Inl e)
                          | (w, resp, None) \<Rightarrow> (w, serializeReturn env resp))))))"

definition ProcessHandlerMessage ::
  "('v, 'w) handler_env \<Rightarrow> ('v, 'w) hooks \<Rightarrow> handler_pool \<Rightarrow> hctx \<Rightarrow> route \<Rightarrow> nat \<Rightarrow> string \<Rightarrow> byte list
     \<Rightarrow> msg_type_iface \<Rightarrow> bool \<Rightarrow> 'w \<Rightarrow> ('w \<times> byte list res) option" where
  "ProcessHandlerMessage env hooks hp ctx rt sess sessUID payload msgTypeIface remote w =
     (let ctx = (if hc_values ctx = NilCtx then ctx\<lparr>hc_values := Ctx None\<rparr> else ctx);
          ctx = CtxWithDefaultLogger (RouteString rt) sessUID (ctx\<lparr>hc_session := Some sess\<rparr>)
      in case getInterceptor hp rt of
           Inr i \<Rightarrow> Some (call_interceptor env i ctx rt payload msgTypeIface remote w)
         | Inl _ \<Rightarrow>
             (case getHandler hp rt of
                Inl e \<Rightarrow> Some (w, Inl (he_NotFound env (Some e)))
              | Inr h \<Rightarrow>
                  (case getMsgType msgTypeIface of
                     Inl e \<Rightarrow> Some (w, Inl (he_FromError env e))
                   | Inr msgType \<Rightarrow>
                       (case ValidateMessageType h msgType of
                          (True, Some e) \<Rightarrow> Some (w, Inl (he_BadRequest env e))
                        | _ \<Rightarrow> call_handler env hooks h ctx rt payload msgType remote w))))"

text \<open>Registering a component with the handler service, \<open>HandlerService.Register\<close>. The names are those of the range loop over
  the handlers of the service.\<close>

record handler_services =
  hs_services :: "string \<rightharpoonup> service"
  hs_pool :: handler_pool

definition HandlerService_Register ::
  "impls \<Rightarrow> (string \<Rightarrow> bool) \<Rightarrow> comp_info \<Rightarrow> option_fn list \<Rightarrow> string list \<Rightarrow> handler_services
     \<Rightarrow> handler_services \<times> goerr option" where
  "HandlerService_Register impl upper c opts names hs =
     (let s = NewService c opts in
      if hs_services hs (svc_Name s) \<noteq> None then (hs, Some (ErrNew ''handler: service already defined''))
      else case ExtractHandler impl upper s of
        (s, Some e) \<Rightarrow> (hs, Some e)
      | (s, None) \<Rightarrow>
          (hs\<lparr>hs_services := (hs_services hs)(svc_Name s \<mapsto> s),
              hs_pool := fold (\<lambda>n. pool_Register (svc_Name s) n (the (svc_Handlers s n))) names (hs_pool hs)\<rparr>,
           None))"

section \<open>A message changes the state through user code only\<close>

text \<open>
  The contract of the code a message runs: a preorder on the states that the methods, the interceptors and the hooks keep to. The
  pool then keeps to it as well.
\<close>

locale user_code =
  fixes env :: "('v, 'w) handler_env" and hooks :: "('v, 'w) hooks" and R :: "'w \<Rightarrow> 'w \<Rightarrow> bool"
  assumes same: "R w w"
    and step: "R x y \<Longrightarrow> R y z \<Longrightarrow> R x z"
    and run: "R w (fst (he_run env f args w))"
    and intercept: "R w (fst (he_intercept env i ctx rt b w))"
    and before: "h \<in> set (BeforeHandler hooks) \<Longrightarrow> R w (fst (h ctx rt v w))"
    and after: "g \<in> set (AfterHandler hooks) \<Longrightarrow> R w (fst (g ctx rt inp v e w))"
begin

lemma before_pipeline: "set hs \<subseteq> set (BeforeHandler hooks) \<Longrightarrow> R w (fst (ExecuteBeforePipeline hs ctx rt v w))"
proof (induction hs arbitrary: ctx v w)
  case (Cons h hs)
  obtain w' ctx' v' e where h: "h ctx rt v w = (w', ctx', v', e)" by (metis prod_cases4)
  then have "R w w'" using before [of h w ctx rt v] Cons.prems by simp
  then show ?case using Cons step h by (cases e) auto
qed (simp add: same)

lemma after_pipeline: "set gs \<subseteq> set (AfterHandler hooks) \<Longrightarrow> R w (fst (ExecuteAfterPipeline gs ctx rt inp v e w))"
proof (induction gs arbitrary: v e w)
  case (Cons g gs)
  obtain w' v' e' where g: "g ctx rt inp v e w = (w', v', e')" by (metis prod_cases3)
  then have "R w w'" using after [of g w ctx rt inp v e] Cons.prems by simp
  then show ?case using Cons step g by auto
qed (simp add: same)

lemma pcall: "R w (fst (Pcall env m args w))"
proof -
  obtain w' r where c: "Value_Call env m args w = (w', r)" by fastforce
  have "R w w'"
    using c run [of w "m_Func m" args] same by (simp add: Value_Call_def split: if_splits)
  then show ?thesis by (simp add: Pcall_def c split: outcome.splits option.splits prod.splits)
qed

lemma run_handler: "R w (fst (run_handler env m taskgo args ctx w))"
  using pcall same by (simp add: run_handler_def split: option.splits)

lemma call_handler:
  assumes "call_handler env hooks h ctx rt b t rem w = Some (w', r)"
  shows "R w w'"
proof (cases "unmarshalHandlerArg env h b")
  case (Some d)
  show ?thesis
  proof (cases d)
    case (Inl e)
    then show ?thesis using assms Some same by (simp add: call_handler_def)
  next
    case (Inr arg)
    obtain w1 c1 v1 e1 where 1: "ExecuteBeforePipeline (BeforeHandler hooks) ctx rt arg w = (w1, c1, v1, e1)"
      by (metis prod_cases4)
    then have w1: "R w w1" using before_pipeline [of "BeforeHandler hooks" w ctx rt arg] by simp
    show ?thesis
    proof (cases "e1 = None \<and> receiver_of env (h_Receiver h) (h_Options h) c1 \<noteq> None")
      case True
      then obtain rc where rc: "receiver_of env (h_Receiver h) (h_Options h) c1 = Some rc" and e1: "e1 = None" by auto
      obtain w2 v2 e2 where 2: "run_handler env (h_Method h) (opt_TaskGoProvider (h_Options h))
          (\<lambda>ctx. handler_args rc ctx v1) c1 w1 = (w2, v2, e2)" by (metis prod_cases3)
      then have w2: "R w1 w2" using run_handler by (metis fst_conv)
      obtain w3 v3 e3 where 3: "ExecuteAfterPipeline (AfterHandler hooks) c1 rt v1 (ack_reply rem t v2) e2 w2 = (w3, v3, e3)"
        by (metis prod_cases3)
      then have "R w2 w3" using after_pipeline [of "AfterHandler hooks" w2 c1 rt v1 "ack_reply rem t v2" e2] by simp
      then have "R w w3" using w1 w2 step by blast
      moreover have "w' = w3" using assms Some Inr 1 e1 rc 2 3 by (cases e3) (simp_all add: call_handler_def)
      ultimately show ?thesis by simp
    next
      case False
      then have "w' = w1" using assms Some Inr 1 by (cases e1) (auto simp: call_handler_def split: option.splits)
      then show ?thesis using w1 by simp
    qed
  qed
qed (use assms in \<open>simp add: call_handler_def\<close>)

lemma process:
  assumes "ProcessHandlerMessage env hooks hp ctx rt s u b t rem w = Some (w', r)"
  shows "R w w'"
proof (cases "getInterceptor hp rt")
  case (Inl e)
  then show ?thesis
    using assms same call_handler
    by (auto simp: ProcessHandlerMessage_def ValidateMessageType_def Let_def split: sum.splits)
next
  case (Inr i)
  then obtain c where c: "call_interceptor env i c rt b t rem w = (w', r)"
    using assms by (auto simp: ProcessHandlerMessage_def Let_def)
  show ?thesis
  proof (cases "getMsgType t")
    case (Inl e)
    then show ?thesis using c same by (simp add: call_interceptor_def)
  next
    case (Inr ty)
    obtain w1 v1 e1 where 1: "he_intercept env i c rt b w = (w1, v1, e1)" by (metis prod_cases3)
    then have "R w w1" using intercept by (metis fst_conv)
    moreover have "w' = w1" using c Inr 1 by (cases e1) (auto simp: call_interceptor_def)
    ultimately show ?thesis by simp
  qed
qed

end

text \<open>The least such preorder: the states that runs of user code lead to.\<close>

inductive ran :: "('v, 'w) handler_env \<Rightarrow> ('v, 'w) hooks \<Rightarrow> 'w \<Rightarrow> 'w \<Rightarrow> bool" for env hooks where
  ran_same: "ran env hooks w w"
| ran_run: "ran env hooks u w \<Longrightarrow> ran env hooks u (fst (he_run env f args w))"
| ran_intercept: "ran env hooks u w \<Longrightarrow> ran env hooks u (fst (he_intercept env i ctx rt b w))"
| ran_before: "ran env hooks u w \<Longrightarrow> h \<in> set (BeforeHandler hooks) \<Longrightarrow> ran env hooks u (fst (h ctx rt v w))"
| ran_after: "ran env hooks u w \<Longrightarrow> g \<in> set (AfterHandler hooks) \<Longrightarrow> ran env hooks u (fst (g ctx rt inp v e w))"

lemma ran_trans: "ran env hooks v w \<Longrightarrow> ran env hooks u v \<Longrightarrow> ran env hooks u w"
  by (induction rule: ran.induct) (auto intro: ran.intros)

interpretation messages: user_code env hooks "ran env hooks" for env hooks
  by unfold_locales (auto intro: ran.intros ran_trans)

lemma ran_invariant:
  assumes "ran env hooks u w" and "\<And>x. R x x" and "\<And>x y z. R x y \<Longrightarrow> R y z \<Longrightarrow> R x z"
    and "\<And>f args w. R w (fst (he_run env f args w))" and "\<And>i ctx rt b w. R w (fst (he_intercept env i ctx rt b w))"
    and "\<And>h ctx rt v w. h \<in> set (BeforeHandler hooks) \<Longrightarrow> R w (fst (h ctx rt v w))"
    and "\<And>g ctx rt inp v e w. g \<in> set (AfterHandler hooks) \<Longrightarrow> R w (fst (g ctx rt inp v e w))"
  shows "R u w"
  using assms(1)
proof induction
  case (ran_same w)
  show ?case by (rule assms(2))
next
  case (ran_run u w f args)
  then show ?case using assms(3) [OF _ assms(4)] by simp
next
  case (ran_intercept u w i ctx rt b)
  then show ?case using assms(3) [OF _ assms(5)] by simp
next
  case (ran_before u w h ctx rt v)
  then show ?case using assms(3) [OF _ assms(6)] by simp
next
  case (ran_after u w g ctx rt inp v e)
  then show ?case using assms(3) [OF _ assms(7)] by simp
qed

section \<open>Registered handlers are called with fitting arguments\<close>

text \<open>
  What the language guarantees of a component: the first parameter of its methods is the component
  itself.
\<close>

definition comp_typed :: "('v, 'w) handler_env \<Rightarrow> comp_info \<Rightarrow> bool" where
  "comp_typed env c \<longleftrightarrow>
     (\<forall>m \<in> set (comp_Methods c). m_In m \<noteq> [] \<and> m_In m ! 0 = comp_Type c) \<and> he_recv_type env (comp_Value c) = comp_Type c"

text \<open>The services that come about by registering components, in any number and order.\<close>

inductive registered :: "('v, 'w) handler_env \<Rightarrow> (string \<Rightarrow> bool) \<Rightarrow> handler_services \<Rightarrow> bool"
  for env upper where
  start: "registered env upper \<lparr>hs_services = Map.empty, hs_pool = NewHandlerPool\<rparr>"
| register: "registered env upper hs \<Longrightarrow> comp_typed env c \<Longrightarrow>
    fst (ExtractHandler (he_impl env) upper (NewService c opts)) = s \<Longrightarrow> set names = dom (svc_Handlers s) \<Longrightarrow>
    HandlerService_Register (he_impl env) upper c opts names hs = (hs', err) \<Longrightarrow> registered env upper hs'"
| intercept: "registered env upper hs \<Longrightarrow>
    registered env upper (hs\<lparr>hs_pool := RegisterInterceptor name i (hs_pool hs)\<rparr>)"

definition pool_typed :: "('v, 'w) handler_env \<Rightarrow> handler_pool \<Rightarrow> bool" where
  "pool_typed env hp \<longleftrightarrow>
     (\<forall>n h. hp_handlers hp n = Some h \<longrightarrow>
        handler_typed (he_impl env) h \<and>
        (\<exists>r. h_Receiver h = Some r \<and> he_recv_type env r = m_In (h_Method h) ! 0))"

lemma pool_Register_typed [inv_intros]:
  assumes "pool_typed env hp" and "handler_typed (he_impl env) h"
    and "h_Receiver h = Some r" and "he_recv_type env r = m_In (h_Method h) ! 0"
  shows "pool_typed env (pool_Register sn n h hp)"
  using assms by (simp add: pool_typed_def pool_Register_def)

lemma Register_typed:
  assumes "pool_typed env (hs_pool hs)" and c: "comp_typed env c"
    and s: "fst (ExtractHandler (he_impl env) upper (NewService c opts)) = s" and names: "set names = dom (svc_Handlers s)"
    and reg: "HandlerService_Register (he_impl env) upper c opts names hs = (hs', err)"
  shows "pool_typed env (hs_pool hs')"
proof (cases "hs_pool hs' = hs_pool hs")
  case False
  then have ext: "ExtractHandler (he_impl env) upper (NewService c opts) = (s, None)"
    and hs': "hs_pool hs' = fold (\<lambda>n. pool_Register (svc_Name s) n (the (svc_Handlers s n))) names (hs_pool hs)"
    using reg s by (auto simp: HandlerService_Register_def Let_def split: if_splits prod.splits option.splits)
  have comp: "svc_Comp (NewService c opts) = c" by (simp add: NewService_def Let_def)
  have "pool_typed env (fold (\<lambda>n. pool_Register (svc_Name s) n (the (svc_Handlers s n))) ns hp)"
    if "set ns \<subseteq> dom (svc_Handlers s)" "pool_typed env hp" for ns hp
    using that
  proof (induction ns arbitrary: hp)
    case (Cons n ns)
    then obtain h where h: "svc_Handlers s n = Some h" by auto
    note e = ExtractHandler_handlers [OF ext h, unfolded comp]
    have "he_recv_type env (comp_Value c) = m_In (h_Method h) ! 0" using c e(4) by (simp add: comp_typed_def)
    then have "pool_typed env (pool_Register (svc_Name s) n h hp)"
      using Cons.prems(2) e(1,2) by (intro pool_Register_typed)
    then show ?case using Cons h by simp
  qed simp
  then show ?thesis using assms(1) names hs' by simp
qed (use assms(1) in simp)

lemma registered_typed: "registered env upper hs \<Longrightarrow> pool_typed env (hs_pool hs)"
proof (induction rule: registered.induct)
  case start
  then show ?case by (simp add: pool_typed_def NewHandlerPool_def)
next
  case (register hs c opts s names hs' err)
  then show ?case using Register_typed by blast
next
  case (intercept hs name i)
  then show ?case by (simp add: pool_typed_def RegisterInterceptor_def)
qed

text \<open>Hooks that leave the type of the argument as it is.\<close>

definition keeps_types :: "('v, 'w) before_hook list \<Rightarrow> bool" where
  "keeps_types hs \<longleftrightarrow>
     (\<forall>h \<in> set hs. \<forall>ctx rt v w w' ctx' v'. h ctx rt v w = (w', ctx', v', None) \<longrightarrow> typeOf v' = typeOf v)"

lemma ExecuteBeforePipeline_types:
  assumes "keeps_types hs" and "ExecuteBeforePipeline hs ctx rt v w = (w', ctx', v', None)"
  shows "typeOf v' = typeOf v"
  using assms
proof (induction hs arbitrary: ctx v w)
  case (Cons h hs)
  then show ?case
    by (auto simp: keeps_types_def split: prod.splits option.splits)
qed simp

lemma typeOf_None [simp]: "typeOf v = None \<longleftrightarrow> v = NilV"
  by (cases v) auto

lemma unmarshalHandlerArg_typed:
  assumes "handler_typed impl h"
  obtains e where "unmarshalHandlerArg env h payload = Some (Inl e)"
  | v where "unmarshalHandlerArg env h payload = Some (Inr v)" "typeOf v = h_Type h"
  using assms
proof (cases rule: handler_typed_cases)
  case (pointer t)
  then show ?thesis
    using that by (cases "he_Unmarshal env payload t") (simp_all add: unmarshalHandlerArg_def)
qed (use that in \<open>simp_all add: unmarshalHandlerArg_def\<close>)

lemma handler_args_fit:
  assumes h: "handler_typed (he_impl env) h" and recv: "he_recv_type env r = m_In (h_Method h) ! 0"
    and ctx: "assignable (he_impl env) (he_ctx_type env) (m_In (h_Method h) ! 1)" and arg: "typeOf arg = h_Type h"
  shows "\<not> call_refused env (h_Method h) (handler_args (Some r) c arg)"
proof -
  let ?ins = "m_In (h_Method h)"
  have two: "accepts env (?ins ! 0) (VRecv (Some r))" "accepts env (?ins ! 1) (VCtx c)"
    using recv ctx by (simp_all add: accepts_def assignable_def)
  from h show ?thesis
  proof (cases rule: handler_typed_cases)
    case no_arg
    then have "?ins = [?ins ! 0, ?ins ! 1]" by (auto simp: length_Suc_conv numeral_2_eq_2)
    then have "list_all2 (accepts env) ?ins [VRecv (Some r), VCtx c]" using two by (metis list_all2_Cons list_all2_Nil)
    then show ?thesis using no_arg arg by (simp add: call_refused_def handler_args_def)
  next
    case raw
    then have "?ins = [?ins ! 0, ?ins ! 1, TBytes]" by (auto simp: length_Suc_conv numeral_3_eq_3)
    moreover have "accepts env TBytes (VArg arg)" using raw arg by (simp add: accepts_def assignable_def)
    ultimately have "list_all2 (accepts env) ?ins [VRecv (Some r), VCtx c, VArg arg]"
      using two by (metis list_all2_Cons list_all2_Nil)
    moreover have "arg \<noteq> NilV" using raw arg by auto
    ultimately show ?thesis using raw by (simp add: call_refused_def handler_args_def)
  next
    case (pointer t)
    then have "?ins = [?ins ! 0, ?ins ! 1, TPtr t]" by (auto simp: length_Suc_conv numeral_3_eq_3)
    moreover have "accepts env (TPtr t) (VArg arg)" using pointer arg by (simp add: accepts_def assignable_def)
    ultimately have "list_all2 (accepts env) ?ins [VRecv (Some r), VCtx c, VArg arg]"
      using two by (metis list_all2_Cons list_all2_Nil)
    moreover have "arg \<noteq> NilV" using pointer arg by auto
    ultimately show ?thesis using pointer by (simp add: call_refused_def handler_args_def)
  qed
qed


text \<open>A component with one handler that takes a pointer, and an environment in which it runs.\<close>

definition room_join :: rmethod where
  "room_join = \<lparr>m_Name = ''Join'', m_PkgPath = [], m_In = [TPtr (TNamed ''Room''), TContext, TPtr (TNamed ''JoinReq'')],
     m_Out = [TPtr (TNamed ''JoinResp''), TError], m_Func = 1\<rparr>"

definition room :: comp_info where
  "room = \<lparr>comp_Type = TPtr (TNamed ''Room''), comp_TypeName = ''Room'', comp_Methods = [room_join],
     comp_PtrMethods = [], comp_Value = 7\<rparr>"

definition handler_example :: "(byte list, nat) handler_env" where
  "handler_example =
     \<lparr>he_impl = (\<lambda>t u. t = u \<and> is_Interface u \<or> t = TPtr (TNamed ''valueCtx'') \<and> u = TContext),
      he_recv_type = (\<lambda>_. TPtr (TNamed ''Room'')), he_ctx_type = TPtr (TNamed ''valueCtx''),
      he_run = (\<lambda>f args n. (n + 1, Returns (Some (PtrV (TNamed ''JoinResp'') [1], None)))),
      he_provider = (\<lambda>_ _. None), he_taskgo = (\<lambda>_ ctx. Some ctx), he_intercept = (\<lambda>_ _ _ _ n. (n, NilV, None)),
      he_Marshal = (\<lambda>v. case v of PtrV t b \<Rightarrow> Inr b | _ \<Rightarrow> Inl ErrWrongValueType),
      he_Unmarshal = (\<lambda>b t. Inr b), he_proto_Unmarshal = (\<lambda>b t. Inr b), he_FromError = (\<lambda>e. e),
      he_BadRequest = (\<lambda>e. e), he_NotFound = (\<lambda>_. ErrNew ''not found''), he_Status = (\<lambda>e. PtrV (TNamed ''Status'') [0]),
      he_customError = None\<rparr>"

definition room_services :: handler_services where
  "room_services = fst (HandlerService_Register (he_impl handler_example) (\<lambda>_. False) room [] [''Join'']
     \<lparr>hs_services = Map.empty, hs_pool = NewHandlerPool\<rparr>)"

lemma room_join_suitable: "isHandlerMethod (he_impl handler_example) room_join"
  by (simp add: isHandlerMethod_def room_join_def handler_example_def)

definition room_service :: service where
  "room_service = fst (ExtractHandler (he_impl handler_example) (\<lambda>_. False) (NewService room []))"

definition room_handler :: handler where
  "room_handler = (handler_of room_join)\<lparr>h_Receiver := Some 7, h_Options := zero_options\<rparr>"

lemma room_extract:
  "ExtractHandler (he_impl handler_example) (\<lambda>_. False) (NewService room []) = (room_service, None)"
  "svc_Handlers room_service = [''Join'' \<mapsto> room_handler]" "svc_Name room_service = ''Room''"
  using room_join_suitable
  by (auto simp: room_service_def ExtractHandler_def NewService_def apply_options_def zero_options_def room_def isExported_def
      suitableHandlerMethods_def renamed_def room_join_def room_handler_def Let_def fun_eq_iff)

lemma room_registered: "registered handler_example (\<lambda>_. False) room_services"
proof (rule registered.register [OF registered.start])
  show "comp_typed handler_example room"
    by (simp add: comp_typed_def room_def room_join_def handler_example_def)
  show "fst (ExtractHandler (he_impl handler_example) (\<lambda>_. False) (NewService room [])) = room_service"
    by (simp add: room_service_def)
  show "set [''Join''] = dom (svc_Handlers room_service)" by (simp add: room_extract)
  show "HandlerService_Register (he_impl handler_example) (\<lambda>_. False) room [] [''Join'']
      \<lparr>hs_services = Map.empty, hs_pool = NewHandlerPool\<rparr> = (room_services, None)"
    by (simp add: room_services_def HandlerService_Register_def Let_def room_extract)
qed

lemma room_getHandler: "getHandler (hs_pool room_services) (NewRoute [] ''Room'' ''Join'') = Inr room_handler"
  by (simp add: getHandler_def room_services_def HandlerService_Register_def Let_def room_extract pool_Register_def RouteShort_def
      NewRoute_def)


end
