(* ===== verification/Agent.thy ===== *)
theory Agent
  imports Session_Pool Handler_Pool Packet
begin

text \<open>
  The agent of a client connection, \<open>agent/agent.go\<close>: the queue of messages to the client and the goroutine that writes
  them, heartbeats, kicking and closing. An agent is the network entity behind a session of the session
  pool; the agents of a frontend live beside the cluster's cache in the part of the pool's state that is outside the
  pool, so that closing a session closes its agent and closing an agent runs the callbacks on the pool. Whatever
  happens to an agent, in whatever order, its close callbacks are started at most once, and they have been started exactly
  when its channels are closed.
\<close>

section \<open>Agents\<close>

abbreviation StatusStart :: "32 word" where "StatusStart \<equiv> 1"
abbreviation StatusHandshake :: "32 word" where "StatusHandshake \<equiv> 2"
abbreviation StatusWorking :: "32 word" where "StatusWorking \<equiv> 3"
abbreviation StatusClosed :: "32 word" where "StatusClosed \<equiv> 4"

text \<open>
  The channels that are only closed are flags. \<open>ag_chSend\<close> are the bytes of the pending writes: those in the buffer, and
  behind them those of goroutines that wait to send, in the order in which Go serves them. The connection is \<open>'k\<close>.
\<close>

record 'k agent =
  ag_Session :: nat
  ag_chDie :: bool
  ag_chSend :: "byte list list"
  ag_chStopHeartbeat :: bool
  ag_chStopWrite :: bool
  ag_chStopKeepCacheAlive :: bool
  ag_conn :: 'k
  ag_heartbeatTimeout :: i64
  ag_lastAt :: i64
  ag_messagesBufferSize :: nat
  ag_state :: "32 word"

record 'v pending_message =
  pm_typ :: byte
  pm_route :: string
  pm_mid :: u64
  pm_payload :: "'v iface"
  pm_err :: bool

text \<open>A task that waits for a worker: a message of a client, with the agent it came from.\<close>

datatype task = LocalTask hctx nat route message | RemoteTask hctx nat route message

text \<open>
  The rest of a frontend, beside the session pool: the cache, the agents and the tasks that wait in the pools of workers,
  by pool and worker. \<open>fr_closed\<close> is a history variable that the code does not have: the agents whose close callbacks have been
  started, in this order.
\<close>

record ('d, 'k) front =
  fr_cache :: 'd
  fr_agents :: "nat \<Rightarrow> 'k agent"
  fr_next :: nat
  fr_tasks :: "string \<times> i64 \<Rightarrow> task list"
  fr_closed :: "nat list"

type_synonym ('d, 'k) world = "('d, 'k) front pool"

definition agent_at :: "('d, 'k) world \<Rightarrow> nat \<Rightarrow> 'k agent" where
  "agent_at P a = fr_agents (storage P) a"

definition upd_agent :: "nat \<Rightarrow> ('k agent \<Rightarrow> 'k agent) \<Rightarrow> ('d, 'k) world \<Rightarrow> ('d, 'k) world" where
  "upd_agent a f P =
     P\<lparr>storage := (storage P)\<lparr>fr_agents := (fr_agents (storage P))(a := f (fr_agents (storage P) a))\<rparr>\<rparr>"

text \<open>
  What agents call. Connections: writing, deadlines, closing, and the close frame of a websocket. The message encoder with its
  dictionary. The close callbacks of a session and of the pool, with whether they panicked. \<open>ae_pick\<close> decides between two
  cases of a select statement that are both ready. \<open>ae_Submit\<close> tells whether a pool of workers takes a task.
  \<open>ae_hello\<close> is what \<open>json.Marshal\<close> makes of the handshake answer with the status code given.
\<close>

record ('d, 'k, 'v) agent_env =
  ae_handler :: "('v, ('d, 'k) world) handler_env"
  ae_compress :: bool
  ae_zlib :: "byte list zlib"
  ae_dict :: dictionary
  ae_SetWriteDeadline :: "int \<Rightarrow> 'k \<Rightarrow> 'k \<times> goerr option"
  ae_Write :: "byte list \<Rightarrow> 'k \<Rightarrow> 'k \<times> goerr option"
  ae_conn_Close :: "'k \<Rightarrow> 'k \<times> goerr option"
  ae_isWS :: "'k \<Rightarrow> bool"
  ae_WriteControl :: "i64 \<Rightarrow> 'k \<Rightarrow> 'k \<times> goerr option"
  ae_RemoteIP :: "'k \<Rightarrow> string res"
  ae_on_close :: "nat \<Rightarrow> ('d, 'k) world \<Rightarrow> ('d, 'k) world \<times> bool"
  ae_on_session_close :: "nat \<Rightarrow> nat \<Rightarrow> cbk \<Rightarrow> i64 \<Rightarrow> ('d, 'k) world \<Rightarrow> ('d, 'k) world \<times> bool"
  ae_pick :: "'k agent \<Rightarrow> bool"
  ae_Submit :: "string \<Rightarrow> i64 \<Rightarrow> bool"
  ae_hello :: "nat \<Rightarrow> byte list res"
  ae_Expire :: "string \<Rightarrow> 'd \<Rightarrow> 'd \<times> goerr option"

section \<open>The packets every agent sends\<close>

definition encodeAndCompress :: "('d, 'k, 'v) agent_env \<Rightarrow> nat \<Rightarrow> byte list res" where
  "encodeAndCompress env code =
     and_then (ae_hello env code) (\<lambda>encData.
       if ae_compress env
       then and_then (DeflateData (ae_zlib env) encData) (\<lambda>compressedData.
              Inr (if length compressedData < length encData then compressedData else encData))
       else Inr encData)"

text \<open>The handshake answer, the heartbeat and its acknowledgement; \<open>None\<close> is the panic when one of them cannot be encoded.\<close>

definition hbdEncode :: "('d, 'k, 'v) agent_env \<Rightarrow> (byte list \<times> byte list \<times> byte list) option" where
  "hbdEncode env =
     (case encodeAndCompress env 200 of
        Inl e \<Rightarrow> None
      | Inr b \<Rightarrow>
          (case (PacketEncode Handshake b, PacketEncode Heartbeat [], PacketEncode HeartbeatAck []) of
             (Inr hrd, Inr hbd, Inr hbAck) \<Rightarrow> Some (hrd, hbd, hbAck)
           | _ \<Rightarrow> None))"

definition herdEncode :: "('d, 'k, 'v) agent_env \<Rightarrow> byte list option" where
  "herdEncode env =
     (case encodeAndCompress env 400 of
        Inl e \<Rightarrow> None
      | Inr b \<Rightarrow> (case PacketEncode Handshake b of Inl e \<Rightarrow> None | Inr herd \<Rightarrow> Some herd))"

definition hrd :: "('d, 'k, 'v) agent_env \<Rightarrow> byte list" where
  "hrd env = (case hbdEncode env of None \<Rightarrow> [] | Some (h, b, k) \<Rightarrow> h)"

definition hbAck :: "('d, 'k, 'v) agent_env \<Rightarrow> byte list" where
  "hbAck env = (case hbdEncode env of None \<Rightarrow> [] | Some (h, b, k) \<Rightarrow> k)"

definition herd :: "('d, 'k, 'v) agent_env \<Rightarrow> byte list" where
  "herd env = (case herdEncode env of None \<Rightarrow> [] | Some h \<Rightarrow> h)"

section \<open>Creating an agent\<close>

text \<open>\<open>newAgent\<close>, at the time \<open>now\<close> in nanoseconds; the buffer size and the heartbeat timeout are those of the factory.\<close>

definition unix_seconds :: "int \<Rightarrow> i64" where
  "unix_seconds now = word_of_int (now div 1000000000)"

definition newAgent ::
  "('d, 'k, 'v) agent_env \<Rightarrow> int \<Rightarrow> 'k \<Rightarrow> nat \<Rightarrow> i64 \<Rightarrow> string \<Rightarrow> ('d, 'k) world \<Rightarrow> (nat \<times> ('d, 'k) world) option" where
  "newAgent env now conn bufSize hbTimeout serverID P =
     (if hbdEncode env = None \<or> herdEncode env = None then None
      else
        let a = fr_next (storage P);
            P = P\<lparr>storage := (storage P)\<lparr>fr_next := a + 1\<rparr>\<rparr>;
            (q, _, P) = NewSession (unix_seconds now) a True [] P;
            P = upd_agent a (\<lambda>_.
              \<lparr>ag_Session = q, ag_chDie = False, ag_chSend = [], ag_chStopHeartbeat = False, ag_chStopWrite = False,
               ag_chStopKeepCacheAlive = False, ag_conn = conn, ag_heartbeatTimeout = hbTimeout,
               ag_lastAt = unix_seconds now, ag_messagesBufferSize = bufSize, ag_state = StatusStart\<rparr>) P;
            P = upd q (\<lambda>s. SetFrontendData serverID (sess_id s) s) P;
            P = (case ae_RemoteIP env conn of Inl e \<Rightarrow> P | Inr ip \<Rightarrow> upd q (SetIP ip) P)
        in Some (a, P))"

section \<open>Sending\<close>

definition getMessageFromPendingMessage :: "('d, 'k, 'v) agent_env \<Rightarrow> 'v pending_message \<Rightarrow> message res" where
  "getMessageFromPendingMessage env pm =
     (case (case SerializeOrRaw (ae_handler env) (pm_payload pm) of
              Inr b \<Rightarrow> Inr b | Inl e \<Rightarrow> GetErrorPayload (ae_handler env) e) of
        Inl e \<Rightarrow> Inl e
      | Inr payload \<Rightarrow>
          Inr \<lparr>msg_Type = pm_typ pm, msg_ID = pm_mid pm, msg_Route = pm_route pm, msg_Data = payload,
               msg_compressed = False, msg_Err = pm_err pm\<rparr>)"

definition packetEncodeMessage :: "('d, 'k, 'v) agent_env \<Rightarrow> message \<Rightarrow> byte list res" where
  "packetEncodeMessage env m =
     (case MessageEncode (ae_compress env) (ae_zlib env) (ae_dict env) m of
        Inl e \<Rightarrow> Inl e
      | Inr (em, _) \<Rightarrow> PacketEncode DataPacket em)"

text \<open>
  The select statement of every sender: into the queue, unless the agent is dead, in which case the write is
  dropped when there is no room, and queued or dropped when there is.
\<close>

definition enqueue :: "('d, 'k, 'v) agent_env \<Rightarrow> byte list \<Rightarrow> 'k agent \<Rightarrow> 'k agent" where
  "enqueue env p ag =
     (if ag_chDie ag \<and> (\<not> ae_pick env ag \<or> ag_messagesBufferSize ag \<le> length (ag_chSend ag)) then ag
      else ag\<lparr>ag_chSend := ag_chSend ag @ [p]\<rparr>)"

definition agent_send ::
  "('d, 'k, 'v) agent_env \<Rightarrow> nat \<Rightarrow> 'v pending_message \<Rightarrow> ('d, 'k) world \<Rightarrow> ('d, 'k) world \<times> goerr option" where
  "agent_send env a pm P =
     (case getMessageFromPendingMessage env pm of
        Inl e \<Rightarrow> (P, Some e)
      | Inr m \<Rightarrow>
          (case packetEncodeMessage env m of
             Inl e \<Rightarrow> (P, Some e)
           | Inr p \<Rightarrow> (upd_agent a (enqueue env p) P, None)))"

definition agent_Push ::
  "('d, 'k, 'v) agent_env \<Rightarrow> nat \<Rightarrow> string \<Rightarrow> 'v iface \<Rightarrow> ('d, 'k) world \<Rightarrow> ('d, 'k) world \<times> goerr option" where
  "agent_Push env a rt v P =
     (if ag_state (agent_at P a) = StatusClosed then (P, Some ErrBrokenPipe)
      else agent_send env a \<lparr>pm_typ = Push, pm_route = rt, pm_mid = 0, pm_payload = v, pm_err = False\<rparr> P)"

abbreviation ServerInternalErrorToClientRoute :: string where "ServerInternalErrorToClientRoute \<equiv> ''internal.error''"

definition agent_ResponseMID ::
  "('d, 'k, 'v) agent_env \<Rightarrow> nat \<Rightarrow> u64 \<Rightarrow> 'v iface \<Rightarrow> bool list \<Rightarrow> ('d, 'k) world \<Rightarrow> ('d, 'k) world \<times> goerr option" where
  "agent_ResponseMID env a mid v isError P =
     (let err = (case isError of [] \<Rightarrow> False | e # _ \<Rightarrow> e) in
      if ag_state (agent_at P a) = StatusClosed then (P, Some ErrBrokenPipe)
      else if mid = 0 then
        if \<not> err then (P, Some ErrSessionOnNotify)
        else agent_send env a
               \<lparr>pm_typ = Push, pm_route = ServerInternalErrorToClientRoute, pm_mid = 0, pm_payload = v, pm_err = err\<rparr> P
      else agent_send env a \<lparr>pm_typ = Response, pm_route = [], pm_mid = mid, pm_payload = v, pm_err = err\<rparr> P)"

definition sess_Push ::
  "('d, 'k, 'v) agent_env \<Rightarrow> nat \<Rightarrow> string \<Rightarrow> 'v iface \<Rightarrow> ('d, 'k) world \<Rightarrow> ('d, 'k) world \<times> goerr option" where
  "sess_Push env q rt v P = agent_Push env (entity (heap P q)) rt v P"

definition sess_ResponseMID ::
  "('d, 'k, 'v) agent_env \<Rightarrow> nat \<Rightarrow> u64 \<Rightarrow> 'v iface \<Rightarrow> bool list \<Rightarrow> ('d, 'k) world \<Rightarrow> ('d, 'k) world \<times> goerr option" where
  "sess_ResponseMID env q mid v isError P = agent_ResponseMID env (entity (heap P q)) mid v isError P"

definition AnswerWithError ::
  "('d, 'k, 'v) agent_env \<Rightarrow> nat \<Rightarrow> u64 \<Rightarrow> goerr \<Rightarrow> ('d, 'k) world \<Rightarrow> ('d, 'k) world" where
  "AnswerWithError env a mid err P =
     (case GetErrorPayload (ae_handler env) err of
        Inl e \<Rightarrow> P
      | Inr p \<Rightarrow> fst (sess_ResponseMID env (ag_Session (agent_at P a)) mid (BytesV p) [True] P))"

section \<open>The connection\<close>

text \<open>Writing with a deadline of five seconds from the time \<open>now\<close> in nanoseconds.\<close>

definition connWriteWithDeadline :: "('d, 'k, 'v) agent_env \<Rightarrow> int \<Rightarrow> byte list \<Rightarrow> 'k \<Rightarrow> 'k \<times> goerr option" where
  "connWriteWithDeadline env now b k =
     (case ae_SetWriteDeadline env (now + 5 * 1000000000) k of
        (k, Some e) \<Rightarrow> (k, Some e)
      | (k, None) \<Rightarrow> ae_Write env b k)"

definition agent_connWrite ::
  "('d, 'k, 'v) agent_env \<Rightarrow> int \<Rightarrow> nat \<Rightarrow> byte list \<Rightarrow> ('d, 'k) world \<Rightarrow> ('d, 'k) world \<times> goerr option" where
  "agent_connWrite env now a b P =
     (let r = connWriteWithDeadline env now b (ag_conn (agent_at P a))
      in (upd_agent a (ag_conn_update (\<lambda>_. fst r)) P, snd r))"

definition big_endian :: "nat \<Rightarrow> 'a::len word \<Rightarrow> byte list" where
  "big_endian n w = map (\<lambda>i. ucast (drop_bit (8 * i) w)) (rev [0..<n])"

definition agent_Kick ::
  "('d, 'k, 'v) agent_env \<Rightarrow> int \<Rightarrow> nat \<Rightarrow> i64 list \<Rightarrow> ('d, 'k) world \<Rightarrow> ('d, 'k) world \<times> goerr option" where
  "agent_Kick env now a reason P =
     (let kickReason = (case reason of [] \<Rightarrow> CloseReasonKickRebind | r # _ \<Rightarrow> r);
          bs = big_endian 4 (ucast kickReason :: 32 word) in
      case PacketEncode KickPacket bs of
        Inl e \<Rightarrow> (P, Some e)
      | Inr p \<Rightarrow> agent_connWrite env now a p P)"

definition SendHandshakeResponse ::
  "('d, 'k, 'v) agent_env \<Rightarrow> int \<Rightarrow> nat \<Rightarrow> ('d, 'k) world \<Rightarrow> ('d, 'k) world \<times> goerr option" where
  "SendHandshakeResponse env now a P = agent_connWrite env now a (hrd env) P"

definition SendHandshakeErrorResponse ::
  "('d, 'k, 'v) agent_env \<Rightarrow> int \<Rightarrow> nat \<Rightarrow> ('d, 'k) world \<Rightarrow> ('d, 'k) world \<times> goerr option" where
  "SendHandshakeErrorResponse env now a P = agent_connWrite env now a (herd env) P"

definition SendHeartbeatResponse ::
  "('d, 'k, 'v) agent_env \<Rightarrow> nat \<Rightarrow> i64 \<Rightarrow> ('d, 'k) world \<Rightarrow> ('d, 'k) world" where
  "SendHeartbeatResponse env a unixMillTime P =
     (let hbAckData = (if 0 <s unixMillTime
                       then (case PacketEncode HeartbeatAck (big_endian 8 unixMillTime) of
                               Inl e \<Rightarrow> hbAck env | Inr p \<Rightarrow> p)
                       else hbAck env)
      in upd_agent a (enqueue env hbAckData) P)"

section \<open>Closing\<close>

text \<open>Callbacks in turn, up to the first that panics.\<close>

fun until_panic :: "('f \<Rightarrow> 'w \<Rightarrow> 'w \<times> bool) \<Rightarrow> 'f list \<Rightarrow> 'w \<Rightarrow> 'w \<times> bool" where
  "until_panic run [] w = (w, False)"
| "until_panic run (f # fs) w = (case run f w of (w, True) \<Rightarrow> (w, True) | (w, False) \<Rightarrow> until_panic run fs w)"

definition onSessionClosed ::
  "('d, 'k, 'v) agent_env \<Rightarrow> nat \<Rightarrow> cbk \<Rightarrow> i64 list \<Rightarrow> ('d, 'k) world \<Rightarrow> ('d, 'k) world" where
  "onSessionClosed env q callback reason P =
     (case until_panic (ae_on_close env) (OnCloseCallbacks (heap P q)) P of
        (P, True) \<Rightarrow> P
      | (P, False) \<Rightarrow>
          let rea = (case reason of [] \<Rightarrow> CloseReasonNormal | r # _ \<Rightarrow> r)
          in fst (until_panic (\<lambda>f. ae_on_session_close env f q callback rea) (SessionCloseCallbacks P) P))"

text \<open>Closing the channels; the history variable records that the callbacks are started behind it.\<close>

definition close_channels :: "nat \<Rightarrow> ('d, 'k) world \<Rightarrow> ('d, 'k) world" where
  "close_channels a P =
     (let P = upd_agent a (\<lambda>ag. ag\<lparr>ag_chStopWrite := True, ag_chStopHeartbeat := True,
                ag_chStopKeepCacheAlive := True, ag_chDie := True\<rparr>) P
      in P\<lparr>storage := (storage P)\<lparr>fr_closed := fr_closed (storage P) @ [a]\<rparr>\<rparr>)"

definition agent_Close ::
  "('d, 'k, 'v) agent_env \<Rightarrow> nat \<Rightarrow> cbk \<Rightarrow> i64 list \<Rightarrow> ('d, 'k) world \<Rightarrow> ('d, 'k) world \<times> goerr option" where
  "agent_Close env a callback reason P =
     (if ag_state (agent_at P a) = StatusClosed then (P, Some ErrCloseClosedSession)
      else
        let P = upd_agent a (ag_state_update (\<lambda>_. StatusClosed)) P;
            closeReason = (case reason of [] \<Rightarrow> CloseReasonNormal | r # _ \<Rightarrow> r);
            P = (if ag_chDie (agent_at P a) then P
                 else onSessionClosed env (ag_Session (agent_at P a)) callback reason (close_channels a P));
            P = (if ae_isWS env (ag_conn (agent_at P a)) \<and> CloseReasonKickMin <s closeReason
                 then upd_agent a (ag_conn_update (\<lambda>k. fst (ae_WriteControl env closeReason k))) P else P);
            r = ae_conn_Close env (ag_conn (agent_at P a))
        in (upd_agent a (ag_conn_update (\<lambda>_. fst r)) P, snd r))"

section \<open>The goroutines of an agent\<close>

text \<open>
  One round of each loop. The second component of the result tells whether the loop goes on; when it ends, the deferred
  \<open>Close\<close> has run. A round of the writing loop that finds the stop channel closed is \<open>write_stop\<close>.
\<close>

definition agent_SetLastAt :: "int \<Rightarrow> nat \<Rightarrow> ('d, 'k) world \<Rightarrow> ('d, 'k) world" where
  "agent_SetLastAt now a P = upd_agent a (ag_lastAt_update (\<lambda>_. unix_seconds now)) P"

definition agent_SetStatus :: "32 word \<Rightarrow> nat \<Rightarrow> ('d, 'k) world \<Rightarrow> ('d, 'k) world" where
  "agent_SetStatus st a P = upd_agent a (ag_state_update (\<lambda>_. st)) P"

definition heartbeat_tick ::
  "('d, 'k, 'v) agent_env \<Rightarrow> int \<Rightarrow> nat \<Rightarrow> ('d, 'k) world \<Rightarrow> ('d, 'k) world \<times> bool" where
  "heartbeat_tick env now a P =
     (let ag = agent_at P a;
          deadline = unix_seconds (now + sint (- 2 * ag_heartbeatTimeout ag)) in
      if ag_lastAt ag <s deadline then (fst (agent_Close env a None [] P), False)
      else
        let bs = big_endian 8 (word_of_int (now div 1000000) :: i64);
            hbData = (case PacketEncode Heartbeat bs of Inl e \<Rightarrow> [] | Inr p \<Rightarrow> p);
            room = length (ag_chSend ag) < ag_messagesBufferSize ag in
        if (ag_chDie ag \<or> ag_chStopHeartbeat ag) \<and> (\<not> ae_pick env ag \<or> \<not> room)
        then (fst (agent_Close env a None [] P), False)
        else (upd_agent a (ag_chSend_update (\<lambda>q. q @ [hbData])) P, True))"

definition heartbeat_stop :: "('d, 'k, 'v) agent_env \<Rightarrow> nat \<Rightarrow> ('d, 'k) world \<Rightarrow> ('d, 'k) world" where
  "heartbeat_stop env a P =
     (if ag_chDie (agent_at P a) \<or> ag_chStopHeartbeat (agent_at P a) then fst (agent_Close env a None [] P) else P)"

definition write_round ::
  "('d, 'k, 'v) agent_env \<Rightarrow> int \<Rightarrow> nat \<Rightarrow> ('d, 'k) world \<Rightarrow> ('d, 'k) world \<times> bool" where
  "write_round env now a P =
     (case ag_chSend (agent_at P a) of
        [] \<Rightarrow> (P, True)
      | p # ps \<Rightarrow>
          (case agent_connWrite env now a p (upd_agent a (ag_chSend_update (\<lambda>_. ps)) P) of
             (P, None) \<Rightarrow> (P, True)
           | (P, Some e) \<Rightarrow> (fst (agent_Close env a None [] P), False)))"

definition write_stop :: "('d, 'k, 'v) agent_env \<Rightarrow> nat \<Rightarrow> ('d, 'k) world \<Rightarrow> ('d, 'k) world" where
  "write_stop env a P = (if ag_chStopWrite (agent_at P a) then fst (agent_Close env a None [] P) else P)"

definition keep_alive_tick ::
  "('d, 'k, 'v) agent_env \<Rightarrow> nat \<Rightarrow> ('d, 'k) world \<Rightarrow> ('d, 'k) world" where
  "keep_alive_tick env a P =
     (let s = heap P (ag_Session (agent_at P a)) in
      if uid s = [] then P
      else P\<lparr>storage := (storage P)\<lparr>fr_cache := fst (ae_Expire env (ClusterStorageKey s) (fr_cache (storage P)))\<rparr>\<rparr>)"

text \<open>\<open>Handle\<close> starts the loops and waits for the agent to die; then it closes the agent once more.\<close>

definition agent_Handle_end :: "('d, 'k, 'v) agent_env \<Rightarrow> nat \<Rightarrow> ('d, 'k) world \<Rightarrow> ('d, 'k) world" where
  "agent_Handle_end env a P = (if ag_chDie (agent_at P a) then fst (agent_Close env a None [] P) else P)"

text \<open>The session pool of a frontend: its entities are the agents.\<close>

definition front_env :: "('d, 'k, 'v) agent_env \<Rightarrow> int \<Rightarrow> ('d, 'k) front pool_env \<Rightarrow> ('d, 'k) front pool_env" where
  "front_env env now pe = pe
     \<lparr>entity_Kick := agent_Kick env now, entity_Close := agent_Close env,
      entity_SendRequest := (\<lambda>e sv rt b P. (P, Some ErrNotImplemented))\<rparr>"

section \<open>Agents die once\<close>

text \<open>
  The channels of an agent are closed together, no agent is marked closed without that, and the history holds exactly the
  agents that are dead, each of them once.
\<close>

definition agent_ok :: "bool \<Rightarrow> 'k agent \<Rightarrow> bool" where
  "agent_ok dead ag \<longleftrightarrow>
     ag_chDie ag = dead \<and> ag_chStopWrite ag = dead \<and> ag_chStopHeartbeat ag = dead \<and>
     ag_chStopKeepCacheAlive ag = dead \<and> (ag_state ag = StatusClosed \<longrightarrow> dead)"

definition conn_inv :: "('d, 'k) world \<Rightarrow> bool" where
  "conn_inv P \<longleftrightarrow>
     distinct (fr_closed (storage P)) \<and> (\<forall>a \<in> set (fr_closed (storage P)). a < fr_next (storage P)) \<and>
     (\<forall>a. agent_ok (a \<in> set (fr_closed (storage P))) (agent_at P a)) \<and>
     (\<forall>a < fr_next (storage P). ag_Session (agent_at P a) < heap_next P \<and> entity (heap P (ag_Session (agent_at P a))) = a)"

text \<open>
  What every operation does to the connections: the invariant is kept, agents and sessions are only added and stay linked, and
  agents only die.
\<close>

definition conn_le :: "('d, 'k) world \<Rightarrow> ('d, 'k) world \<Rightarrow> bool" where
  "conn_le P P' \<longleftrightarrow>
     (conn_inv P \<longrightarrow> conn_inv P') \<and> fr_next (storage P) \<le> fr_next (storage P') \<and> heap_next P \<le> heap_next P' \<and>
     set (fr_closed (storage P)) \<subseteq> set (fr_closed (storage P')) \<and>
     (\<forall>a < fr_next (storage P). ag_Session (agent_at P' a) = ag_Session (agent_at P a)) \<and>
     (\<forall>q < heap_next P. entity (heap P' q) = entity (heap P q))"

lemma conn_le_refl [simp]: "conn_le P P"
  by (simp add: conn_le_def)

lemma conn_le_trans [trans]: "conn_le P Q \<Longrightarrow> conn_le Q R \<Longrightarrow> conn_le P R"
  unfolding conn_le_def by (intro conjI) auto

lemma conn_leD:
  assumes "conn_le P P'"
  shows "conn_inv P \<Longrightarrow> conn_inv P'" and "a < fr_next (storage P) \<Longrightarrow> a < fr_next (storage P')"
    and "a \<in> set (fr_closed (storage P)) \<Longrightarrow> a \<in> set (fr_closed (storage P'))"
    and "a < fr_next (storage P) \<Longrightarrow> ag_Session (agent_at P' a) = ag_Session (agent_at P a)"
    and "q < heap_next P \<Longrightarrow> entity (heap P' q) = entity (heap P q)"
  using assms by (auto simp: conn_le_def)

lemma agent_at_upd [simp]: "agent_at (upd_agent a f P) b = (if b = a then f (agent_at P a) else agent_at P b)"
  by (simp add: agent_at_def upd_agent_def)

lemma upd_agent_parts [simp]:
  "fr_next (storage (upd_agent a f P)) = fr_next (storage P)" "fr_closed (storage (upd_agent a f P)) = fr_closed (storage P)"
  "fr_tasks (storage (upd_agent a f P)) = fr_tasks (storage P)" "fr_cache (storage (upd_agent a f P)) = fr_cache (storage P)"
  "heap (upd_agent a f P) = heap P" "sessionsByID (upd_agent a f P) = sessionsByID P" "heap_next (upd_agent a f P) = heap_next P"
  "sessionsByUID (upd_agent a f P) = sessionsByUID P" "SessionCloseCallbacks (upd_agent a f P) = SessionCloseCallbacks P"
  "handshakeValidators (upd_agent a f P) = handshakeValidators P"
  by (simp_all add: upd_agent_def)

lemma agent_at_heap [simp]: "agent_at (upd q f P) a = agent_at P a" "storage (upd q f P) = storage P"
  by (simp_all add: agent_at_def upd_def)

lemma conn_le_upd_agent:
  assumes "\<And>dead. agent_ok dead (agent_at P a) \<Longrightarrow> agent_ok dead (f (agent_at P a))"
    and "ag_Session (f (agent_at P a)) = ag_Session (agent_at P a)"
  shows "conn_le P (upd_agent a f P)"
  using assms by (auto simp: conn_le_def conn_inv_def)

lemma conn_le_same:
  assumes "fr_agents (storage P') = fr_agents (storage P)" and "fr_next (storage P') = fr_next (storage P)"
    and "fr_closed (storage P') = fr_closed (storage P)" and "heap_next P' = heap_next P"
    and "\<And>q. entity (heap P' q) = entity (heap P q)"
  shows "conn_le P P'"
  using assms by (simp add: conn_le_def conn_inv_def agent_at_def)

lemma conn_le_upd: "entity (f (heap P q)) = entity (heap P q) \<Longrightarrow> conn_le P (upd q f P)"
  by (rule conn_le_same) (simp_all add: upd_def)

lemma agent_ok_updates [simp]:
  "agent_ok dead (ag_conn_update k ag) = agent_ok dead ag" "agent_ok dead (ag_chSend_update q ag) = agent_ok dead ag"
  "agent_ok dead (ag_lastAt_update t ag) = agent_ok dead ag" "agent_ok dead (enqueue env p ag) = agent_ok dead ag"
  by (simp_all add: agent_ok_def enqueue_def)

lemma enqueue_Session [simp]: "ag_Session (enqueue env p ag) = ag_Session ag"
  by (simp add: enqueue_def)

lemma agent_send_le [simp]: "conn_le P (fst (agent_send env a pm P))"
  by (auto simp: agent_send_def intro: conn_le_upd_agent split: sum.splits)

lemma agent_Push_le [simp]: "conn_le P (fst (agent_Push env a rt v P))"
  by (simp add: agent_Push_def)

lemma agent_ResponseMID_le [simp]: "conn_le P (fst (agent_ResponseMID env a mid v e P))"
  by (simp add: agent_ResponseMID_def Let_def)

lemma AnswerWithError_le [simp]: "conn_le P (AnswerWithError env a mid e P)"
  by (simp add: AnswerWithError_def sess_ResponseMID_def split: sum.splits)

lemma agent_connWrite_le [simp]: "conn_le P (fst (agent_connWrite env now a b P))"
  by (auto simp: agent_connWrite_def Let_def intro: conn_le_upd_agent)

lemma agent_Kick_le [simp]: "conn_le P (fst (agent_Kick env now a r P))"
  by (simp add: agent_Kick_def Let_def split: sum.splits)

lemma SendHeartbeatResponse_le [simp]: "conn_le P (SendHeartbeatResponse env a t P)"
  by (simp add: SendHeartbeatResponse_def Let_def conn_le_upd_agent)

lemma keep_alive_tick_le [simp]: "conn_le P (keep_alive_tick env a P)"
  by (simp add: keep_alive_tick_def Let_def conn_le_same)

lemma agent_SetStatus_le: "st \<noteq> StatusClosed \<Longrightarrow> conn_le P (agent_SetStatus st a P)"
  by (auto simp: agent_SetStatus_def agent_ok_def intro!: conn_le_upd_agent)

lemma agent_SetLastAt_le [simp]: "conn_le P (agent_SetLastAt now a P)"
  by (auto simp: agent_SetLastAt_def intro: conn_le_upd_agent)

text \<open>The user's close callbacks are taken to respect the connections.\<close>

definition close_code :: "('d, 'k, 'v) agent_env \<Rightarrow> bool" where
  "close_code env \<longleftrightarrow>
     (\<forall>f P. conn_le P (fst (ae_on_close env f P))) \<and>
     (\<forall>f q cb r P. conn_le P (fst (ae_on_session_close env f q cb r P)))"

lemma until_panic_le:
  assumes "\<And>f P. conn_le P (fst (run f P))"
  shows "conn_le P (fst (until_panic run fs P))"
proof (induction fs arbitrary: P)
  case (Cons f fs)
  obtain Q b where run: "run f P = (Q, b)" by fastforce
  then have "conn_le P Q" using assms [of P f] by simp
  then show ?case using Cons.IH [of Q] conn_le_trans run by (cases b) auto
qed simp

lemma onSessionClosed_le:
  assumes "close_code env"
  shows "conn_le P (onSessionClosed env q cb r P)"
proof -
  obtain Q b where own: "until_panic (ae_on_close env) (OnCloseCallbacks (heap P q)) P = (Q, b)" by fastforce
  have "conn_le P Q"
    using until_panic_le [of "ae_on_close env" P] assms own by (metis close_code_def fst_conv)
  moreover have "conn_le Q (fst (until_panic (\<lambda>f. ae_on_session_close env f q cb x) fs Q))" for x fs
    using assms by (intro until_panic_le) (simp add: close_code_def)
  from conn_le_trans [OF \<open>conn_le P Q\<close> this]
  have "conn_le P (fst (until_panic (\<lambda>f. ae_on_session_close env f q cb x) fs Q))" for x fs .
  ultimately show ?thesis by (cases b) (simp_all add: onSessionClosed_def own Let_def)
qed

lemma close_channels_le:
  assumes "a < fr_next (storage P)" and "\<not> ag_chDie (agent_at P a)"
  shows "conn_le P (close_channels a (upd_agent a (ag_state_update (\<lambda>_. StatusClosed)) P))"
proof -
  have at: "agent_at (P\<lparr>storage := (storage P)\<lparr>fr_closed := l\<rparr>\<rparr>) b = agent_at P b" for P :: "('a, 'b) world" and l b
    by (simp add: agent_at_def)
  have "a \<notin> set (fr_closed (storage P))" if "conn_inv P"
    using that assms(2) by (auto simp: conn_inv_def agent_ok_def)
  then show ?thesis
    using assms(1) by (auto simp: conn_le_def conn_inv_def close_channels_def Let_def at agent_ok_def)
qed

text \<open>The end of \<open>Close\<close>, which only concerns the connection.\<close>

definition finish_close :: "('d, 'k, 'v) agent_env \<Rightarrow> nat \<Rightarrow> i64 list \<Rightarrow> ('d, 'k) world \<Rightarrow> ('d, 'k) world" where
  "finish_close env a r Q =
     (let closeReason = (case r of [] \<Rightarrow> CloseReasonNormal | x # _ \<Rightarrow> x);
          Q = (if ae_isWS env (ag_conn (agent_at Q a)) \<and> CloseReasonKickMin <s closeReason
               then upd_agent a (ag_conn_update (\<lambda>k. fst (ae_WriteControl env closeReason k))) Q else Q)
      in upd_agent a (ag_conn_update (\<lambda>_. fst (ae_conn_Close env (ag_conn (agent_at Q a))))) Q)"

lemma agent_Close_split:
  "fst (agent_Close env a cb r P) =
     (if ag_state (agent_at P a) = StatusClosed then P
      else let C = upd_agent a (ag_state_update (\<lambda>_. StatusClosed)) P
           in finish_close env a r (if ag_chDie (agent_at C a) then C
                else onSessionClosed env (ag_Session (agent_at C a)) cb r (close_channels a C)))"
  unfolding agent_Close_def finish_close_def Let_def by (rule if_distrib [of fst, THEN trans]) (simp only: fst_conv)

lemma finish_close_le: "conn_le Q (finish_close env a r Q)"
  by (auto simp: finish_close_def Let_def conn_le_def conn_inv_def)

lemma agent_Close_le:
  assumes "close_code env" and "a < fr_next (storage P)"
  shows "conn_le P (fst (agent_Close env a cb r P))"
proof (cases "ag_state (agent_at P a) = StatusClosed")
  case False
  let ?C = "upd_agent a (ag_state_update (\<lambda>_. StatusClosed)) P"
  define Q where "Q = (if ag_chDie (agent_at ?C a) then ?C
    else onSessionClosed env (ag_Session (agent_at ?C a)) cb r (close_channels a ?C))"
  have "conn_le P Q"
  proof (cases "ag_chDie (agent_at P a)")
    case True
    then have "Q = ?C" by (simp add: Q_def)
    then show ?thesis using True by (auto simp: agent_ok_def intro!: conn_le_upd_agent)
  next
    case False
    note close_channels_le [OF assms(2) False]
    also note onSessionClosed_le [OF assms(1)]
    finally show ?thesis using False by (simp add: Q_def)
  qed
  also have "conn_le Q (finish_close env a r Q)" by (rule finish_close_le)
  finally show ?thesis using False unfolding agent_Close_split Let_def Q_def by simp
qed (simp add: agent_Close_def)

lemma conn_invD:
  assumes "conn_inv P"
  shows "ag_chDie (agent_at P a) \<longleftrightarrow> a \<in> set (fr_closed (storage P))"
    and "ag_state (agent_at P a) = StatusClosed \<Longrightarrow> a \<in> set (fr_closed (storage P))"
    and "distinct (fr_closed (storage P))"
  using assms by (auto simp: conn_inv_def agent_ok_def)

lemma agent_Close_dies:
  assumes "close_code env" and "a < fr_next (storage P)" and "conn_inv P"
  shows "ag_chDie (agent_at (fst (agent_Close env a cb r P)) a)"
proof -
  let ?P = "fst (agent_Close env a cb r P)"
  have le: "conn_le P ?P" by (rule agent_Close_le [OF assms(1,2)])
  then have inv: "conn_inv ?P" using assms(3) by (simp add: conn_le_def)
  show ?thesis
  proof (cases "ag_chDie (agent_at P a) \<or> ag_state (agent_at P a) = StatusClosed")
    case True
    then have "a \<in> set (fr_closed (storage P))" using conn_invD(1,2) [OF assms(3)] by blast
    then have "a \<in> set (fr_closed (storage ?P))" using le by (auto simp: conn_le_def)
    then show ?thesis using conn_invD(1) [OF inv] by blast
  next
    case False
    define C where "C = close_channels a (upd_agent a (ag_state_update (\<lambda>_. StatusClosed)) P)"
    have "a \<in> set (fr_closed (storage C))" by (simp add: C_def close_channels_def Let_def)
    moreover have "conn_le C (onSessionClosed env (ag_Session (agent_at P a)) cb r C)" by (rule onSessionClosed_le [OF assms(1)])
    ultimately have "a \<in> set (fr_closed (storage (onSessionClosed env (ag_Session (agent_at P a)) cb r C)))"
      by (auto simp: conn_le_def)
    also have "\<dots> \<subseteq> set (fr_closed (storage (finish_close env a r (onSessionClosed env (ag_Session (agent_at P a)) cb r C))))"
      using finish_close_le [of "onSessionClosed env (ag_Session (agent_at P a)) cb r C" env a r] by (simp add: conn_le_def)
    finally have "a \<in> set (fr_closed (storage ?P))" using False by (simp add: agent_Close_split Let_def C_def)
    then show ?thesis using conn_invD(1) [OF inv] by blast
  qed
qed

lemma heartbeat_tick_le:
  assumes "close_code env" and "a < fr_next (storage P)"
  shows "conn_le P (fst (heartbeat_tick env now a P))"
  using agent_Close_le [OF assms] by (auto simp: heartbeat_tick_def Let_def intro: conn_le_upd_agent)

lemma write_round_le:
  assumes "close_code env" and "a < fr_next (storage P)"
  shows "conn_le P (fst (write_round env now a P))"
proof (cases "ag_chSend (agent_at P a)")
  case (Cons p ps)
  let ?P = "upd_agent a (ag_chSend_update (\<lambda>_. ps)) P"
  obtain Q e where w: "agent_connWrite env now a p ?P = (Q, e)" by fastforce
  have "conn_le P ?P" by (auto intro: conn_le_upd_agent)
  also have "conn_le ?P Q" using agent_connWrite_le [of ?P env now a p] w by simp
  finally have le: "conn_le P Q" .
  then have "a < fr_next (storage Q)" using assms(2) by (simp add: conn_le_def)
  from conn_le_trans [OF le agent_Close_le [OF assms(1) this]] le
  show ?thesis by (cases e) (simp_all add: write_round_def Cons w)
qed (simp add: write_round_def)

lemma agent_stops_le:
  assumes "close_code env" and "a < fr_next (storage P)"
  shows "conn_le P (heartbeat_stop env a P)" "conn_le P (write_stop env a P)" "conn_le P (agent_Handle_end env a P)"
  using agent_Close_le [OF assms] by (simp_all add: heartbeat_stop_def write_stop_def agent_Handle_end_def)

lemma newAgent_le:
  assumes "newAgent env now conn n t sv P = Some (a, P')"
  shows "conn_le P P'" and "a = fr_next (storage P)" and "fr_next (storage P') = a + 1"
proof -
  define Q where "Q = snd (snd (NewSession (unix_seconds now) (fr_next (storage P)) True []
      (P\<lparr>storage := (storage P)\<lparr>fr_next := fr_next (storage P) + 1\<rparr>\<rparr>)))"
  have new: "NewSession (unix_seconds now) (fr_next (storage P)) True []
      (P\<lparr>storage := (storage P)\<lparr>fr_next := fr_next (storage P) + 1\<rparr>\<rparr>) = (heap_next P, True, Q)"
    by (simp add: Q_def NewSession_def Let_def)
  have st: "storage Q = (storage P)\<lparr>fr_next := fr_next (storage P) + 1\<rparr>" "heap_next Q = heap_next P + 1"
    "entity (heap Q r) = (if r = heap_next P then fr_next (storage P) else entity (heap P r))" for r
    by (simp_all add: Q_def NewSession_def Let_def new_session_def)
  define ag where "ag = \<lparr>ag_Session = heap_next P, ag_chDie = False, ag_chSend = [], ag_chStopHeartbeat = False, ag_chStopWrite = False,
     ag_chStopKeepCacheAlive = False, ag_conn = conn, ag_heartbeatTimeout = t,
     ag_lastAt = unix_seconds now, ag_messagesBufferSize = n, ag_state = StatusStart\<rparr>"
  have ok: "agent_ok False ag" "ag_Session ag = heap_next P" by (simp_all add: ag_def agent_ok_def)
  have "a = fr_next (storage P) \<and> storage P' = storage (upd_agent (fr_next (storage P)) (\<lambda>_. ag) Q) \<and> heap_next P' = heap_next Q \<and>
      (\<forall>r. entity (heap P' r) = entity (heap Q r))"
    using assms unfolding newAgent_def Let_def new prod.case ag_def [symmetric]
    by (auto simp: upd_def SetFrontendData_def SetIP_def split: if_splits sum.splits)
  then show "conn_le P P'" "a = fr_next (storage P)" "fr_next (storage P') = a + 1"
    using st ok by (auto simp: conn_le_def conn_inv_def upd_agent_def agent_at_def less_Suc_eq)
qed

end
