(* ===== verification/Handler_Service.thy ===== *)
theory Handler_Service
  imports Agent Service_Discovery
begin

text \<open>
  The handler service of a frontend, \<open>service/handler.go\<close>, with the pools of workers it hands messages to (\<open>co/co.go\<close>,
  \<open>co/pool.go\<close>): reading a connection, the handshake, data and heartbeat packets, dispatching a message to the worker of
  its session, running the handler there and answering the client. The goroutines of a frontend are steps that interleave in any
  order.
\<close>

section \<open>The service\<close>

text \<open>
  \<open>hv_handshake\<close> is \<open>json.Unmarshal\<close> into the handshake data, \<open>hv_validate\<close> the validators of the pool in the order
  \<open>hv_names\<close> of the range loop. \<open>hv_remoteProcess\<close> is the remote service's part, when there is one, and \<open>hv_nuid\<close> draws a request
  id.
\<close>

record ('d, 'k, 'v) service_env =
  hv_agent :: "('d, 'k, 'v) agent_env"
  hv_pool :: "('d, 'k) front pool_env"
  hv_hooks :: "('v, ('d, 'k) world) hooks"
  hv_handlers :: handler_pool
  hv_server :: server
  hv_handshake :: "byte list \<Rightarrow> goval res"
  hv_validate :: "nat \<Rightarrow> goval option \<Rightarrow> goerr option"
  hv_names :: "(string \<rightharpoonup> nat) \<Rightarrow> string list"
  hv_remoteProcess :: "(hctx \<Rightarrow> nat \<Rightarrow> route \<Rightarrow> message \<Rightarrow> ('d, 'k) world \<Rightarrow> ('d, 'k) world) option"
  hv_nuid :: "('d, 'k) world \<Rightarrow> string"

section \<open>Workers\<close>

text \<open>
  A pool of workers runs the tasks of one id one after the other, in the order in which they were submitted. A task that the pool
  does not take is logged and lost.
\<close>

definition pool_Go :: "('d, 'k, 'v) agent_env \<Rightarrow> string \<Rightarrow> i64 \<Rightarrow> task \<Rightarrow> ('d, 'k) world \<Rightarrow> ('d, 'k) world" where
  "pool_Go env name goID t P =
     (if ae_Submit env name goID
      then P\<lparr>storage := (storage P)\<lparr>fr_tasks := (fr_tasks (storage P))((name, goID) := fr_tasks (storage P) (name, goID) @ [t])\<rparr>\<rparr>
      else P)"

definition GoWithID :: "('d, 'k, 'v) agent_env \<Rightarrow> string \<Rightarrow> i64 \<Rightarrow> task \<Rightarrow> ('d, 'k) world \<Rightarrow> ('d, 'k) world" where
  "GoWithID env poolName goID t P = pool_Go env poolName goID t P"

definition GoWithUser :: "('d, 'k, 'v) agent_env \<Rightarrow> i64 \<Rightarrow> task \<Rightarrow> ('d, 'k) world \<Rightarrow> ('d, 'k) world" where
  "GoWithUser env u t P = (if u \<le>s 0 then P else pool_Go env ''user'' u t P)"

definition sess_Go :: "('d, 'k, 'v) agent_env \<Rightarrow> nat \<Rightarrow> task \<Rightarrow> ('d, 'k) world \<Rightarrow> ('d, 'k) world" where
  "sess_Go env q t P =
     (let s = heap P q in
      if uidInt s \<noteq> 0 then GoWithUser env (uidInt s) t P
      else GoWithID env ''session''
             (if IsFrontend s then sess_id s else FrontendSessHash (frontendID s) (frontendSessionID s)) t P)"

section \<open>Messages\<close>

definition processMessage ::
  "('d, 'k, 'v) service_env \<Rightarrow> int \<Rightarrow> nat \<Rightarrow> message \<Rightarrow> ('d, 'k) world \<Rightarrow> ('d, 'k) world" where
  "processMessage env now a msg P =
     (let q = ag_Session (agent_at P a);
          vals = the (AddListToPropagateCtx (Ctx None)
            [GString ''req-start-time'', GInt64 (word_of_int now), GString ''req-route'', GString (msg_Route msg),
             GString ''request.id'', GString (hv_nuid env P)]);
          ctx = \<lparr>hc_values = vals, hc_session = Some q, hc_logger = None\<rparr>
      in case RouteDecode (msg_Route msg) of
           Inl e \<Rightarrow> AnswerWithError (hv_agent env) a (msg_ID msg) (he_BadRequest (ae_handler (hv_agent env)) e) P
         | Inr r \<Rightarrow>
             let r = (if SvType r = [] then r\<lparr>SvType := sv_Type (hv_server env)\<rparr> else r) in
             if SvType r = sv_Type (hv_server env) then sess_Go (hv_agent env) q (LocalTask ctx a r msg) P
             else if hv_remoteProcess env \<noteq> None then sess_Go (hv_agent env) q (RemoteTask ctx a r msg) P
             else P)"

text \<open>A panic in the worker is caught by the pool, and nothing more happens for the message.\<close>

definition localProcess ::
  "('d, 'k, 'v) service_env \<Rightarrow> hctx \<Rightarrow> nat \<Rightarrow> route \<Rightarrow> message \<Rightarrow> ('d, 'k) world \<Rightarrow> ('d, 'k) world" where
  "localProcess env ctx a r msg P =
     (let mid = (if msg_Type msg = Request then msg_ID msg else 0);
          q = ag_Session (agent_at P a) in
      case ProcessHandlerMessage (ae_handler (hv_agent env)) (hv_hooks env) (hv_handlers env) ctx r q (uid (heap P q))
             (msg_Data msg) (MsgTypeV (msg_Type msg)) False P of
        None \<Rightarrow> P
      | Some (P, Inl e) \<Rightarrow> AnswerWithError (hv_agent env) a mid e P
      | Some (P, Inr ret) \<Rightarrow>
          if msg_Type msg \<noteq> Notify
          then fst (sess_ResponseMID (hv_agent env) (ag_Session (agent_at P a)) mid (BytesV ret) [] P)
          else P)"

fun exec_task :: "('d, 'k, 'v) service_env \<Rightarrow> task \<Rightarrow> ('d, 'k) world \<Rightarrow> ('d, 'k) world" where
  "exec_task env (LocalTask ctx a r msg) P = localProcess env ctx a r msg P"
| "exec_task env (RemoteTask ctx a r msg) P =
     (case hv_remoteProcess env of None \<Rightarrow> P | Some f \<Rightarrow> f ctx a r msg P)"

definition run_task :: "('d, 'k, 'v) service_env \<Rightarrow> string \<times> i64 \<Rightarrow> ('d, 'k) world \<Rightarrow> ('d, 'k) world" where
  "run_task env key P =
     (case fr_tasks (storage P) key of
        [] \<Rightarrow> P
      | t # ts \<Rightarrow> exec_task env t (P\<lparr>storage := (storage P)\<lparr>fr_tasks := (fr_tasks (storage P))(key := ts)\<rparr>\<rparr>))"

section \<open>Packets\<close>

definition BigEndian_Uint64 :: "byte list \<Rightarrow> u64 option" where
  "BigEndian_Uint64 b =
     (if length b < 8 then None else Some (foldl (\<lambda>n v. push_bit 8 n OR ucast v) 0 (take 8 b)))"

text \<open>The time in a heartbeat: none when there is no data; fewer than eight bytes panic, which is \<open>None\<close>.\<close>

definition heartbeat_time :: "byte list \<Rightarrow> i64 option" where
  "heartbeat_time b = (if b = [] then Some 0 else BigEndian_Uint64 b)"

text \<open>A handshake that is refused: the error answer, then the deferred close. The error is \<open>err\<close> itself when the answer cannot be
  sent.\<close>

definition refuse_handshake ::
  "('d, 'k, 'v) service_env \<Rightarrow> int \<Rightarrow> nat \<Rightarrow> goerr \<Rightarrow> goerr \<Rightarrow> ('d, 'k) world \<Rightarrow> ('d, 'k) world \<times> goerr option" where
  "refuse_handshake env now a err err' P =
     (let r = SendHandshakeErrorResponse (hv_agent env) now a P
      in (fst (agent_Close (hv_agent env) a None [] (fst r)), Some (if snd r \<noteq> None then err else err')))"

definition handshake ::
  "('d, 'k, 'v) service_env \<Rightarrow> int \<Rightarrow> nat \<Rightarrow> byte list \<Rightarrow> ('d, 'k) world \<Rightarrow> ('d, 'k) world \<times> goerr option" where
  "handshake env now a b P =
     (case hv_handshake env b of
        Inl err \<Rightarrow> refuse_handshake env now a err (ErrNew ''invalid handshake data'') P
      | Inr hsd \<Rightarrow>
          (case ValidateHandshake (hv_validate env) (handshakeValidators P) (hv_names env (handshakeValidators P)) (Some hsd) of
             Some err \<Rightarrow> refuse_handshake env now a err err P
           | None \<Rightarrow>
               (case SendHandshakeResponse (hv_agent env) now a P of
                  (P, Some e) \<Rightarrow> (P, Some e)
                | (P, None) \<Rightarrow>
                    (agent_SetStatus StatusHandshake a (upd (ag_Session (agent_at P a)) (SetHandshakeData (Some hsd)) P), None))))"

definition data_packet ::
  "('d, 'k, 'v) service_env \<Rightarrow> int \<Rightarrow> nat \<Rightarrow> byte list \<Rightarrow> ('d, 'k) world \<Rightarrow> (('d, 'k) world \<times> goerr option) option" where
  "data_packet env now a b P =
     (if ag_state (agent_at P a) <s StatusWorking
      then Some (P, Some (ErrNew ''receive data on socket which is not yet ACK, session will be closed immediately''))
      else case MessageDecode (ae_zlib (hv_agent env)) (ae_dict (hv_agent env)) b of
             None \<Rightarrow> None
           | Some (Inl e) \<Rightarrow> Some (P, Some e)
           | Some (Inr msg) \<Rightarrow> Some (processMessage env now a msg P, None))"

definition heartbeat_packet ::
  "('d, 'k, 'v) service_env \<Rightarrow> nat \<Rightarrow> byte list \<Rightarrow> ('d, 'k) world \<Rightarrow> (('d, 'k) world \<times> goerr option) option" where
  "heartbeat_packet env a b P =
     map_option (\<lambda>t. (SendHeartbeatResponse (hv_agent env) a t P, None)) (heartbeat_time b)"

definition processPacket ::
  "('d, 'k, 'v) service_env \<Rightarrow> int \<Rightarrow> nat \<Rightarrow> packet \<Rightarrow> ('d, 'k) world \<Rightarrow> (('d, 'k) world \<times> goerr option) option" where
  "processPacket env now a p P =
     (case (if pkt_Type p = Handshake then Some (handshake env now a (pkt_Data p) P)
            else if pkt_Type p = HandshakeAck then Some (agent_SetStatus StatusWorking a P, None)
            else if pkt_Type p = DataPacket then data_packet env now a (pkt_Data p) P
            else if pkt_Type p = Heartbeat then heartbeat_packet env a (pkt_Data p) P
            else if pkt_Type p = HeartbeatAck then map_option (\<lambda>t. (P, None)) (heartbeat_time (pkt_Data p))
            else Some (P, None)) of
        None \<Rightarrow> None
      | Some (P, Some e) \<Rightarrow> Some (P, Some e)
      | Some (P, None) \<Rightarrow> Some (agent_SetLastAt now a P, None))"

section \<open>Reading a connection\<close>

text \<open>The packets of one message, up to the first that fails; \<open>False\<close> when the loop is left, by an error or by a panic.\<close>

fun process_packets ::
  "('d, 'k, 'v) service_env \<Rightarrow> int \<Rightarrow> nat \<Rightarrow> packet list \<Rightarrow> ('d, 'k) world \<Rightarrow> ('d, 'k) world \<times> bool" where
  "process_packets env now a [] P = (P, True)"
| "process_packets env now a (p # ps) P =
     (case processPacket env now a p P of
        None \<Rightarrow> (P, False)
      | Some (P, Some e) \<Rightarrow> (P, False)
      | Some (P, None) \<Rightarrow> process_packets env now a ps P)"

text \<open>
  The loop of \<open>Handle\<close>. The messages of the connection are given with the time at which they arrive and with what the rest of the
  program does until then. At the end of the list the loop waits for the next message.
\<close>

datatype 'w reading = Reading 'w | Left 'w

fun read_loop ::
  "('d, 'k, 'v) service_env \<Rightarrow> nat \<Rightarrow> (int \<times> (('d, 'k) world \<Rightarrow> ('d, 'k) world) \<times> byte list res) list
     \<Rightarrow> ('d, 'k) world \<Rightarrow> ('d, 'k) world reading" where
  "read_loop env a [] P = Reading P"
| "read_loop env a ((now, meanwhile, Inl e) # ms) P = Left (meanwhile P)"
| "read_loop env a ((now, meanwhile, Inr b) # ms) P =
     (case PacketDecode b of
        Inl e \<Rightarrow> Left (meanwhile P)
      | Inr ps \<Rightarrow>
          (case process_packets env now a ps (meanwhile P) of
             (P, True) \<Rightarrow> read_loop env a ms P
           | (P, False) \<Rightarrow> Left P))"

text \<open>\<open>Handle\<close> with its deferred close of the session; \<open>finish\<close> is the time of the close.\<close>

definition service_Handle ::
  "('d, 'k, 'v) service_env \<Rightarrow> nat \<Rightarrow> (int \<times> (('d, 'k) world \<Rightarrow> ('d, 'k) world) \<times> byte list res) list \<Rightarrow> int
     \<Rightarrow> ('d, 'k) world \<Rightarrow> ('d, 'k) world reading" where
  "service_Handle env a ms finish P =
     (case read_loop env a ms P of
        Reading P \<Rightarrow> Reading P
      | Left P \<Rightarrow> Left (sess_Close (front_env (hv_agent env) finish (hv_pool env)) (ag_Session (agent_at P a)) None [] P))"

section \<open>Connections close once\<close>

text \<open>
  The user's code of a frontend respects the connections: handlers, hooks, interceptors and close callbacks, the remote service and the
  subscriptions reach agents only through their operations.
\<close>

definition service_code :: "('d, 'k, 'v) service_env \<Rightarrow> bool" where
  "service_code env \<longleftrightarrow>
     close_code (hv_agent env) \<and>
     (\<forall>f args P. conn_le P (fst (he_run (ae_handler (hv_agent env)) f args P))) \<and>
     (\<forall>i ctx rt b P. conn_le P (fst (he_intercept (ae_handler (hv_agent env)) i ctx rt b P))) \<and>
     (\<forall>h \<in> set (BeforeHandler (hv_hooks env)). \<forall>ctx rt v P. conn_le P (fst (h ctx rt v P))) \<and>
     (\<forall>g \<in> set (AfterHandler (hv_hooks env)). \<forall>ctx rt inp v e P. conn_le P (fst (g ctx rt inp v e P))) \<and>
     (\<forall>f ctx a r msg P. hv_remoteProcess env = Some f \<longrightarrow> conn_le P (f ctx a r msg P)) \<and>
     (\<forall>s P. conn_le P (sub_Drain (hv_pool env) s P))"

lemma handler_message_le:
  assumes "service_code env"
    and "ProcessHandlerMessage (ae_handler (hv_agent env)) (hv_hooks env) hp ctx r q u b t rem P = Some (P', res)"
  shows "conn_le P P'"
proof (rule ran_invariant [where R = conn_le, OF messages.process [OF assms(2)] conn_le_refl])
  show "conn_le P Q" if "conn_le P R" "conn_le R Q" for P Q R :: "('a, 'b) world" using that by (rule conn_le_trans)
qed (use assms(1) in \<open>auto simp: service_code_def\<close>)

lemma localProcess_le:
  assumes "service_code env"
  shows "conn_le P (localProcess env ctx a r msg P)"
proof -
  let ?q = "ag_Session (agent_at P a)"
  obtain c where c: "ProcessHandlerMessage (ae_handler (hv_agent env)) (hv_hooks env) (hv_handlers env) ctx r ?q (uid (heap P ?q))
     (msg_Data msg) (MsgTypeV (msg_Type msg)) False P = c" by blast
  show ?thesis
  proof (cases c)
    case None
    then show ?thesis by (simp add: localProcess_def Let_def c)
  next
    case (Some x)
    obtain Q res where x: "x = (Q, res)" by fastforce
    then have le: "conn_le P Q" using handler_message_le [OF assms] c Some by simp
    show ?thesis
      by (cases res) (simp_all add: localProcess_def Let_def c Some x sess_ResponseMID_def le
          conn_le_trans [OF le AnswerWithError_le] conn_le_trans [OF le agent_ResponseMID_le])
  qed
qed

lemma run_task_le:
  assumes "service_code env"
  shows "conn_le P (run_task env key P)"
proof (cases "fr_tasks (storage P) key")
  case (Cons t ts)
  let ?P = "P\<lparr>storage := (storage P)\<lparr>fr_tasks := (fr_tasks (storage P))(key := ts)\<rparr>\<rparr>"
  have "conn_le P ?P" by (rule conn_le_same) simp_all
  also have "conn_le ?P (exec_task env t ?P)"
    using assms localProcess_le [OF assms] by (cases t) (auto simp: service_code_def split: option.splits)
  finally show ?thesis by (simp add: run_task_def Cons)
qed (simp add: run_task_def)

lemma pool_Go_le [simp]: "conn_le P (pool_Go env name i t P)"
  by (simp add: pool_Go_def conn_le_same)

lemma sess_Go_le [simp]: "conn_le P (sess_Go env q t P)"
  by (simp add: sess_Go_def GoWithUser_def GoWithID_def Let_def)

lemma processMessage_le [simp]: "conn_le P (processMessage env now a msg P)"
  by (simp add: processMessage_def Let_def split: sum.splits)

lemma refuse_handshake_le:
  assumes "service_code env" and "a < fr_next (storage P)"
  shows "conn_le P (fst (refuse_handshake env now a e e' P))"
proof -
  let ?Q = "fst (SendHandshakeErrorResponse (hv_agent env) now a P)"
  have le: "conn_le P ?Q" by (simp add: SendHandshakeErrorResponse_def)
  have "close_code (hv_agent env)" using assms(1) by (simp add: service_code_def)
  from agent_Close_le [OF this conn_leD(2) [OF le assms(2)]] conn_le_trans [OF le]
  show ?thesis by (simp add: refuse_handshake_def Let_def)
qed

lemma handshake_le:
  assumes "service_code env" and "a < fr_next (storage P)"
  shows "conn_le P (fst (handshake env now a b P))"
proof (cases "hv_handshake env b")
  case (Inr hsd)
  obtain Q e where send: "SendHandshakeResponse (hv_agent env) now a P = (Q, e)" by fastforce
  then have le: "conn_le P Q" using agent_connWrite_le by (metis SendHandshakeResponse_def fst_conv)
  let ?R = "upd (ag_Session (agent_at Q a)) (SetHandshakeData (Some hsd)) Q"
  note le
  also have "conn_le Q ?R" by (rule conn_le_upd) (simp add: SetHandshakeData_def)
  also have "conn_le ?R (agent_SetStatus StatusHandshake a ?R)" by (rule agent_SetStatus_le) simp
  finally have set: "conn_le P (agent_SetStatus StatusHandshake a ?R)" .
  show ?thesis
    using refuse_handshake_le [OF assms] le set
    by (cases "ValidateHandshake (hv_validate env) (handshakeValidators P) (hv_names env (handshakeValidators P)) (Some hsd)"; cases e)
      (simp_all add: handshake_def Inr send)
qed (use refuse_handshake_le [OF assms] in \<open>simp add: handshake_def\<close>)

lemma data_packet_le: "data_packet env now a b P = Some (P', e) \<Longrightarrow> conn_le P P'"
  by (auto simp: data_packet_def split: if_splits option.splits sum.splits)

lemma processPacket_le:
  assumes "service_code env" and "a < fr_next (storage P)" and "processPacket env now a p P = Some (P', e)"
  shows "conn_le P P'"
proof -
  let ?act = "if pkt_Type p = Handshake then Some (handshake env now a (pkt_Data p) P)
    else if pkt_Type p = HandshakeAck then Some (agent_SetStatus StatusWorking a P, None)
    else if pkt_Type p = DataPacket then data_packet env now a (pkt_Data p) P
    else if pkt_Type p = Heartbeat then heartbeat_packet env a (pkt_Data p) P
    else if pkt_Type p = HeartbeatAck then map_option (\<lambda>t. (P, None)) (heartbeat_time (pkt_Data p))
    else Some (P, None)"
  obtain Q e' where act: "?act = Some (Q, e')" and P': "P' = (if e' = None then agent_SetLastAt now a Q else Q)"
    using assms(3) unfolding processPacket_def by (auto split: option.splits prod.splits)
  have "conn_le P (agent_SetStatus StatusWorking a P)" by (rule agent_SetStatus_le) simp
  then have "conn_le P Q"
    using act handshake_le [OF assms(1,2), of now "pkt_Data p"] data_packet_le
    by (auto simp: heartbeat_packet_def split: if_splits)
  from this conn_le_trans [OF this agent_SetLastAt_le] show ?thesis unfolding P' by simp
qed

lemma drain_le:
  assumes "service_code env"
  shows "conn_le P (fold (sub_Drain (hv_pool env)) subs P)"
proof (induction subs arbitrary: P)
  case (Cons s subs)
  have "conn_le P (sub_Drain (hv_pool env) s P)" using assms by (simp add: service_code_def)
  from conn_le_trans [OF this Cons.IH] show ?case by simp
qed simp

lemma close_tables_le: "conn_le P (close_tables q P)"
  by (rule conn_le_same) (simp_all add: close_tables_def Let_def upd_def split: option.splits)

lemma front_env_parts [simp]:
  "sub_Drain (front_env env now pe) = sub_Drain pe" "entity_Close (front_env env now pe) = agent_Close env"
  "entity_Kick (front_env env now pe) = agent_Kick env now"
  by (simp_all add: front_env_def)

text \<open>Closing a session of the frontend: the session is drained, then its agent is closed.\<close>

lemma front_Close_split:
  assumes "service_code env"
  obtains Q where "sess_Close (front_env (hv_agent env) now (hv_pool env)) q cb r P =
      fst (agent_Close (hv_agent env) (entity (heap P q)) cb r Q)" and "conn_le P Q"
proof -
  define Q where "Q = (if IsFrontend (heap P q) \<and> Subscriptions (heap P q) \<noteq> []
    then fold (sub_Drain (hv_pool env)) (Subscriptions (heap P q)) (close_tables q P) else close_tables q P)"
  have "conn_le P Q"
    by (simp add: Q_def close_tables_le conn_le_trans [OF close_tables_le drain_le [OF assms]])
  moreover have "sess_Close (front_env (hv_agent env) now (hv_pool env)) q cb r P =
      fst (agent_Close (hv_agent env) (entity (heap P q)) cb r Q)"
    by (simp add: sess_Close_def Let_def Q_def)
  ultimately show ?thesis using that by blast
qed

lemma front_Close_le:
  assumes "service_code env" and "entity (heap P q) < fr_next (storage P)"
  shows "conn_le P (sess_Close (front_env (hv_agent env) now (hv_pool env)) q cb r P)"
proof -
  obtain Q where eq: "sess_Close (front_env (hv_agent env) now (hv_pool env)) q cb r P =
      fst (agent_Close (hv_agent env) (entity (heap P q)) cb r Q)" and le: "conn_le P Q"
    by (rule front_Close_split [OF assms(1)])
  have "close_code (hv_agent env)" using assms(1) by (simp add: service_code_def)
  from conn_le_trans [OF le agent_Close_le [OF this conn_leD(2) [OF le assms(2)]]] show ?thesis unfolding eq .
qed

lemma front_Kick_le:
  assumes "service_code env" and "entity (heap P q) < fr_next (storage P)" and "q < heap_next P"
  shows "conn_le P (fst (sess_Kick (front_env (hv_agent env) now (hv_pool env)) q cb r P))"
proof -
  obtain Q e where kick: "agent_Kick (hv_agent env) now (entity (heap P q)) r P = (Q, e)" by fastforce
  then have le: "conn_le P Q" using agent_Kick_le by (metis fst_conv)
  let ?Q = "upd q (online_update (\<lambda>_. False)) Q"
  note le
  also have "conn_le Q ?Q" by (rule conn_le_upd) simp
  finally have le': "conn_le P ?Q" .
  have "entity (heap ?Q q) < fr_next (storage ?Q)"
    using conn_leD(2) [OF le' assms(2)] conn_leD(5) [OF le' assms(3)] by simp
  moreover have "close_code (hv_agent env)" using assms(1) by (simp add: service_code_def)
  ultimately have "conn_le ?Q (fst (agent_Close (hv_agent env) (entity (heap ?Q q)) cb r ?Q))" by (intro agent_Close_le)
  from le conn_le_trans [OF le' this] show ?thesis by (cases e) (simp_all add: sess_Kick_def kick Let_def)
qed

text \<open>
  The steps of a frontend: a connection is accepted, a packet is read, a worker takes a task, the goroutines of an agent go round, something
  is sent to a client, a client is kicked, a session is closed, or the rest of the program does what respects the connections.
\<close>

inductive conn_step :: "('d, 'k, 'v) service_env \<Rightarrow> ('d, 'k) world \<Rightarrow> ('d, 'k) world \<Rightarrow> bool" for env where
  accept: "newAgent (hv_agent env) now conn n t sv P = Some (a, P') \<Longrightarrow> conn_step env P P'"
| packet: "a < fr_next (storage P) \<Longrightarrow> processPacket env now a p P = Some (P', e) \<Longrightarrow> conn_step env P P'"
| work: "conn_step env P (run_task env key P)"
| heartbeat: "a < fr_next (storage P) \<Longrightarrow> conn_step env P (fst (heartbeat_tick (hv_agent env) now a P))"
| heartbeat_end: "a < fr_next (storage P) \<Longrightarrow> conn_step env P (heartbeat_stop (hv_agent env) a P)"
| write_one: "a < fr_next (storage P) \<Longrightarrow> conn_step env P (fst (write_round (hv_agent env) now a P))"
| write_end: "a < fr_next (storage P) \<Longrightarrow> conn_step env P (write_stop (hv_agent env) a P)"
| keep_alive: "conn_step env P (keep_alive_tick (hv_agent env) a P)"
| handle_end: "a < fr_next (storage P) \<Longrightarrow> conn_step env P (agent_Handle_end (hv_agent env) a P)"
| push: "conn_step env P (fst (sess_Push (hv_agent env) q rt v P))"
| kick: "entity (heap P q) < fr_next (storage P) \<Longrightarrow> q < heap_next P \<Longrightarrow>
    conn_step env P (fst (sess_Kick (front_env (hv_agent env) now (hv_pool env)) q cb r P))"
| close: "entity (heap P q) < fr_next (storage P) \<Longrightarrow>
    conn_step env P (sess_Close (front_env (hv_agent env) now (hv_pool env)) q cb r P)"
| other: "conn_le P P' \<Longrightarrow> conn_step env P P'"

lemma conn_step_le:
  assumes "service_code env" and "conn_step env P P'"
  shows "conn_le P P'"
proof -
  have c: "close_code (hv_agent env)" using assms(1) by (simp add: service_code_def)
  from assms(2) show ?thesis
  proof cases
    case (accept now conn n t sv a)
    then show ?thesis by (rule newAgent_le)
  next
    case (packet a now p e)
    then show ?thesis by (intro processPacket_le [OF assms(1)])
  next
    case (push q rt v)
    then show ?thesis by (simp add: sess_Push_def)
  qed (auto intro: run_task_le [OF assms(1)] heartbeat_tick_le [OF c] agent_stops_le [OF c] write_round_le [OF c]
      front_Kick_le [OF assms(1)] front_Close_le [OF assms(1)])
qed

lemma conn_steps_le:
  assumes "service_code env" and "(conn_step env)\<^sup>*\<^sup>* P P'"
  shows "conn_le P P'"
  using assms(2)
proof (induction rule: rtranclp_induct)
  case (step Q R)
  from step.IH conn_step_le [OF assms(1) step.hyps(2)] show ?case by (rule conn_le_trans)
qed simp

text \<open>A frontend at its start: no agents, and nothing closed.\<close>

definition front_start :: "'d \<Rightarrow> 'k agent \<Rightarrow> ('d, 'k) front" where
  "front_start c zero = \<lparr>fr_cache = c, fr_agents = (\<lambda>_. zero), fr_next = 0, fr_tasks = (\<lambda>_. []), fr_closed = []\<rparr>"

lemma front_start_inv:
  assumes "agent_ok False zero"
  shows "conn_inv (NewSessionPool (front_start c zero))"
  using assms by (simp add: conn_inv_def NewSessionPool_def front_start_def agent_at_def)


section \<open>Leaving the reading loop releases the connection\<close>

lemma process_packets_le:
  assumes "service_code env" and "a < fr_next (storage P)"
  shows "conn_le P (fst (process_packets env now a ps P))"
  using assms(2)
proof (induction ps arbitrary: P)
  case (Cons p ps)
  show ?case
  proof (cases "processPacket env now a p P")
    case (Some r)
    obtain Q e where r: "r = (Q, e)" by fastforce
    have le: "conn_le P Q" using processPacket_le [OF assms(1) Cons.prems] Some r by simp
    from conn_le_trans [OF le Cons.IH [OF conn_leD(2) [OF le Cons.prems]]] le
    show ?thesis by (cases e) (simp_all add: Some r)
  qed simp
qed simp

fun world_of :: "'w reading \<Rightarrow> 'w" where
  "world_of (Reading w) = w"
| "world_of (Left w) = w"

text \<open>What the rest of the program does between two messages respects the connections.\<close>

definition meanwhile_ok :: "(int \<times> (('d, 'k) world \<Rightarrow> ('d, 'k) world) \<times> byte list res) list \<Rightarrow> bool" where
  "meanwhile_ok ms \<longleftrightarrow> (\<forall>m \<in> set ms. \<forall>Q. conn_le Q (fst (snd m) Q))"

lemma read_loop_le:
  assumes "service_code env" and "a < fr_next (storage P)" and "meanwhile_ok ms"
  shows "conn_le P (world_of (read_loop env a ms P))"
  using assms(2,3)
proof (induction ms arbitrary: P)
  case (Cons m ms)
  obtain now f b where m: "m = (now, f, b)" using prod_cases3 by blast
  have f: "conn_le P (f P)" and ms: "meanwhile_ok ms" using Cons.prems(2) m by (auto simp: meanwhile_ok_def)
  show ?case
  proof (cases b)
    case (Inr bytes)
    show ?thesis
    proof (cases "PacketDecode bytes")
      case (Inr ps)
      obtain Q more where run: "process_packets env now a ps (f P) = (Q, more)" by fastforce
      have "conn_le (f P) Q"
        using process_packets_le [OF assms(1) conn_leD(2) [OF f Cons.prems(1)], of now ps] run by simp
      with f have le: "conn_le P Q" by (rule conn_le_trans)
      have "conn_le Q (world_of (read_loop env a ms Q))"
        by (rule Cons.IH [OF conn_leD(2) [OF le Cons.prems(1)] ms])
      from conn_le_trans [OF le this] le show ?thesis
        by (cases more) (simp_all add: m \<open>b = Inr bytes\<close> Inr run)
    qed (simp add: m \<open>b = Inr bytes\<close> f)
  qed (simp add: m f)
qed simp

lemma count_list_distinct: "distinct xs \<Longrightarrow> x \<in> set xs \<Longrightarrow> count_list xs x = 1"
  by (induction xs) auto


section \<open>Messages that get through, and messages that do not\<close>

lemma sess_Go_fresh:
  assumes "uidInt (heap P q) = 0" and "IsFrontend (heap P q)" and "ae_Submit env ''session'' (sess_id (heap P q))"
  shows "fr_tasks (storage (sess_Go env q t P)) (''session'', sess_id (heap P q)) =
    fr_tasks (storage P) (''session'', sess_id (heap P q)) @ [t]"
  using assms by (simp add: sess_Go_def GoWithID_def pool_Go_def Let_def)

text \<open>
  A client gets past the handshake without a handshake. The acknowledgement is accepted from a connection that has sent nothing
  before, so a client that starts with it has its messages handled: for any validators, even ones that refuse everything, the message
  of the second packet is given to the worker of the session.
\<close>

theorem ack_skips_handshake:
  assumes "ag_state (agent_at P a) = StatusStart"
    and "MessageDecode (ae_zlib (hv_agent env)) (ae_dict (hv_agent env)) b = Some (Inr msg)"
    and "RouteDecode (msg_Route msg) = Inr r" and "SvType r = [] \<or> SvType r = sv_Type (hv_server env)"
    and "q = ag_Session (agent_at P a)" and "uidInt (heap P q) = 0" and "IsFrontend (heap P q)"
    and "ae_Submit (hv_agent env) ''session'' (sess_id (heap P q))"
  shows "\<exists>P' ctx. process_packets env now a [packet_of HandshakeAck [], packet_of DataPacket b] P = (P', True) \<and>
    handshakeData (heap P' q) = handshakeData (heap P q) \<and>
    fr_tasks (storage P') (''session'', sess_id (heap P q)) =
      fr_tasks (storage P) (''session'', sess_id (heap P q)) @
        [LocalTask ctx a (r\<lparr>SvType := sv_Type (hv_server env)\<rparr>) msg]"
proof -
  let ?W = "agent_SetLastAt now a (agent_SetStatus StatusWorking a P)"
  have W: "agent_at ?W a = (agent_at P a)\<lparr>ag_state := StatusWorking, ag_lastAt := unix_seconds now\<rparr>" "heap ?W = heap P"
    "fr_tasks (storage ?W) = fr_tasks (storage P)"
    by (simp_all add: agent_SetLastAt_def agent_SetStatus_def)
  have r: "(if SvType r = [] then r\<lparr>SvType := sv_Type (hv_server env)\<rparr> else r) = r\<lparr>SvType := sv_Type (hv_server env)\<rparr>"
    using assms(4) by auto
  define ctx where "ctx = \<lparr>hc_values = the (AddListToPropagateCtx (Ctx None)
      [GString ''req-start-time'', GInt64 (word_of_int now), GString ''req-route'', GString (msg_Route msg),
       GString ''request.id'', GString (hv_nuid env ?W)]), hc_session = Some q, hc_logger = None\<rparr>"
  let ?t = "LocalTask ctx a (r\<lparr>SvType := sv_Type (hv_server env)\<rparr>) msg"
  have msg: "processMessage env now a msg ?W = sess_Go (hv_agent env) q ?t ?W"
    unfolding processMessage_def Let_def assms(3) sum.case r using assms(5) W by (simp add: ctx_def)
  have "process_packets env now a [packet_of HandshakeAck [], packet_of DataPacket b] P =
      (agent_SetLastAt now a (sess_Go (hv_agent env) q ?t ?W), True)"
    using assms(2) msg W by (simp add: processPacket_def data_packet_def)
  moreover have "heap (sess_Go (hv_agent env) q ?t ?W) = heap ?W"
    by (simp add: sess_Go_def GoWithID_def GoWithUser_def pool_Go_def Let_def)
  ultimately show ?thesis
    using sess_Go_fresh [of ?W q "hv_agent env" ?t] assms(6-8) W by (auto simp: agent_SetLastAt_def)
qed

text \<open>
  The messages of a user with a negative number are dropped. A user id that spells a negative number makes the number of the session
  negative; the session then hands its messages to the workers of users, which refuse a number that is not positive. Such a
  client gets no answer to any message, not even an error.
\<close>

theorem negative_user_dropped:
  assumes "q = ag_Session (agent_at P a)" and "uidInt (heap P q) = ForceIdStrToInt u" and "ForceIdStrToInt u <s 0"
    and "RouteDecode (msg_Route msg) = Inr r"
  shows "processMessage env now a msg P = P"
proof -
  have "uidInt (heap P q) \<noteq> 0" using assms(2,3) by (auto simp: word_sless_alt)
  moreover have "uidInt (heap P q) \<le>s 0" using assms(2,3) by (simp add: word_sless_alt word_sle_eq)
  ultimately have "sess_Go (hv_agent env) q t P = P" for t by (simp add: sess_Go_def GoWithUser_def Let_def)
  then show ?thesis using assms(1,4) by (simp add: processMessage_def Let_def)
qed

text \<open>An agent that is dead can be set to working again, by an acknowledgement that is read behind the close.\<close>

lemma closed_agent_revived:
  assumes "close_code (hv_agent env)" and "a < fr_next (storage P)" and "conn_inv P"
  shows "\<exists>P'. processPacket env now a (packet_of HandshakeAck []) (fst (agent_Close (hv_agent env) a cb r P)) = Some (P', None) \<and>
    ag_chDie (agent_at P' a) \<and> ag_state (agent_at P' a) = StatusWorking"
  using agent_Close_dies [OF assms, of cb r]
  by (simp add: processPacket_def agent_SetLastAt_def agent_SetStatus_def)

text \<open>A heartbeat with one to seven bytes makes the reading goroutine panic.\<close>

lemma short_heartbeat_panics:
  assumes "0 < length b" and "length b < 8"
  shows "processPacket env now a (packet_of Heartbeat b) P = None"
  using assms by (simp add: processPacket_def heartbeat_packet_def heartbeat_time_def BigEndian_Uint64_def)

section \<open>A frontend for the examples\<close>

text \<open>A frontend without a cache whose connections keep what is written to them, with the room component of the handler pool.\<close>

definition front_handler :: "(byte list, (unit, byte list) world) handler_env" where
  "front_handler =
     \<lparr>he_impl = he_impl handler_example, he_recv_type = he_recv_type handler_example, he_ctx_type = he_ctx_type handler_example,
      he_run = (\<lambda>f args P. (P, Returns (Some (PtrV (TNamed ''JoinResp'') [42], None)))),
      he_provider = (\<lambda>_ _. None), he_taskgo = (\<lambda>_ ctx. Some ctx), he_intercept = (\<lambda>_ _ _ _ P. (P, NilV, None)),
      he_Marshal = he_Marshal handler_example, he_Unmarshal = (\<lambda>b t. Inr b), he_proto_Unmarshal = (\<lambda>b t. Inr b),
      he_FromError = (\<lambda>e. e), he_BadRequest = (\<lambda>e. e), he_NotFound = (\<lambda>_. ErrNew ''not found''),
      he_Status = (\<lambda>e. PtrV (TNamed ''Status'') [0]), he_customError = None\<rparr>"

definition agent_example :: "(unit, byte list, byte list) agent_env" where
  "agent_example =
     \<lparr>ae_handler = front_handler, ae_compress = False, ae_zlib = zlib_example,
      ae_dict = \<lparr>routes = Map.empty, codes = Map.empty\<rparr>, ae_SetWriteDeadline = (\<lambda>t k. (k, None)),
      ae_Write = (\<lambda>b k. (k @ b, None)), ae_conn_Close = (\<lambda>k. (k, None)), ae_isWS = (\<lambda>k. False),
      ae_WriteControl = (\<lambda>r k. (k, None)), ae_RemoteIP = (\<lambda>k. Inr ''10.0.0.1''), ae_on_close = (\<lambda>f P. (P, False)),
      ae_on_session_close = (\<lambda>f q cb r P. (P, False)), ae_pick = (\<lambda>_. True), ae_Submit = (\<lambda>_ _. True),
      ae_hello = (\<lambda>_. Inr []), ae_Expire = (\<lambda>k c. (c, None))\<rparr>"

definition front_pool :: "(unit, byte list) front pool_env" where
  "front_pool =
     \<lparr>pe_json = json_example,
      pe_cache = \<lparr>cache_Hset = (\<lambda>k f v st. (st, None)), cache_Hmset = (\<lambda>k m st. (st, None)), cache_Hgetall = (\<lambda>k st. Inr Map.empty)\<rparr>,
      fields_order = (\<lambda>h. []), proto_Marshal = (\<lambda>m. Inr []), on_bind = (\<lambda>f q cb P. (P, None)),
      on_bind_backend = (\<lambda>f q ty i cb P. (P, None)), on_kick_backend = (\<lambda>f q ty i cb r P. (P, None)),
      entity_Kick = (\<lambda>e r P. (P, None)), entity_Close = (\<lambda>e cb r P. (P, None)),
      entity_SendRequest = (\<lambda>e sv rt b P. (P, None)), sub_Drain = (\<lambda>s P. P)\<rparr>"

definition service_example :: "(unit, byte list, byte list) service_env" where
  "service_example =
     \<lparr>hv_agent = agent_example, hv_pool = front_pool, hv_hooks = NewHandlerHooks, hv_handlers = hs_pool room_services,
      hv_server = front_server, hv_handshake = (\<lambda>b. Inr GNil), hv_validate = (\<lambda>_ _. Some (ErrNew ''refused'')),
      hv_names = (\<lambda>_. [''all'']), hv_remoteProcess = None, hv_nuid = (\<lambda>_. ''id'')\<rparr>"

definition zero_agent :: "byte list agent" where
  "zero_agent =
     \<lparr>ag_Session = 0, ag_chDie = False, ag_chSend = [], ag_chStopHeartbeat = False, ag_chStopWrite = False,
      ag_chStopKeepCacheAlive = False, ag_conn = [], ag_heartbeatTimeout = 0, ag_lastAt = 0, ag_messagesBufferSize = 0,
      ag_state = 0\<rparr>"

definition front_empty :: "(unit, byte list) world" where
  "front_empty = NewSessionPool (front_start () zero_agent)"

definition front_one :: "(unit, byte list) world" where
  "front_one = snd (the (newAgent agent_example 0 [] 10 1000000000 ''f1'' front_empty))"

lemma agent_example_parts [simp]:
  "ae_handler agent_example = front_handler" "ae_compress agent_example = False" "ae_zlib agent_example = zlib_example"
  "ae_dict agent_example = \<lparr>routes = Map.empty, codes = Map.empty\<rparr>" "ae_isWS agent_example k = False"
  "ae_RemoteIP agent_example k = Inr ''10.0.0.1''" "ae_on_close agent_example f P = (P, False)"
  "ae_on_session_close agent_example f q cb r P = (P, False)" "ae_Submit agent_example name i"
  "ae_hello agent_example n = Inr []" "ae_conn_Close agent_example k = (k, None)"
  by (simp_all add: agent_example_def)

lemma service_example_parts [simp]:
  "hv_agent service_example = agent_example" "hv_pool service_example = front_pool" "hv_hooks service_example = NewHandlerHooks"
  "hv_handlers service_example = hs_pool room_services" "hv_server service_example = front_server"
  "hv_remoteProcess service_example = None" "sub_Drain front_pool x Q = Q"
  by (simp_all add: service_example_def front_pool_def)

lemma service_example_code: "service_code service_example"
  by (simp add: service_code_def close_code_def front_handler_def NewHandlerHooks_def)

lemma hello_example: "\<not> (hbdEncode agent_example = None \<or> herdEncode agent_example = None)"
  by (simp add: hbdEncode_def herdEncode_def encodeAndCompress_def PacketEncode_def)

lemma front_accept:
  "newAgent agent_example 0 [] 10 1000000000 ''f1'' front_empty = Some (0, front_one)"
  "front_one = upd 0 (SetIP ''10.0.0.1'') (upd 0 (\<lambda>s. SetFrontendData ''f1'' (sess_id s) s)
     (upd_agent 0 (\<lambda>_. zero_agent\<lparr>ag_state := StatusStart, ag_heartbeatTimeout := 1000000000, ag_messagesBufferSize := 10\<rparr>)
       (snd (snd (NewSession 0 0 True [] (front_empty\<lparr>storage := (storage front_empty)\<lparr>fr_next := 1\<rparr>\<rparr>))))))"
proof -
  define Q where "Q = snd (snd (NewSession 0 0 True [] (front_empty\<lparr>storage := (storage front_empty)\<lparr>fr_next := 1\<rparr>\<rparr>)))"
  have new: "NewSession 0 0 True [] (front_empty\<lparr>storage := (storage front_empty)\<lparr>fr_next := 1\<rparr>\<rparr>) = (0, True, Q)"
    by (simp add: Q_def NewSession_def Let_def front_empty_def NewSessionPool_def)
  have zero: "fr_next (storage front_empty) = 0" "unix_seconds 0 = 0"
    by (simp_all add: front_empty_def NewSessionPool_def front_start_def unix_seconds_def)
  have eq: "newAgent agent_example 0 [] 10 1000000000 ''f1'' front_empty =
      Some (0, upd 0 (SetIP ''10.0.0.1'') (upd 0 (\<lambda>s. SetFrontendData ''f1'' (sess_id s) s)
       (upd_agent 0 (\<lambda>_. zero_agent\<lparr>ag_state := StatusStart, ag_heartbeatTimeout := 1000000000, ag_messagesBufferSize := 10\<rparr>) Q)))"
    unfolding newAgent_def Let_def if_not_P [OF hello_example] zero
    using new by (simp add: zero_agent_def)
  then show "newAgent agent_example 0 [] 10 1000000000 ''f1'' front_empty = Some (0, front_one)"
    "front_one = upd 0 (SetIP ''10.0.0.1'') (upd 0 (\<lambda>s. SetFrontendData ''f1'' (sess_id s) s)
     (upd_agent 0 (\<lambda>_. zero_agent\<lparr>ag_state := StatusStart, ag_heartbeatTimeout := 1000000000, ag_messagesBufferSize := 10\<rparr>)
       (snd (snd (NewSession 0 0 True [] (front_empty\<lparr>storage := (storage front_empty)\<lparr>fr_next := 1\<rparr>\<rparr>))))))"
    by (simp_all add: front_one_def Q_def)
qed

lemma front_one_parts:
  "agent_at front_one 0 = zero_agent\<lparr>ag_state := StatusStart, ag_heartbeatTimeout := 1000000000, ag_messagesBufferSize := 10\<rparr>"
  "fr_next (storage front_one) = 1" "fr_closed (storage front_one) = []" "fr_tasks (storage front_one) = (\<lambda>_. [])"
  "heap front_one 0 = (new_session 1 0 0 True)\<lparr>frontendID := ''f1'', frontendSessionID := 1, sess_ip := ''10.0.0.1''\<rparr>"
proof -
  show "agent_at front_one 0 = zero_agent\<lparr>ag_state := StatusStart, ag_heartbeatTimeout := 1000000000, ag_messagesBufferSize := 10\<rparr>"
    by (simp add: front_accept(2))
qed (simp_all add: front_accept(2) NewSession_def Let_def front_empty_def NewSessionPool_def front_start_def upd_def
      SetFrontendData_def SetIP_def new_session_def)

lemma until_panic_same:
  assumes "\<And>f. run f P = (P, False)"
  shows "until_panic run fs P = (P, False)"
  using assms by (induction fs) simp_all

lemma onSessionClosed_example [simp]: "onSessionClosed agent_example q cb r P = P"
  by (simp add: onSessionClosed_def Let_def until_panic_same)

lemma zero_agent_ok: "agent_ok False zero_agent"
  by (simp add: agent_ok_def zero_agent_def)

lemma front_one_reached: "(conn_step service_example)\<^sup>*\<^sup>* (NewSessionPool (front_start () zero_agent)) front_one"
proof (rule r_into_rtranclp)
  have "newAgent (hv_agent service_example) 0 [] 10 1000000000 ''f1'' front_empty = Some (0, front_one)"
    using front_accept(1) by simp
  then show "conn_step service_example (NewSessionPool (front_start () zero_agent)) front_one"
    unfolding front_empty_def by (rule conn_step.accept)
qed



lemma decode_example:
  "MessageDecode zlib_example \<lparr>routes = Map.empty, codes = Map.empty\<rparr> [2, 3, 97, 46, 98, 9] =
     Some (Inr \<lparr>msg_Type = Notify, msg_ID = 0, msg_Route = ''a.b'', msg_Data = [9], msg_compressed = False, msg_Err = False\<rparr>)"
  by code_simp

lemma decode_ab: "RouteDecode ''a.b'' = Inr (NewRoute [] ''a'' ''b'')"
  using RouteDecode_literal(2) [of "''a''" "''b''"] by (simp add: field_ok_letters letters_def)

lemma ack_skips_handshake_witness:
  "\<exists>P' t. process_packets service_example 0 0 [packet_of HandshakeAck [], packet_of DataPacket [2, 3, 97, 46, 98, 9]] front_one = (P', True) \<and>
     fr_tasks (storage P') (''session'', 1) = [t] \<and>
     ValidateHandshake (hv_validate service_example) (handshakeValidators front_one) [''all''] (Some GNil) = Some (ErrNew ''refused'')"
proof -
  let ?m = "\<lparr>msg_Type = Notify, msg_ID = 0, msg_Route = ''a.b'', msg_Data = [9 :: byte], msg_compressed = False, msg_Err = False\<rparr>"
  have dec: "MessageDecode (ae_zlib (hv_agent service_example)) (ae_dict (hv_agent service_example)) [2, 3, 97, 46, 98, 9] = Some (Inr ?m)"
    using decode_example by (simp add: service_example_def agent_example_def)
  have rt: "RouteDecode (msg_Route ?m) = Inr (NewRoute [] ''a'' ''b'')" by (simp add: decode_ab)
  have "\<exists>P' ctx. process_packets service_example 0 0 [packet_of HandshakeAck [], packet_of DataPacket [2, 3, 97, 46, 98, 9]] front_one = (P', True) \<and>
      handshakeData (heap P' 0) = handshakeData (heap front_one 0) \<and>
      fr_tasks (storage P') (''session'', sess_id (heap front_one 0)) =
        fr_tasks (storage front_one) (''session'', sess_id (heap front_one 0)) @
          [LocalTask ctx 0 ((NewRoute [] ''a'' ''b'')\<lparr>SvType := sv_Type (hv_server service_example)\<rparr>) ?m]"
    by (rule ack_skips_handshake [OF _ dec rt])
      (simp_all add: front_one_parts zero_agent_def new_session_def NewRoute_def service_example_def agent_example_def)
  then show ?thesis by (force simp: front_one_parts new_session_def service_example_def)
qed

lemma negative_user_dropped_witness:
  "processMessage service_example 0 0
     \<lparr>msg_Type = Request, msg_ID = 1, msg_Route = ''a.b'', msg_Data = [], msg_compressed = False, msg_Err = False\<rparr>
     (upd 0 (bound_to ''-7'') front_one) = upd 0 (bound_to ''-7'') front_one"
proof -
  have "ForceIdStrToInt ''-7'' = - 7" by (simp add: ForceIdStrToInt_def ParseInt_def)
  then have neg: "ForceIdStrToInt ''-7'' <s 0" by (simp add: word_sless_alt)
  have q: "0 = ag_Session (agent_at (upd 0 (bound_to ''-7'') front_one) 0)" by (simp add: front_one_parts zero_agent_def)
  have "heap (upd 0 f P) 0 = f (heap P 0)" for f and P :: "(unit, byte list) world" by (simp add: upd_def)
  then show ?thesis
    by (intro negative_user_dropped [OF q _ neg]) (simp_all add: bound_to_def decode_ab)
qed

end
