(* ===== verification/Remote_Service.thy ===== *)
theory Remote_Service
  imports Sys_Remote Handler_Service
begin

text \<open>
  The remote service, \<open>service/remote.go\<close>, with the agent it makes for a remote session (\<open>agent/agent_remote.go\<close>): registering remotes, calling,
  notifying, forking and publishing to other servers, and handling the calls of other servers. The RPC client is a parameter. Notifying
  all servers reaches one server of every other type; asking all replicas of a type for an answer returns when there is another
  replica and never when there is none.
\<close>

section \<open>The environment\<close>

abbreviation (input) RPCType_Sys :: nat where "RPCType_Sys \<equiv> 0"
abbreviation (input) RPCType_User :: nat where "RPCType_User \<equiv> 1"

record 's rpc_response =
  resp_Data :: "byte list"
  resp_Status :: "'s option"

text \<open>
  \<open>rp_Call\<close> and \<open>rp_Fork\<close> are the interface of the RPC client; both clients of the repository answer a nil error with a response.
  \<open>rp_Marshal\<close> and \<open>rp_Unmarshal\<close> are protobuf, \<open>rp_FromError\<close> and \<open>rp_FromStatus\<close> the API error package, whose status is the type \<open>'s\<close>.
  \<open>rp_order\<close> is the order in which a range statement visits a map of servers, \<open>rp_keys\<close> and \<open>rp_pick\<close> the order and the random index of
  the router. A session is an address in the session pool, and \<open>None\<close> the nil session.
\<close>

record ('h, 'c, 's) rpc_env =
  rp_server :: server
  rp_sd :: "'h sd"
  rp_router :: router
  rp_keys :: "string \<Rightarrow> string list"
  rp_pick :: "string \<Rightarrow> nat"
  rp_order :: "(string \<rightharpoonup> server) \<Rightarrow> string list"
  rp_Call :: "nat \<Rightarrow> route \<Rightarrow> nat option \<Rightarrow> message \<Rightarrow> server \<Rightarrow> 'c pool \<Rightarrow> 'c pool \<times> 's rpc_response res"
  rp_Fork :: "route \<Rightarrow> nat option \<Rightarrow> message \<Rightarrow> 'c pool \<Rightarrow> 'c pool \<times> goerr option"
  rp_Marshal :: "proto_msg \<Rightarrow> byte list res"
  rp_Unmarshal :: "byte list \<Rightarrow> proto_msg res"
  rp_FromError :: "goerr \<Rightarrow> goerr"
  rp_FromStatus :: "'s \<Rightarrow> goerr"

section \<open>Calling\<close>

text \<open>\<open>None\<close> is the panic of the router when it draws from no servers.\<close>

definition remoteCall ::
  "('h, 'c, 's) rpc_env \<Rightarrow> server option \<Rightarrow> nat \<Rightarrow> route \<Rightarrow> nat option \<Rightarrow> message \<Rightarrow> 'c pool
     \<Rightarrow> ('c pool \<times> 's rpc_response res) option" where
  "remoteCall env sv rpcType rt q msg P =
     (case (case sv of
              Some target \<Rightarrow> Some (Inr target)
            | None \<Rightarrow> router_Route (rp_router env) (rp_keys env (SvType rt)) (rp_pick env (SvType rt)) (SvType rt) rt (msg_Data msg)
                        (map_option (heap P) q)) of
        None \<Rightarrow> None
      | Some (Inl e) \<Rightarrow> Some (P, Inl (rp_FromError env e))
      | Some (Inr target) \<Rightarrow> Some (rp_Call env rpcType rt q msg target P))"

definition user_message :: "byte \<Rightarrow> route \<Rightarrow> byte list \<Rightarrow> message" where
  "user_message ty rt payload = (NewMessage [])\<lparr>msg_Type := ty, msg_Route := RouteShort rt, msg_Data := payload\<rparr>"

definition DoRPC ::
  "('h, 'c, 's) rpc_env \<Rightarrow> string \<Rightarrow> route \<Rightarrow> byte list \<Rightarrow> nat option \<Rightarrow> 'c pool \<Rightarrow> ('c pool \<times> 's rpc_response res) option" where
  "DoRPC env serverID rt protoData q P =
     (let msg = user_message Request rt protoData in
      if serverID = [] then remoteCall env None RPCType_User rt q msg P
      else case GetServer serverID (rp_sd env) of
             Inl e \<Rightarrow> Some (P, Inl ErrServerNotFound)
           | Inr target \<Rightarrow> remoteCall env (Some target) RPCType_User rt q msg P)"

definition error_of :: "'a res \<Rightarrow> goerr option" where
  "error_of r = (case r of Inl e \<Rightarrow> Some e | Inr _ \<Rightarrow> None)"

definition DoNotify ::
  "('h, 'c, 's) rpc_env \<Rightarrow> string \<Rightarrow> route \<Rightarrow> byte list \<Rightarrow> nat option \<Rightarrow> 'c pool \<Rightarrow> ('c pool \<times> goerr option) option" where
  "DoNotify env serverID rt protoData q P =
     (let msg = user_message Notify rt protoData in
      if serverID = [] then map_option (\<lambda>(P, r). (P, error_of r)) (remoteCall env None RPCType_User rt q msg P)
      else case GetServer serverID (rp_sd env) of
             Inl e \<Rightarrow> Some (P, Some ErrServerNotFound)
           | Inr target \<Rightarrow> map_option (\<lambda>(P, r). (P, error_of r)) (remoteCall env (Some target) RPCType_User rt q msg P))"

text \<open>One message to every replica given, except this server; the last error is kept.\<close>

fun fork_loop ::
  "('h, 'c, 's) rpc_env \<Rightarrow> route \<Rightarrow> nat option \<Rightarrow> message \<Rightarrow> server list \<Rightarrow> goerr option \<Rightarrow> 'c pool
     \<Rightarrow> ('c pool \<times> goerr option) option" where
  "fork_loop env rt q msg [] err P = Some (P, err)"
| "fork_loop env rt q msg (sv # svs) err P =
     (if sv_ID (rp_server env) = sv_ID sv then fork_loop env rt q msg svs err P
      else case remoteCall env (Some sv) RPCType_User rt q msg P of
             None \<Rightarrow> None
           | Some (P, Inl err2) \<Rightarrow> fork_loop env rt q msg svs (Some err2) P
           | Some (P, Inr r) \<Rightarrow> fork_loop env rt q msg svs err P)"

definition replicas :: "('h, 'c, 's) rpc_env \<Rightarrow> (string \<rightharpoonup> server) \<Rightarrow> server list" where
  "replicas env m = map (\<lambda>k. the (m k)) (rp_order env m)"

definition DoFork ::
  "('h, 'c, 's) rpc_env \<Rightarrow> route \<Rightarrow> byte list \<Rightarrow> nat option \<Rightarrow> 'c pool \<Rightarrow> ('c pool \<times> goerr option) option" where
  "DoFork env rt protoData q P =
     (let msg = user_message Notify rt protoData in
      if SvType rt \<noteq> sv_Type (rp_server env) then Some (rp_Fork env rt q msg P)
      else case GetServersByType (SvType rt) (rp_sd env) of
             Inl e \<Rightarrow> Some (P, Some e)
           | Inr m \<Rightarrow> fork_loop env rt q msg (replicas env m) None P)"

text \<open>
  \<open>DoForkRequest\<close>: a goroutine for every replica other than this server, and a loop that takes the responses off a channel. A goroutine makes its
  call and writes the error to a variable they share, which is the event \<open>Finish\<close>; later its response is received, the event \<open>Receive\<close>.
  Nothing orders the goroutines between the two, so the responses arrive in any order. A failed call sends the nil response. The run is given by a
  list of events, and its result is \<open>None\<close> while the loop is still waiting at the end of them.
\<close>

datatype fork_event = Finish nat | Receive nat

record ('c, 's) forking =
  fk_running :: "server list"
  fk_sending :: "'s rpc_response option list"
  fk_resps :: "'s rpc_response option list"
  fk_err :: "goerr option"
  fk_pool :: "'c pool"

definition remove_at :: "nat \<Rightarrow> 'a list \<Rightarrow> 'a list" where
  "remove_at i xs = take i xs @ drop (Suc i) xs"

definition finish_call ::
  "('h, 'c, 's) rpc_env \<Rightarrow> route \<Rightarrow> nat option \<Rightarrow> message \<Rightarrow> nat \<Rightarrow> ('c, 's) forking \<Rightarrow> ('c, 's) forking" where
  "finish_call env rt q msg i F =
     (case remoteCall env (Some (fk_running F ! i)) RPCType_User rt q msg (fk_pool F) of
        None \<Rightarrow> F
      | Some (P, r) \<Rightarrow>
          F\<lparr>fk_running := remove_at i (fk_running F),
            fk_sending := fk_sending F @ [case r of Inl e \<Rightarrow> None | Inr x \<Rightarrow> Some x],
            fk_err := (case r of Inl err2 \<Rightarrow> Some err2 | Inr x \<Rightarrow> fk_err F),
            fk_pool := P\<rparr>)"

definition receive :: "nat \<Rightarrow> ('c, 's) forking \<Rightarrow> ('c, 's) forking" where
  "receive j F =
     F\<lparr>fk_sending := remove_at j (fk_sending F), fk_resps := fk_resps F @ [fk_sending F ! j]\<rparr>"

fun collect_loop ::
  "('h, 'c, 's) rpc_env \<Rightarrow> route \<Rightarrow> nat option \<Rightarrow> message \<Rightarrow> int \<Rightarrow> fork_event list \<Rightarrow> ('c, 's) forking
     \<Rightarrow> ('c, 's) forking option" where
  "collect_loop env rt q msg need [] F = None"
| "collect_loop env rt q msg need (Finish i # es) F =
     (if i < length (fk_running F) then collect_loop env rt q msg need es (finish_call env rt q msg i F)
      else collect_loop env rt q msg need es F)"
| "collect_loop env rt q msg need (Receive j # es) F =
     (if j < length (fk_sending F) then
        let F = receive j F in
        if need \<le> int (length (fk_resps F)) then Some F else collect_loop env rt q msg need es F
      else collect_loop env rt q msg need es F)"

definition other_replicas :: "('h, 'c, 's) rpc_env \<Rightarrow> (string \<rightharpoonup> server) \<Rightarrow> server list" where
  "other_replicas env m = filter (\<lambda>sv. sv_ID (rp_server env) \<noteq> sv_ID sv) (replicas env m)"

definition DoForkRequest ::
  "('h, 'c, 's) rpc_env \<Rightarrow> fork_event list \<Rightarrow> route \<Rightarrow> byte list \<Rightarrow> nat option \<Rightarrow> 'c pool
     \<Rightarrow> ('c pool \<times> 's rpc_response option list \<times> goerr option) option" where
  "DoForkRequest env es rt protoData q P =
     (let msg = user_message Request rt protoData in
      case GetServersByType (SvType rt) (rp_sd env) of
        Inl e \<Rightarrow> Some (P, [], Some e)
      | Inr m \<Rightarrow>
          map_option (\<lambda>F. (fk_pool F, fk_resps F, fk_err F))
            (collect_loop env rt q msg (int (length (replicas env m)) - 1) es
               \<lparr>fk_running = other_replicas env m, fk_sending = [], fk_resps = [], fk_err = None, fk_pool = P\<rparr>))"

text \<open>A server that keeps sessions to itself is left out when the session is not bound to it.\<close>

definition unbound_sticky :: "server \<Rightarrow> nat option \<Rightarrow> 'c pool \<Rightarrow> bool" where
  "unbound_sticky sv q P \<longleftrightarrow>
     sv_SessionStickiness sv \<and> (case q of None \<Rightarrow> False | Some q \<Rightarrow> GetBackendID (heap P q) (sv_Type sv) = [])"

definition type_servers :: "('h, 'c, 's) rpc_env \<Rightarrow> server list" where
  "type_servers env =
     (let m = GetServerTypes (rp_order env) (rp_sd env) in map (\<lambda>ty. the (m ty)) (rp_order env m))"

text \<open>\<open>DoPublish\<close> writes the server type into the route of its caller, so the route is returned too.\<close>

fun publish_loop ::
  "('h, 'c, 's) rpc_env \<Rightarrow> route \<Rightarrow> byte list \<Rightarrow> nat option \<Rightarrow> server list \<Rightarrow> goerr option \<Rightarrow> 'c pool
     \<Rightarrow> ('c pool \<times> route \<times> goerr option) option" where
  "publish_loop env rt protoData q [] err P = Some (P, rt, err)"
| "publish_loop env rt protoData q (sv # svs) err P =
     (case GetSubscribe (Service rt) (Method rt) sv of
        None \<Rightarrow> publish_loop env rt protoData q svs err P
      | Some fork \<Rightarrow>
          let rt = rt\<lparr>SvType := sv_Type sv\<rparr> in
          if sv_Type sv = sv_Type (rp_server env) \<and> \<not> fork then publish_loop env rt protoData q svs err P
          else if fork then
            (case DoFork env rt protoData q P of
               None \<Rightarrow> None
             | Some (P, err2) \<Rightarrow> publish_loop env rt protoData q svs (if err2 \<noteq> None then err2 else err) P)
          else if unbound_sticky sv q P then publish_loop env rt protoData q svs err P
          else
            (case DoNotify env [] rt protoData q P of
               None \<Rightarrow> None
             | Some (P, err2) \<Rightarrow> publish_loop env rt protoData q svs (if err2 \<noteq> None then err2 else err) P))"

definition DoPublish ::
  "('h, 'c, 's) rpc_env \<Rightarrow> route \<Rightarrow> byte list \<Rightarrow> nat option \<Rightarrow> 'c pool \<Rightarrow> ('c pool \<times> route \<times> goerr option) option" where
  "DoPublish env rt protoData q P = publish_loop env rt protoData q (type_servers env) None P"

text \<open>
  \<open>DoPublishRequest\<close>: a goroutine for every type that subscribes, and a goroutine that collects the responses that are not nil. The event \<open>Work i es\<close> runs
  the calls of a goroutine, where \<open>es\<close> are the events of its fork, and \<open>Deliver j\<close> takes the next response of a goroutine off the
  channel; the goroutines are in any order, and the calls of one are not interrupted by calls of another. A goroutine that waits in its fork has not
  run. One whose router panics is ended by the goroutine pool, which recovers the panic. The result is \<open>None\<close> as long as some goroutine has
  not run or has something left to send.
\<close>

datatype publish_event = Work nat "fork_event list" | Deliver nat

record ('c, 's) publishing =
  pb_waiting :: "(server \<times> bool) list"
  pb_sending :: "'s rpc_response option list list"
  pb_resps :: "'s rpc_response list"
  pb_err :: "goerr option"
  pb_pool :: "'c pool"

definition publish_task ::
  "('h, 'c, 's) rpc_env \<Rightarrow> fork_event list \<Rightarrow> route \<Rightarrow> byte list \<Rightarrow> nat option \<Rightarrow> server \<times> bool \<Rightarrow> 'c pool
     \<Rightarrow> ('c pool \<times> 's rpc_response option list \<times> goerr option) option" where
  "publish_task env es ro protoData q svf P =
     (case svf of (sv, fork) \<Rightarrow>
        if sv_Type sv = sv_Type (rp_server env) \<and> \<not> fork then Some (P, [], None)
        else
          let rt = NewRoute (sv_Type sv) (Service ro) (Method ro) in
          if fork then DoForkRequest env es rt protoData q P
          else if unbound_sticky sv q P then Some (P, [], None)
          else Some (case DoRPC env [] rt protoData q P of
                       None \<Rightarrow> (P, [], None)
                     | Some (P, Inl err2) \<Rightarrow> (P, [None], Some err2)
                     | Some (P, Inr rp) \<Rightarrow> (P, [Some rp], None)))"

fun publish_step ::
  "('h, 'c, 's) rpc_env \<Rightarrow> route \<Rightarrow> byte list \<Rightarrow> nat option \<Rightarrow> publish_event \<Rightarrow> ('c, 's) publishing \<Rightarrow> ('c, 's) publishing" where
  "publish_step env ro protoData q (Work i es) B =
     (if i < length (pb_waiting B) then
        (case publish_task env es ro protoData q (pb_waiting B ! i) (pb_pool B) of
           None \<Rightarrow> B
         | Some (P, rs, err2) \<Rightarrow>
             B\<lparr>pb_waiting := remove_at i (pb_waiting B), pb_sending := pb_sending B @ [rs],
               pb_err := (if err2 \<noteq> None then err2 else pb_err B), pb_pool := P\<rparr>)
      else B)"
| "publish_step env ro protoData q (Deliver j) B =
     (if j < length (pb_sending B) then
        (case pb_sending B ! j of
           [] \<Rightarrow> B
         | r # rs \<Rightarrow>
             B\<lparr>pb_sending := (pb_sending B)[j := rs],
               pb_resps := pb_resps B @ (case r of None \<Rightarrow> [] | Some x \<Rightarrow> [x])\<rparr>)
      else B)"

definition subscribers_of :: "('h, 'c, 's) rpc_env \<Rightarrow> route \<Rightarrow> (server \<times> bool) list" where
  "subscribers_of env ro =
     List.map_filter (\<lambda>sv. map_option (Pair sv) (GetSubscribe (Service ro) (Method ro) sv)) (type_servers env)"

definition DoPublishRequest ::
  "('h, 'c, 's) rpc_env \<Rightarrow> publish_event list \<Rightarrow> route \<Rightarrow> byte list \<Rightarrow> nat option \<Rightarrow> 'c pool
     \<Rightarrow> ('c pool \<times> 's rpc_response list \<times> goerr option) option" where
  "DoPublishRequest env es ro protoData q P =
     (let B = fold (publish_step env ro protoData q) es
                \<lparr>pb_waiting = subscribers_of env ro, pb_sending = [], pb_resps = [], pb_err = None, pb_pool = P\<rparr> in
      if pb_waiting B = [] \<and> (\<forall>rs \<in> set (pb_sending B). rs = []) then Some (pb_pool B, pb_resps B, pb_err B) else None)"

text \<open>The methods that take a message; a nil message is \<open>None\<close>.\<close>

definition marshalled :: "('h, 'c, 's) rpc_env \<Rightarrow> proto_msg option \<Rightarrow> byte list res" where
  "marshalled env arg = (case arg of None \<Rightarrow> Inr [] | Some m \<Rightarrow> rp_Marshal env m)"

definition remote_RPC ::
  "('h, 'c, 's) rpc_env \<Rightarrow> string \<Rightarrow> route \<Rightarrow> bool \<Rightarrow> proto_msg option \<Rightarrow> nat option \<Rightarrow> 'c pool
     \<Rightarrow> ('c pool \<times> proto_msg option res) option" where
  "remote_RPC env serverID rt reply arg q P =
     (case marshalled env arg of
        Inl e \<Rightarrow> Some (P, Inl e)
      | Inr b \<Rightarrow>
          (case DoRPC env serverID rt b q P of
             None \<Rightarrow> None
           | Some (P, Inl e) \<Rightarrow> Some (P, Inl e)
           | Some (P, Inr res) \<Rightarrow>
               Some (P, case resp_Status res of
                          Some st \<Rightarrow> Inl (rp_FromStatus env st)
                        | None \<Rightarrow> if reply then map_sum id Some (rp_Unmarshal env (resp_Data res)) else Inr None)))"

definition remote_Notify ::
  "('h, 'c, 's) rpc_env \<Rightarrow> string \<Rightarrow> route \<Rightarrow> proto_msg option \<Rightarrow> nat option \<Rightarrow> 'c pool \<Rightarrow> ('c pool \<times> goerr option) option" where
  "remote_Notify env serverID rt arg q P =
     (case marshalled env arg of Inl e \<Rightarrow> Some (P, Some e) | Inr b \<Rightarrow> DoNotify env serverID rt b q P)"

fun notify_loop ::
  "('h, 'c, 's) rpc_env \<Rightarrow> route \<Rightarrow> byte list \<Rightarrow> nat option \<Rightarrow> server list \<Rightarrow> 'c pool \<Rightarrow> ('c pool \<times> goerr option) option" where
  "notify_loop env ro b q [] P = Some (P, None)"
| "notify_loop env ro b q (sv # svs) P =
     (if sv_Type sv = sv_Type (rp_server env) then notify_loop env ro b q svs P
      else if unbound_sticky sv q P then notify_loop env ro b q svs P
      else case RouteDecode (sv_Type sv @ ''.'' @ RouteShort ro) of
             Inl e \<Rightarrow> Some (P, Some e)
           | Inr newRoute \<Rightarrow>
               (case DoNotify env [] newRoute b q P of
                  None \<Rightarrow> None
                | Some (P, _) \<Rightarrow> notify_loop env ro b q svs P))"

definition remote_NotifyAll ::
  "('h, 'c, 's) rpc_env \<Rightarrow> route \<Rightarrow> proto_msg option \<Rightarrow> nat option \<Rightarrow> 'c pool \<Rightarrow> ('c pool \<times> goerr option) option" where
  "remote_NotifyAll env ro arg q P =
     (case marshalled env arg of
        Inl e \<Rightarrow> Some (P, Some e)
      | Inr b \<Rightarrow> if SvType ro \<noteq> [] then Some (P, Some ErrNotifyAllSvTypeNotEmpty)
                 else notify_loop env ro b q (type_servers env) P)"

definition remote_Fork ::
  "('h, 'c, 's) rpc_env \<Rightarrow> fork_event list \<Rightarrow> bool \<Rightarrow> route \<Rightarrow> proto_msg option \<Rightarrow> nat option \<Rightarrow> 'c pool
     \<Rightarrow> ('c pool \<times> 's rpc_response option list \<times> goerr option) option" where
  "remote_Fork env es notify ro arg q P =
     (case marshalled env arg of
        Inl e \<Rightarrow> Some (P, [], Some e)
      | Inr b \<Rightarrow> if notify then map_option (\<lambda>(P, err). (P, [], err)) (DoFork env ro b q P)
                 else DoForkRequest env es ro b q P)"

text \<open>\<open>Publish\<close> returns the route too, which \<open>DoPublish\<close> writes to.\<close>

definition remote_Publish ::
  "('h, 'c, 's) rpc_env \<Rightarrow> publish_event list \<Rightarrow> route \<Rightarrow> bool \<Rightarrow> proto_msg option \<Rightarrow> nat option \<Rightarrow> 'c pool
     \<Rightarrow> ('c pool \<times> route \<times> 's rpc_response list \<times> goerr option) option" where
  "remote_Publish env es ro notify arg q P =
     (case marshalled env arg of
        Inl e \<Rightarrow> Some (P, ro, [], Some e)
      | Inr b \<Rightarrow>
          if notify then map_option (\<lambda>(P, rt, err). (P, rt, [], err)) (DoPublish env ro b q P)
          else map_option (\<lambda>(P, rs, err). (P, ro, rs, err)) (DoPublishRequest env es ro b q P))"

section \<open>Registering remotes\<close>

record remotes =
  rs_services :: "string \<rightharpoonup> service"
  rs_subscribers :: "string \<rightharpoonup> service"
  rs_remotes :: "string \<rightharpoonup> remote"
  rs_interceptors :: "string \<rightharpoonup> nat"
  rs_server :: server
  rs_bindingListeners :: "nat list"
  rs_sessionListeners :: "nat list"

definition NewRemoteService :: "server \<Rightarrow> remotes" where
  "NewRemoteService sv =
     \<lparr>rs_services = Map.empty, rs_subscribers = Map.empty, rs_remotes = Map.empty, rs_interceptors = Map.empty,
      rs_server = sv, rs_bindingListeners = [], rs_sessionListeners = []\<rparr>"

definition AddRemoteBindingListener :: "nat \<Rightarrow> remotes \<Rightarrow> remotes" where
  "AddRemoteBindingListener l rs = rs\<lparr>rs_bindingListeners := rs_bindingListeners rs @ [l]\<rparr>"

definition AddRemoteSessionListener :: "nat \<Rightarrow> remotes \<Rightarrow> remotes" where
  "AddRemoteSessionListener l rs = rs\<lparr>rs_sessionListeners := rs_sessionListeners rs @ [l]\<rparr>"

text \<open>
  The loop that registers the subscriptions. The flag \<open>fork\<close> is declared in front of the loop and is not reset, so it stays set once a method
  has set it. \<open>None\<close> is the panic on a server without a map of subscriptions.
\<close>

fun subscribe_loop :: "string \<Rightarrow> string list \<Rightarrow> bool \<Rightarrow> string list \<Rightarrow> server \<Rightarrow> server option" where
  "subscribe_loop sname forkMethods fork [] sv = Some sv"
| "subscribe_loop sname forkMethods fork (n # ns) sv =
     (let fork = (if \<not> fork then n \<in> set forkMethods else fork) in
      case AddSubscribe sname n fork sv of
        None \<Rightarrow> None
      | Some sv \<Rightarrow> subscribe_loop sname forkMethods fork ns sv)"

definition RemoteService_Register ::
  "impls \<Rightarrow> (string \<Rightarrow> bool) \<Rightarrow> comp_info \<Rightarrow> option_fn list \<Rightarrow> string list \<Rightarrow> string list \<Rightarrow> remotes \<Rightarrow> (remotes \<times> goerr option) option" where
  "RemoteService_Register impl upper c opts names names' rs =
     (let s = NewService c opts;
          sub = opt_Subscriber (svc_Options s) in
      if (if sub then rs_subscribers rs else rs_services rs) (svc_Name s) \<noteq> None
      then Some (rs, Some (ErrNew ''remote: service already defined''))
      else case ExtractRemote impl upper s of
        (s, Some e) \<Rightarrow> Some (rs, Some e)
      | (s, None) \<Rightarrow>
          let rs = (if sub then rs\<lparr>rs_subscribers := (rs_subscribers rs)(svc_Name s \<mapsto> s)\<rparr>
                    else rs\<lparr>rs_services := (rs_services rs)(svc_Name s \<mapsto> s)\<rparr>);
              rs = fold (\<lambda>n rs. rs\<lparr>rs_remotes := (rs_remotes rs)(svc_Name s @ ''.'' @ n \<mapsto> the (svc_Remotes s n))\<rparr>) names rs in
          if sub then
            let fork = (if opt_ForkMethods (svc_Options s) = [] then opt_ForkAll (svc_Options s) else False) in
            map_option (\<lambda>sv. (rs\<lparr>rs_server := sv\<rparr>, None))
              (subscribe_loop (svc_Name s) (opt_ForkMethods (svc_Options s)) fork names' (rs_server rs))
          else Some (rs, None))"

definition remote_RegisterInterceptor :: "string \<Rightarrow> nat \<Rightarrow> remotes \<Rightarrow> remotes" where
  "remote_RegisterInterceptor serviceName i rs = rs\<lparr>rs_interceptors := (rs_interceptors rs)(serviceName \<mapsto> i)\<rparr>"

section \<open>Asking every replica\<close>

lemma remoteCall_target [simp]: "remoteCall env (Some sv) ty rt q msg P = Some (rp_Call env ty rt q msg sv P)"
  by (simp add: remoteCall_def)

lemma length_remove_at [simp]: "i < length xs \<Longrightarrow> length (remove_at i xs) = length xs - 1"
  by (simp add: remove_at_def)

text \<open>Every goroutine is running, waiting to send, or has been received.\<close>

definition forked :: "('c, 's) forking \<Rightarrow> nat" where
  "forked F = length (fk_running F) + length (fk_sending F) + length (fk_resps F)"

lemma finish_call_forked:
  assumes "i < length (fk_running F)"
  shows "forked (finish_call env rt q msg i F) = forked F"
    and "length (fk_running (finish_call env rt q msg i F)) = length (fk_running F) - 1"
    and "length (fk_sending (finish_call env rt q msg i F)) = length (fk_sending F) + 1"
  using assms by (auto simp: finish_call_def forked_def split: prod.splits)

lemma receive_forked:
  assumes "j < length (fk_sending F)"
  shows "forked (receive j F) = forked F" and "length (fk_resps (receive j F)) = length (fk_resps F) + 1"
  using assms by (auto simp: receive_def forked_def)

lemma collect_returns:
  assumes "collect_loop env rt q msg need es F = Some F'"
    and "length (fk_resps F) = 0 \<or> int (length (fk_resps F)) < need"
  shows "forked F' = forked F \<and> int (length (fk_resps F')) = max 1 need"
  using assms
proof (induction env rt q msg need es F rule: collect_loop.induct)
  case (2 env rt q msg need i es F)
  show ?case
  proof (cases "i < length (fk_running F)")
    case True
    have "fk_resps (finish_call env rt q msg i F) = fk_resps F"
      by (simp add: finish_call_def split: prod.splits)
    then show ?thesis using 2 True finish_call_forked(1) [OF True, of env rt q msg] by simp
  qed (use 2 in simp)
next
  case (3 env rt q msg need j es F)
  show ?case
  proof (cases "j < length (fk_sending F)")
    case True
    note r = receive_forked [OF True]
    show ?thesis
    proof (cases "need \<le> int (length (fk_resps (receive j F)))")
      case ends: True
      then show ?thesis using 3(3,4) True r by auto
    next
      case False
      then show ?thesis using 3 True r by (simp add: Let_def)
    qed
  qed (use 3 in simp)
qed simp

text \<open>A loop that still waits can be driven to its end, as long as there are enough goroutines.\<close>

lemma collect_can_end:
  assumes "need \<le> int (forked F)" and "length (fk_running F) + length (fk_sending F) > 0"
  shows "\<exists>es. collect_loop env rt q msg need es F \<noteq> None"
  using assms
proof (induction "2 * length (fk_running F) + length (fk_sending F)" arbitrary: F rule: less_induct)
  case less
  show ?case
  proof (cases "fk_running F = []")
    case False
    let ?G = "finish_call env rt q msg 0 F"
    have i: "0 < length (fk_running F)" using False by simp
    note G = finish_call_forked [OF i, of env rt q msg]
    have "\<exists>es. collect_loop env rt q msg need es ?G \<noteq> None"
      by (rule less.hyps) (use G i less.prems in linarith)+
    then obtain es where "collect_loop env rt q msg need es ?G \<noteq> None" ..
    then have "collect_loop env rt q msg need (Finish 0 # es) F \<noteq> None" using i by simp
    then show ?thesis ..
  next
    case True
    let ?G = "receive 0 F"
    have j: "0 < length (fk_sending F)" using True less.prems by simp
    note G = receive_forked [OF j]
    show ?thesis
    proof (cases "need \<le> int (length (fk_resps ?G))")
      case True
      then have "collect_loop env rt q msg need [Receive 0] F \<noteq> None" using j by simp
      then show ?thesis ..
    next
      case False
      have rest: "length (fk_sending ?G) = length (fk_sending F) - 1" "fk_running ?G = []"
        using j True by (simp_all add: receive_def)
      have "length (fk_sending ?G) > 0" using False G less.prems(1) rest(2) by (auto simp: forked_def)
      then have "\<exists>es. collect_loop env rt q msg need es ?G \<noteq> None"
        by (intro less.hyps) (use G j rest True less.prems in auto)
      then obtain es where "collect_loop env rt q msg need es ?G \<noteq> None" ..
      then have "collect_loop env rt q msg need (Receive 0 # es) F \<noteq> None" using j False by simp
      then show ?thesis ..
    qed
  qed
qed

text \<open>So can one that has run for a while.\<close>

lemma collect_extends:
  assumes "need \<le> int (forked F)" and "length (fk_running F) + length (fk_sending F) > 0"
  shows "\<exists>es'. collect_loop env rt q msg need (es @ es') F \<noteq> None"
  using assms
proof (induction env rt q msg need es F rule: collect_loop.induct)
  case (1 env rt q msg need F)
  then show ?case using collect_can_end by simp
next
  case (2 env rt q msg need i es F)
  then show ?case using finish_call_forked [of i F env rt q msg] by (cases "i < length (fk_running F)") auto
next
  case (3 env rt q msg need j es F)
  show ?case
  proof (cases "j < length (fk_sending F) \<and> \<not> need \<le> int (length (fk_resps (receive j F)))")
    case True
    then have "0 < length (fk_running (receive j F)) + length (fk_sending (receive j F))"
      using receive_forked [of j F] 3(3) by (auto simp: forked_def)
    then show ?thesis using True 3 receive_forked [of j F] by (simp add: Let_def)
  next
    case False
    then show ?thesis using 3 by (cases "j < length (fk_sending F)") (auto simp: Let_def)
  qed
qed

lemma collect_none:
  "fk_running F = [] \<Longrightarrow> fk_sending F = [] \<Longrightarrow> collect_loop env rt q msg need es F = None"
  by (induction env rt q msg need es F rule: collect_loop.induct) auto

text \<open>The servers of a type are kept under their identifiers, and a range statement visits each once.\<close>

definition ranges :: "('h, 'c, 's) rpc_env \<Rightarrow> (string \<rightharpoonup> server) \<Rightarrow> bool" where
  "ranges env m \<longleftrightarrow> distinct (rp_order env m) \<and> set (rp_order env m) = dom m"

definition by_id :: "(string \<rightharpoonup> server) \<Rightarrow> bool" where
  "by_id m \<longleftrightarrow> (\<forall>k sv. m k = Some sv \<longrightarrow> sv_ID sv = k)"

lemma replica_ids:
  assumes "ranges env m" and "by_id m"
  shows "map sv_ID (replicas env m) = rp_order env m"
proof -
  have "sv_ID (the (m k)) = k" if "k \<in> set (rp_order env m)" for k
    using assms that by (auto simp: ranges_def by_id_def)
  then show ?thesis by (simp add: replicas_def map_idI)
qed

lemma distinct_filter_key: "distinct (map f xs) \<Longrightarrow> length (filter (\<lambda>x. y = f x) xs) \<le> 1"
proof (induction xs)
  case (Cons x xs)
  then have "filter (\<lambda>x. y = f x) xs = []" if "y = f x" using that by (auto simp: filter_empty_conv)
  then show ?case using Cons by auto
qed simp

lemma other_replicas_length:
  assumes "ranges env m" and "by_id m"
  shows "length (replicas env m) \<le> length (other_replicas env m) + 1"
proof -
  let ?me = "sv_ID (rp_server env)"
  have "distinct (map sv_ID (replicas env m))" using replica_ids [OF assms] assms(1) by (simp add: ranges_def)
  then have "length (filter (\<lambda>sv. ?me = sv_ID sv) (replicas env m)) \<le> 1" by (rule distinct_filter_key)
  then show ?thesis
    using sum_length_filter_compl [of "\<lambda>sv. ?me = sv_ID sv" "replicas env m"] by (simp add: other_replicas_def)
qed

text \<open>
  C27. Asking the replicas of a type for an answer returns exactly when there is another replica. With another one, whatever the
  goroutines have done so far, they can go on so that the call returns, and it returns with one response for each listed replica but one. When this
  server is the only replica the call never returns, whatever happens.
\<close>

theorem fork_request_returns:
  assumes "GetServersByType (SvType rt) (rp_sd env) = Inr m" and "ranges env m" and "by_id m"
  shows "(if other_replicas env m = [] then \<forall>es. DoForkRequest env es rt b q P = None
          else (\<forall>es. \<exists>es'. DoForkRequest env (es @ es') rt b q P \<noteq> None)) \<and>
    (\<forall>es P' resps err. DoForkRequest env es rt b q P = Some (P', resps, err) \<longrightarrow>
       int (length resps) = max 1 (int (card (dom m)) - 1))"
proof -
  let ?F = "\<lparr>fk_running = other_replicas env m, fk_sending = [], fk_resps = [], fk_err = None, fk_pool = P\<rparr>"
  let ?need = "int (length (replicas env m)) - 1"
  let ?msg = "user_message Request rt b"
  have call: "DoForkRequest env es rt b q P =
      map_option (\<lambda>F. (fk_pool F, fk_resps F, fk_err F)) (collect_loop env rt q ?msg ?need es ?F)" for es
    by (simp add: DoForkRequest_def assms(1))
  have card: "length (replicas env m) = card (dom m)"
    using assms(2) by (simp add: ranges_def replicas_def flip: distinct_card)
  have "?need \<le> int (forked ?F)" using other_replicas_length [OF assms(2,3)] by (simp add: forked_def)
  then have "\<exists>es'. collect_loop env rt q ?msg ?need (es @ es') ?F \<noteq> None" if "other_replicas env m \<noteq> []" for es
    using that by (intro collect_extends) simp_all
  moreover have "collect_loop env rt q ?msg ?need es ?F = None" if "other_replicas env m = []" for es
    using that by (intro collect_none) simp_all
  moreover have "int (length (fk_resps F')) = max 1 ?need" if "collect_loop env rt q ?msg ?need es ?F = Some F'" for es F'
    using collect_returns [OF that] by simp
  ultimately show ?thesis by (auto simp: call card)
qed

text \<open>A server of type game, alone and with a second replica.\<close>

definition rpc_example :: "(string \<rightharpoonup> server) \<Rightarrow> string list \<Rightarrow> (string list, (server \<times> message) list, nat) rpc_env" where
  "rpc_example m ks =
     (let sd = sd_start\<lparr>serverMapByType := [''game'' \<mapsto> m], serverMapByID := m\<rparr> in
      \<lparr>rp_server = game_server, rp_sd = sd, rp_router = etcd_router sd_example sd Map.empty, rp_keys = (\<lambda>_. ks),
       rp_pick = (\<lambda>_. 0), rp_order = (\<lambda>_. ks),
       rp_Call = (\<lambda>ty rt q msg sv P. (P\<lparr>storage := storage P @ [(sv, msg)]\<rparr>, Inr \<lparr>resp_Data = [1], resp_Status = None\<rparr>)),
       rp_Fork = (\<lambda>rt q msg P. (P, None)), rp_Marshal = (\<lambda>m. Inr [7]), rp_Unmarshal = (\<lambda>b. Inl ErrWrongValueType),
       rp_FromError = (\<lambda>e. e), rp_FromStatus = (\<lambda>_. ErrWrongValueType)\<rparr>)"

definition game_server2 :: server where
  "game_server2 = NewServer ''host'' ''g2'' ''game'' False []"

lemma game_ids [simp]: "sv_ID game_server = ''g1''" "sv_ID game_server2 = ''g2''"
  "sv_Type game_server = ''game''" "sv_Type game_server2 = ''game''"
  by (simp_all add: game_server_def game_server2_def NewServer_def)

lemma rpc_example_simps [simp]:
  "rp_server (rpc_example m ks) = game_server" "rp_order (rpc_example m ks) x = ks"
  "m \<noteq> Map.empty \<Longrightarrow> GetServersByType ''game'' (rp_sd (rpc_example m ks)) = Inr m"
  by (simp_all add: rpc_example_def GetServersByType_def Let_def)

lemma fork_request_returns_witness:
  "(\<forall>es. DoForkRequest (rpc_example [''g1'' \<mapsto> game_server] [''g1'']) es (NewRoute ''game'' ''room'' ''join'') [] None
      (NewSessionPool []) = None) \<and>
   (\<exists>es. DoForkRequest (rpc_example [''g1'' \<mapsto> game_server, ''g2'' \<mapsto> game_server2] [''g1'', ''g2'']) es
      (NewRoute ''game'' ''room'' ''join'') [] None (NewSessionPool []) \<noteq> None)"
proof -
  let ?rt = "NewRoute ''game'' ''room'' ''join''"
  define m where "m = [''g1'' \<mapsto> game_server, ''g2'' \<mapsto> game_server2]"
  define e1 where "e1 = rpc_example [''g1'' \<mapsto> game_server] [''g1'']"
  define e2 where "e2 = rpc_example m [''g1'', ''g2'']"
  have 1: "GetServersByType (SvType ?rt) (rp_sd e1) = Inr [''g1'' \<mapsto> game_server]" "ranges e1 [''g1'' \<mapsto> game_server]"
    "by_id [''g1'' \<mapsto> game_server]" "other_replicas e1 [''g1'' \<mapsto> game_server] = []"
    by (simp_all add: e1_def NewRoute_def ranges_def by_id_def other_replicas_def replicas_def)
  have 2: "GetServersByType (SvType ?rt) (rp_sd e2) = Inr m" "ranges e2 m" "by_id m" "other_replicas e2 m \<noteq> []"
    by (auto simp: e2_def m_def NewRoute_def ranges_def by_id_def other_replicas_def replicas_def split: if_splits)
  show ?thesis
    using fork_request_returns [OF 1(1-3), of "[]" None "NewSessionPool []"] 1(4)
      fork_request_returns [OF 2(1-3), of "[]" None "NewSessionPool []"] 2(4)
    unfolding e1_def [symmetric] m_def [symmetric] e2_def [symmetric] by (metis append_Nil)
qed

text \<open>A request that is published never returns when a subscriber forks and its fork never returns.\<close>

lemma remove_at_keeps: "x \<in> set xs \<Longrightarrow> i < length xs \<Longrightarrow> x \<noteq> xs ! i \<Longrightarrow> x \<in> set (remove_at i xs)"
proof -
  assume "x \<in> set xs" "i < length xs" "x \<noteq> xs ! i"
  moreover from this(2) have "set xs = set (take i xs @ xs ! i # drop (Suc i) xs)" by (simp add: id_take_nth_drop [symmetric])
  ultimately show ?thesis by (auto simp: remove_at_def)
qed

lemma publish_request_hangs:
  assumes "sv \<in> set (type_servers env)" and "GetSubscribe (Service ro) (Method ro) sv = Some True"
    and "\<And>es P. DoForkRequest env es (NewRoute (sv_Type sv) (Service ro) (Method ro)) b q P = None"
  shows "DoPublishRequest env es ro b q P = None"
proof -
  have stuck: "(sv, True) \<in> set (pb_waiting (publish_step env ro b q e B))" if "(sv, True) \<in> set (pb_waiting B)" for e B
  proof (cases e)
    case (Work i es)
    have "publish_task env es ro b q (sv, True) P = None" for P by (simp add: publish_task_def assms(3))
    then show ?thesis using that Work
      by (cases "pb_waiting B ! i = (sv, True)") (auto split: option.splits intro: remove_at_keeps)
  next
    case (Deliver j)
    then show ?thesis using that by (auto split: list.splits)
  qed
  have "(sv, True) \<in> set (pb_waiting (fold (publish_step env ro b q) es B))" if "(sv, True) \<in> set (pb_waiting B)" for B
    using that by (induction es arbitrary: B) (auto dest: stuck)
  moreover have "(sv, True) \<in> set (subscribers_of env ro)"
    using assms(1,2) by (auto simp: subscribers_of_def List.map_filter_def intro!: image_eqI [where x = sv])
  ultimately have "(sv, True) \<in> set (pb_waiting (fold (publish_step env ro b q) es
      \<lparr>pb_waiting = subscribers_of env ro, pb_sending = [], pb_resps = [], pb_err = None, pb_pool = P\<rparr>))" by simp
  then show ?thesis by (auto simp: DoPublishRequest_def Let_def)
qed

section \<open>Subscriptions\<close>

lemma GetSubscribe_Add:
  assumes "AddSubscribe s n f sv = Some sv'"
  shows "GetSubscribe s k sv' = (if k = n then Some f else GetSubscribe s k sv)"
  using assms by (auto simp: AddSubscribe_def GetSubscribe_def map_set_def split: option.splits)

lemma subscribe_other:
  assumes "subscribe_loop s fm fork ns sv = Some sv'" and "n \<notin> set ns"
  shows "GetSubscribe s n sv' = GetSubscribe s n sv"
  using assms
proof (induction ns arbitrary: fork sv)
  case (Cons x xs)
  let ?f = "if \<not> fork then x \<in> set fm else fork"
  from Cons(2) obtain sv1 where 1: "AddSubscribe s x ?f sv = Some sv1" "subscribe_loop s fm ?f xs sv1 = Some sv'"
    by (auto simp: Let_def split: option.splits)
  show ?case using Cons(1) [OF 1(2)] Cons(3) GetSubscribe_Add [OF 1(1), of n] by simp
qed simp

lemma subscribe_fork:
  assumes "subscribe_loop s fm fork (xs @ n # ys) sv = Some sv'" and "n \<notin> set ys"
  shows "GetSubscribe s n sv' = Some (fork \<or> set (xs @ [n]) \<inter> set fm \<noteq> {})"
  using assms
proof (induction xs arbitrary: fork sv)
  case Nil
  let ?f = "if \<not> fork then n \<in> set fm else fork"
  from Nil(1) obtain sv1 where 1: "AddSubscribe s n ?f sv = Some sv1" "subscribe_loop s fm ?f ys sv1 = Some sv'"
    by (auto simp: Let_def split: option.splits)
  have "GetSubscribe s n sv1 = Some ?f" using GetSubscribe_Add [OF 1(1), of n] by simp
  then show ?case using subscribe_other [OF 1(2) Nil(2)] by auto
next
  case (Cons x xs)
  let ?f = "if \<not> fork then x \<in> set fm else fork"
  from Cons(2) obtain sv1 where 1: "subscribe_loop s fm ?f (xs @ n # ys) sv1 = Some sv'"
    by (auto simp: Let_def split: option.splits)
  show ?case using Cons(1) [OF 1 Cons(3)] by auto
qed

text \<open>
  Whether a subscription forks depends on the order in which Go visits a map. For a subscriber that lists its forking methods, a
  method is announced as forking when it, or any method visited before it, is listed, because the flag is not reset between
  the methods.
\<close>

theorem register_fork_sticky:
  assumes "RemoteService_Register impl upper c opts names (xs @ n # ys) rs = Some (rs', None)" and "n \<notin> set ys"
    and "opt_Subscriber (apply_options opts zero_options)" and "opt_ForkMethods (apply_options opts zero_options) \<noteq> []"
  shows "GetSubscribe (svc_Name (NewService c opts)) n (rs_server rs') =
    Some (set (xs @ [n]) \<inter> set (opt_ForkMethods (apply_options opts zero_options)) \<noteq> {})"
proof -
  let ?s = "NewService c opts"
  have s: "svc_Options ?s = apply_options opts zero_options" by (simp add: NewService_def Let_def)
  obtain t where t: "ExtractRemote impl upper ?s = (t, None)"
    using assms(1) by (auto simp: RemoteService_Register_def Let_def split: if_splits prod.splits option.splits)
  have same: "svc_Name t = svc_Name ?s" "svc_Options t = svc_Options ?s"
    using t by (auto simp: ExtractRemote_def Let_def split: if_splits)
  obtain sv where "subscribe_loop (svc_Name ?s) (opt_ForkMethods (svc_Options ?s)) False (xs @ n # ys) sv = Some (rs_server rs')"
    using assms(1,3,4) t same s by (auto simp: RemoteService_Register_def Let_def split: if_splits)
  from subscribe_fork [OF this assms(2)] show ?thesis by (simp add: s)
qed

text \<open>A component with two methods, of which the second is to fork.\<close>

definition topic_method :: "string \<Rightarrow> rmethod" where
  "topic_method n = \<lparr>m_Name = n, m_PkgPath = [], m_In = [TPtr (TNamed ''Topic''), TContext],
     m_Out = [TPtr (TNamed ''Ack''), TError], m_Func = 1\<rparr>"

definition topic_comp :: comp_info where
  "topic_comp = \<lparr>comp_Type = TPtr (TNamed ''Topic''), comp_TypeName = ''Topic'',
     comp_Methods = [topic_method ''A'', topic_method ''B''], comp_PtrMethods = [], comp_Value = 3\<rparr>"

definition topic_opts :: "option_fn list" where
  "topic_opts = [\<lambda>opt. opt\<lparr>opt_Subscriber := True, opt_ForkMethods := [''B'']\<rparr>]"

definition topic_registered :: "string list \<Rightarrow> (remotes \<times> goerr option) option" where
  "topic_registered ns = RemoteService_Register (\<lambda>t u. True) (\<lambda>_. False) topic_comp topic_opts [''A'', ''B''] ns
     (NewRemoteService game_server)"

lemma topic_options:
  "opt_Subscriber (apply_options topic_opts zero_options)" "opt_ForkMethods (apply_options topic_opts zero_options) = [''B'']"
  "opt_nameFunc (apply_options topic_opts zero_options) = None" "svc_Name (NewService topic_comp topic_opts) = ''Topic''"
  by (simp_all add: topic_opts_def apply_options_def zero_options_def NewService_def topic_comp_def Let_def)

lemma topic_extract: "\<exists>t. ExtractRemote (\<lambda>t u. True) (\<lambda>_. False) (NewService topic_comp topic_opts) = (t, None) \<and>
    svc_Name t = ''Topic'' \<and> svc_Options t = apply_options topic_opts zero_options"
  using topic_options
  by (simp add: ExtractRemote_def NewService_def Let_def topic_comp_def isExported_def suitableRemoteMethods_def isRemoteMethod_def
      topic_method_def renamed_def)

lemma topic_registers: "ns \<noteq> [] \<Longrightarrow> \<exists>rs. topic_registered ns = Some (rs, None)"
proof -
  have sub: "\<exists>sv'. subscribe_loop s fm fork ns sv = Some sv'" if "sv_Subscribe sv \<noteq> None" for s fm fork and sv :: server
    using that by (induction ns arbitrary: fork sv) (auto simp: Let_def AddSubscribe_def map_set_def split: option.splits)
  have "sv_Subscribe game_server \<noteq> None" by (simp add: game_server_def NewServer_def)
  then show ?thesis
    using sub [of game_server] topic_extract topic_options
    by (auto simp: topic_registered_def NewRemoteService_def RemoteService_Register_def Let_def NewService_def)
qed

lemma register_fork_sticky_witness:
  "\<exists>r1 r2. topic_registered [''A'', ''B''] = Some (r1, None) \<and> topic_registered [''B'', ''A''] = Some (r2, None) \<and>
     GetSubscribe ''Topic'' ''A'' (rs_server r1) = Some False \<and> GetSubscribe ''Topic'' ''A'' (rs_server r2) = Some True"
proof -
  obtain r1 r2 where r: "topic_registered [''A'', ''B''] = Some (r1, None)" "topic_registered [''B'', ''A''] = Some (r2, None)"
    using topic_registers by blast
  have "GetSubscribe (svc_Name (NewService topic_comp topic_opts)) ''A'' (rs_server r1) =
      Some (set ([] @ [''A'']) \<inter> set (opt_ForkMethods (apply_options topic_opts zero_options)) \<noteq> {})"
    by (rule register_fork_sticky [where ys = "[''B'']"]) (use r(1) topic_options in \<open>simp_all add: topic_registered_def\<close>)
  moreover have "GetSubscribe (svc_Name (NewService topic_comp topic_opts)) ''A'' (rs_server r2) =
      Some (set ([''B''] @ [''A'']) \<inter> set (opt_ForkMethods (apply_options topic_opts zero_options)) \<noteq> {})"
    by (rule register_fork_sticky [where ys = "[]"]) (use r(2) topic_options in \<open>simp_all add: topic_registered_def\<close>)
  ultimately show ?thesis using r topic_options by simp
qed

section \<open>Notifying all servers\<close>

text \<open>A client that keeps a log of its calls in the world.\<close>

definition logs :: "('h, (server \<times> message) list, 's) rpc_env \<Rightarrow> bool" where
  "logs env \<longleftrightarrow> (\<forall>ty rt q msg sv P. storage (fst (rp_Call env ty rt q msg sv P)) = storage P @ [(sv, msg)])"

text \<open>The router answers for a type with a server of it.\<close>

definition routes_type :: "('h, 'c, 's) rpc_env \<Rightarrow> route \<Rightarrow> string \<Rightarrow> bool" where
  "routes_type env ro ty \<longleftrightarrow>
     route_ok (NewRoute ty (Service ro) (Method ro)) \<and> ty \<noteq> [] \<and>
     (\<forall>payload. \<exists>sv. sv_Type sv = ty \<and>
        router_Route (rp_router env) (rp_keys env ty) (rp_pick env ty) ty (NewRoute ty (Service ro) (Method ro)) payload None
          = Some (Inr sv))"

lemma notify_one:
  assumes "logs env" and "routes_type env ro ty"
  shows "\<exists>P' sv e. DoNotify env [] (NewRoute ty (Service ro) (Method ro)) b None P = Some (P', e) \<and> sv_Type sv = ty \<and>
    storage P' = storage P @ [(sv, user_message Notify ro b)]"
proof -
  let ?rt = "NewRoute ty (Service ro) (Method ro)"
  let ?msg = "user_message Notify ?rt b"
  obtain sv where sv: "sv_Type sv = ty"
    "router_Route (rp_router env) (rp_keys env ty) (rp_pick env ty) ty ?rt (msg_Data ?msg) None = Some (Inr sv)"
    using assms(2) unfolding routes_type_def by blast
  obtain P' r where call: "rp_Call env RPCType_User ?rt None ?msg sv P = (P', r)" by fastforce
  have "SvType ?rt = ty" by (simp add: NewRoute_def)
  then have "DoNotify env [] ?rt b None P = Some (P', error_of r)"
    using sv(2) call by (simp add: DoNotify_def remoteCall_def Let_def)
  moreover have "storage (fst (rp_Call env RPCType_User ?rt None ?msg sv P)) = storage P @ [(sv, ?msg)]"
    using assms(1) unfolding logs_def by blast
  then have "storage P' = storage P @ [(sv, ?msg)]" by (simp only: call fst_conv)
  moreover have "?msg = user_message Notify ro b" by (simp add: user_message_def RouteShort_def NewRoute_def)
  ultimately show ?thesis using sv(1) by auto
qed

lemma notify_loop_log:
  assumes "logs env" and "\<And>sv. sv \<in> set svs \<Longrightarrow> routes_type env ro (sv_Type sv)"
  shows "\<exists>P' log. notify_loop env ro b None svs P = Some (P', None) \<and> storage P' = storage P @ log \<and>
    map (\<lambda>x. sv_Type (fst x)) log = filter (\<lambda>ty. ty \<noteq> sv_Type (rp_server env)) (map sv_Type svs) \<and>
    snd ` set log \<subseteq> {user_message Notify ro b}"
  using assms(2)
proof (induction svs arbitrary: P)
  case (Cons sv svs)
  let ?rt = "NewRoute (sv_Type sv) (Service ro) (Method ro)"
  show ?case
  proof (cases "sv_Type sv = sv_Type (rp_server env)")
    case True
    then show ?thesis using Cons.IH [of P] Cons.prems by simp
  next
    case False
    have ok: "routes_type env ro (sv_Type sv)" using Cons.prems by simp
    then have "RouteDecode (RouteString ?rt) = Inr ?rt" by (intro RouteDecode_String) (simp add: routes_type_def)
    moreover have "RouteString ?rt = sv_Type sv @ ''.'' @ RouteShort ro"
      using ok by (simp add: RouteString_def RouteShort_def NewRoute_def routes_type_def)
    ultimately have dec: "RouteDecode (sv_Type sv @ ''.'' @ RouteShort ro) = Inr ?rt" by simp
    obtain Q t e where one: "DoNotify env [] ?rt b None P = Some (Q, e)" "sv_Type t = sv_Type sv"
      "storage Q = storage P @ [(t, user_message Notify ro b)]"
      using notify_one [OF assms(1) ok] by blast
    obtain P' log where rest: "notify_loop env ro b None svs Q = Some (P', None)" "storage P' = storage Q @ log"
      "map (\<lambda>x. sv_Type (fst x)) log = filter (\<lambda>ty. ty \<noteq> sv_Type (rp_server env)) (map sv_Type svs)"
      "snd ` set log \<subseteq> {user_message Notify ro b}"
      using Cons.IH [of Q] Cons.prems by auto
    have "notify_loop env ro b None (sv # svs) P = Some (P', None)"
      unfolding notify_loop.simps dec sum.case one(1) using False rest(1) by (simp add: unbound_sticky_def)
    then show ?thesis
      using False one rest by (intro exI [of _ P'] exI [of _ "(t, user_message Notify ro b) # log"]) simp
  qed
qed simp


definition notify_example :: "(string list, (server \<times> message) list, nat) rpc_env" where
  "notify_example =
     (let sd = sd_start\<lparr>serverMapByType := [''game'' \<mapsto> [''g1'' \<mapsto> game_server], ''connector'' \<mapsto> [''f1'' \<mapsto> front_server]],
                serverMapByID := [''g1'' \<mapsto> game_server, ''f1'' \<mapsto> front_server]\<rparr> in
      (rpc_example Map.empty [])\<lparr>rp_sd := sd, rp_router := etcd_router sd_example sd Map.empty,
        rp_keys := (\<lambda>ty. if ty = ''game'' then [''g1''] else [''f1'']),
        rp_order := (\<lambda>m. if m ''g1'' \<noteq> None then [''g1''] else if m ''f1'' \<noteq> None then [''f1''] else [''connector'', ''game''])\<rparr>)"

lemma notify_example_types:
  "GetServerTypes (rp_order notify_example) (rp_sd notify_example) = [''game'' \<mapsto> game_server, ''connector'' \<mapsto> front_server]"
  by (auto simp: notify_example_def rpc_example_def GetServerTypes_def Let_def fun_eq_iff)

lemma notify_example_routes:
  assumes "ty = ''game'' \<and> sv = game_server \<or> ty = ''connector'' \<and> sv = front_server"
  shows "sv_Type sv = ty \<and> routes_type notify_example (NewRoute [] ''room'' ''join'') ty"
proof -
  have front: "sv_Type front_server = ''connector''" by (simp add: front_server_def NewServer_def)
  have "route_ok (NewRoute ty ''room'' ''join'')"
    using assms by (auto simp: route_ok_def NewRoute_def intro!: field_ok_letters simp: letters_def)
  moreover have "router_Route (rp_router notify_example) (rp_keys notify_example ty) (rp_pick notify_example ty) ty rt pl None
      = Some (Inr sv)" for rt pl
    using assms by (auto simp: notify_example_def rpc_example_def Let_def router_Route_def etcd_router_def GetServersByType_def
        defaultRoute_def index_def)
  ultimately show ?thesis using assms front by (auto simp: routes_type_def NewRoute_def)
qed


end
