(* ===== verification/Remote_Server.thy ===== *)
theory Remote_Server
  imports Remote_Service
begin

text \<open>
  The receiving side of the remote service: the agent of a remote session (\<open>agent/agent_remote.go\<close>) and the handling of the calls of
  other servers (\<open>service/remote.go\<close>), with the forwarding of a client's message to another server, \<open>remoteProcess\<close>.
\<close>

section \<open>Requests\<close>

text \<open>The protobuf messages of a call. The getters of a missing message answer with zero values, so its fields are
  those of the request; \<open>rq_hasMsg\<close> tells whether it is there.\<close>

record proto_session =
  ps_Id :: i64
  ps_Uid :: string
  ps_Data :: "byte list"
  ps_Backends :: "string gomap"
  ps_Ip :: string

record request =
  rq_Type :: nat
  rq_Session :: "proto_session option"
  rq_FrontendID :: string
  rq_Route :: string
  rq_Data :: "byte list"
  rq_MsgType :: nat
  rq_Reply :: string
  rq_Id :: u64
  rq_Metadata :: "byte list"
  rq_hasMsg :: bool

text \<open>
  \<open>rm_proto_Marshal\<close> is protobuf, \<open>rm_Status\<close> the status of \<open>apierrors.FromError\<close>, \<open>rm_status\<close> a status with code, message and route, \<open>rm_FromStatus\<close>
  its error and \<open>rm_Error\<close> the text of an error; \<open>rm_compress\<close>, \<open>rm_zlib\<close> and \<open>rm_dict\<close> belong to the message encoder, \<open>rm_Marshal_Response\<close>
  encodes a response with data only and \<open>rm_listen\<close> runs a listener. \<open>rm_Send\<close> and \<open>rm_SendPush\<close> are the RPC client, which is the one on NATS when \<open>rm_nats\<close> holds.
\<close>

record ('c, 's, 'v) remote_env =
  rm_handler :: "('v, 'c pool) handler_env"
  rm_remoteHooks :: "('v, 'c pool) hooks"
  rm_handlerHooks :: "('v, 'c pool) hooks"
  rm_handlers :: handler_pool
  rm_json :: json
  rm_self :: server
  rm_proto_Marshal :: "'v iface \<Rightarrow> byte list res"
  rm_Status :: "goerr \<Rightarrow> 's"
  rm_status :: "nat \<Rightarrow> string \<Rightarrow> string \<Rightarrow> 's"
  rm_FromStatus :: "'s \<Rightarrow> goerr"
  rm_Error :: "goerr \<Rightarrow> string"
  rm_compress :: bool
  rm_zlib :: "byte list zlib"
  rm_dict :: dictionary
  rm_Marshal_Response :: "byte list \<Rightarrow> byte list res"
  rm_listen :: "nat \<Rightarrow> listener_call \<Rightarrow> 'c pool \<Rightarrow> 'c pool"
  rm_nats :: bool
  rm_Send :: "string \<Rightarrow> byte list \<Rightarrow> 'c pool \<Rightarrow> 'c pool \<times> goerr option"
  rm_SendPush :: "string \<Rightarrow> server \<Rightarrow> string \<times> string \<times> byte list \<Rightarrow> 'c pool \<Rightarrow> 'c pool \<times> goerr option"

section \<open>The remote agent\<close>

record remote_agent =
  ra_Session :: nat
  ra_frontendID :: string
  ra_reply :: string

text \<open>
  \<open>now\<close> is the time and \<open>ent\<close> names the agent as the entity of a new session. \<open>None\<close> is the nil dereference of \<open>sess.Ip\<close>
  on a backend that got no session.
\<close>

definition NewRemote ::
  "('c, 's, 'v) remote_env \<Rightarrow> i64 \<Rightarrow> nat \<Rightarrow> proto_session option \<Rightarrow> string \<Rightarrow> string \<Rightarrow> 'c pool
     \<Rightarrow> ('c pool \<times> remote_agent res) option" where
  "NewRemote env now ent sess reply fid P =
     (case NewSession now ent False [case sess of None \<Rightarrow> [] | Some s \<Rightarrow> ps_Uid s] P of
        (q, isNew, P) \<Rightarrow>
          let a = \<lparr>ra_Session = q, ra_frontendID = fid, ra_reply = reply\<rparr> in
          if sv_Frontend (rm_self env) then Some (P, Inr a)
          else case sess of
            None \<Rightarrow> None
          | Some s \<Rightarrow>
              let P = upd q (SetIP (ps_Ip s)) P;
                  r = SetDataEncoded (rm_json env) (ps_Data s) (heap P q);
                  P = upd q (\<lambda>_. fst r) P in
              (case snd r of
                 Some e \<Rightarrow> Some (P, Inl e)
               | None \<Rightarrow>
                   let P = (if isNew then upd q (SetBackends (ps_Backends s)) (upd q (SetFrontendData fid (ps_Id s)) P)
                            else P)
                   in Some (P, Inr a)))"

abbreviation (input) CloseReasonKickManual :: i64 where "CloseReasonKickManual \<equiv> 102"
abbreviation KickRoute :: string where "KickRoute \<equiv> ''sys.kick''"

definition remote_SendRequest ::
  "('h, 'c, 's) rpc_env \<Rightarrow> ('c, 's, 'v) remote_env \<Rightarrow> string \<Rightarrow> string \<Rightarrow> 'v iface \<Rightarrow> 'c pool \<Rightarrow> 'c pool \<times> 's rpc_response res" where
  "remote_SendRequest rpc env serverID reqRoute v P =
     (case RouteDecode reqRoute of
        Inl e \<Rightarrow> (P, Inl e)
      | Inr r \<Rightarrow>
          (case SerializeOrRaw (rm_handler env) v of
             Inl e \<Rightarrow> (P, Inl e)
           | Inr payload \<Rightarrow>
               (case GetServer serverID (rp_sd rpc) of
                  Inl e \<Rightarrow> (P, Inl e)
                | Inr sv \<Rightarrow>
                    rp_Call rpc RPCType_User r None ((NewMessage [])\<lparr>msg_Route := reqRoute, msg_Data := payload\<rparr>) sv P)))"

definition remote_Kick ::
  "('h, 'c, 's) rpc_env \<Rightarrow> ('c, 's, 'v) remote_env \<Rightarrow> remote_agent \<Rightarrow> i64 list \<Rightarrow> 'c pool \<Rightarrow> 'c pool \<times> goerr option" where
  "remote_Kick rpc env a reason P =
     (let u = uid (heap P (ra_Session a)) in
      if u = [] then (P, Some ErrNoUIDBind)
      else
        let rea = (case reason of [] \<Rightarrow> CloseReasonKickManual | r # _ \<Rightarrow> r) in
        case rp_Marshal rpc (KickMsg u None (scast (ucast rea :: 32 word))) of
          Inl e \<Rightarrow> (P, Some e)
        | Inr b \<Rightarrow> (case remote_SendRequest rpc env (ra_frontendID a) KickRoute (BytesV b) P of (P, r) \<Rightarrow> (P, error_of r)))"

definition remote_Push ::
  "('h, 'c, 's) rpc_env \<Rightarrow> ('c, 's, 'v) remote_env \<Rightarrow> remote_agent \<Rightarrow> string \<Rightarrow> 'v iface \<Rightarrow> 'c pool \<Rightarrow> 'c pool \<times> goerr option" where
  "remote_Push rpc env a rt v P =
     (let u = uid (heap P (ra_Session a)) in
      if rm_nats env \<and> u = [] then (P, Some ErrNoUIDBind)
      else case GetServer (ra_frontendID a) (rp_sd rpc) of
             Inl e \<Rightarrow> (P, Some e)
           | Inr sv \<Rightarrow>
               (case SerializeOrRaw (rm_handler env) v of
                  Inl e \<Rightarrow> (P, Some e)
                | Inr payload \<Rightarrow> rm_SendPush env u sv (rt, u, payload) P))"

definition remote_serialize :: "('c, 's, 'v) remote_env \<Rightarrow> 'v pending_message \<Rightarrow> byte list res" where
  "remote_serialize env m =
     (case SerializeOrRaw (rm_handler env) (pm_payload m) of
        Inl e \<Rightarrow> Inl e
      | Inr payload \<Rightarrow>
          (case MessageEncode (rm_compress env) (rm_zlib env) (rm_dict env)
                  \<lparr>msg_Type = pm_typ m, msg_ID = pm_mid m, msg_Route = pm_route m, msg_Data = payload, msg_compressed = False,
                   msg_Err = pm_err m\<rparr> of
             Inl e \<Rightarrow> Inl e
           | Inr (em, _) \<Rightarrow> PacketEncode DataPacket em))"

definition remote_send ::
  "('c, 's, 'v) remote_env \<Rightarrow> 'v pending_message \<Rightarrow> string \<Rightarrow> 'c pool \<Rightarrow> 'c pool \<times> goerr option" where
  "remote_send env m to P =
     (case and_then (remote_serialize env m) (rm_Marshal_Response env) of
        Inl e \<Rightarrow> (P, Some e)
      | Inr bt \<Rightarrow> rm_Send env to bt P)"

definition remote_ResponseMID ::
  "('c, 's, 'v) remote_env \<Rightarrow> remote_agent \<Rightarrow> u64 \<Rightarrow> 'v iface \<Rightarrow> bool list \<Rightarrow> 'c pool \<Rightarrow> 'c pool \<times> goerr option" where
  "remote_ResponseMID env a mid v isError P =
     (if mid = 0 then (P, Some ErrSessionOnNotify)
      else remote_send env
             \<lparr>pm_typ = Response, pm_route = [], pm_mid = mid, pm_payload = v,
              pm_err = (case isError of [] \<Rightarrow> False | e # _ \<Rightarrow> e)\<rparr> (ra_reply a) P)"

section \<open>Handling a call\<close>

abbreviation StatusBadRequest :: nat where "StatusBadRequest \<equiv> 400"
abbreviation StatusNotFound :: nat where "StatusNotFound \<equiv> 404"

definition failed :: "'s \<Rightarrow> 's rpc_response" where
  "failed st = \<lparr>resp_Data = [], resp_Status = Some st\<rparr>"

definition answered :: "byte list \<Rightarrow> 's rpc_response" where
  "answered b = \<lparr>resp_Data = b, resp_Status = None\<rparr>"

text \<open>The end of both branches of \<open>handleRPCUser\<close>: the value returned is a protobuf message or nil.\<close>

definition reply_response :: "('c, 's, 'v) remote_env \<Rightarrow> 'v iface \<Rightarrow> 's rpc_response" where
  "reply_response env ret =
     (case typeOf ret of
        None \<Rightarrow> answered []
      | Some t \<Rightarrow>
          if \<not> he_impl (rm_handler env) t TProtoMsg then failed (rm_Status env ErrWrongValueType)
          else case rm_proto_Marshal env ret of Inl e \<Rightarrow> failed (rm_Status env e) | Inr b \<Rightarrow> answered b)"

text \<open>The session of a call and the context with it; the response is that of a session that cannot be made.\<close>

definition request_session ::
  "('c, 's, 'v) remote_env \<Rightarrow> i64 \<Rightarrow> nat \<Rightarrow> request \<Rightarrow> route \<Rightarrow> hctx \<Rightarrow> 'c pool
     \<Rightarrow> ('c pool \<times> ('s rpc_response + hctx)) option" where
  "request_session env now ent req rt ctx P =
     (case rq_Session req of
        None \<Rightarrow> Some (P, Inr ctx)
      | Some s \<Rightarrow>
          (case NewRemote env now ent (Some s) [] (rq_FrontendID req) P of
             None \<Rightarrow> None
           | Some (P, Inl e) \<Rightarrow> Some (P, Inl (failed (rm_Status env e)))
           | Some (P, Inr a) \<Rightarrow>
               Some (P, Inr (CtxWithDefaultLogger (RouteString rt) (uid (heap P (ra_Session a)))
                               (ctx\<lparr>hc_session := Some (ra_Session a)\<rparr>)))))"

definition call_remote ::
  "('c, 's, 'v) remote_env \<Rightarrow> remote \<Rightarrow> nat option \<Rightarrow> hctx \<Rightarrow> route \<Rightarrow> byte list \<Rightarrow> 'c pool \<Rightarrow> ('c pool \<times> 's rpc_response) option" where
  "call_remote env r receiver ctx rt payload P =
     (case (if r_HasArgs r then unmarshalRemoteArg (rm_handler env) r payload else Some (Inr NilV)) of
        None \<Rightarrow> None
      | Some (Inl e) \<Rightarrow> Some (P, failed (rm_status env StatusNotFound (rm_Error env e) (RouteShort rt)))
      | Some (Inr arg) \<Rightarrow> Some
          (case ExecuteBeforePipeline (BeforeHandler (rm_remoteHooks env)) ctx rt arg P of
             (P, ctx, arg, Some e) \<Rightarrow> (P, failed (rm_Status env e))
           | (P, ctx, arg, None) \<Rightarrow>
               (case run_handler (rm_handler env) (r_Method r) (opt_TaskGoProvider (r_Options r))
                       (\<lambda>ctx. [VRecv receiver, VCtx ctx] @ (if r_HasArgs r then [VArg arg] else [])) ctx P of
                  (P, ret, err) \<Rightarrow>
                    (case ExecuteAfterPipeline (AfterHandler (rm_remoteHooks env)) ctx rt arg ret err P of
                       (P, ret, Some e) \<Rightarrow> (P, failed (rm_Status env e))
                     | (P, ret, None) \<Rightarrow> (P, reply_response env ret)))))"

definition handleRPCUser ::
  "('c, 's, 'v) remote_env \<Rightarrow> remotes \<Rightarrow> i64 \<Rightarrow> nat \<Rightarrow> hctx \<Rightarrow> request \<Rightarrow> route \<Rightarrow> 'c pool \<Rightarrow> ('c pool \<times> 's rpc_response) option" where
  "handleRPCUser env rs now ent ctx req rt P =
     (case rs_interceptors rs (Service rt) of
        Some i \<Rightarrow>
          (case request_session env now ent req rt ctx P of
             None \<Rightarrow> None
           | Some (P, Inl res) \<Rightarrow> Some (P, res)
           | Some (P, Inr ctx) \<Rightarrow> Some
               (case he_intercept (rm_handler env) i ctx rt (rq_Data req) P of
                  (P, ret, Some e) \<Rightarrow> (P, failed (rm_Status env e))
                | (P, ret, None) \<Rightarrow> (P, reply_response env ret)))
      | None \<Rightarrow>
          (case rs_remotes rs (RouteShort rt) of
             None \<Rightarrow> Some (P, failed (rm_status env StatusNotFound ''route not found'' (RouteShort rt)))
           | Some r \<Rightarrow>
               (case receiver_of (rm_handler env) (r_Receiver r) (r_Options r) ctx of
                  None \<Rightarrow> Some (P, failed (rm_status env StatusNotFound ''route not found,ReceiverProvider return nil'' (RouteShort rt)))
                | Some receiver \<Rightarrow>
                    (case request_session env now ent req rt ctx P of
                       None \<Rightarrow> None
                     | Some (P, Inl res) \<Rightarrow> Some (P, res)
                     | Some (P, Inr ctx) \<Rightarrow> call_remote env r receiver ctx rt (rq_Data req) P))))"

definition handleRPCSys ::
  "('c, 's, 'v) remote_env \<Rightarrow> i64 \<Rightarrow> nat \<Rightarrow> hctx \<Rightarrow> request \<Rightarrow> route \<Rightarrow> 'c pool \<Rightarrow> ('c pool \<times> 's rpc_response) option" where
  "handleRPCSys env now ent ctx req rt P =
     (case NewRemote env now ent (rq_Session req) (rq_Reply req) (rq_FrontendID req) P of
        None \<Rightarrow> None
      | Some (P, Inl e) \<Rightarrow> Some (P, failed (rm_Status env e))
      | Some (P, Inr a) \<Rightarrow>
          (case ProcessHandlerMessage (rm_handler env) (rm_handlerHooks env) (rm_handlers env) ctx rt (ra_Session a)
                  (uid (heap P (ra_Session a))) (rq_Data req) (ProtoMsgTypeV (rq_MsgType req)) True P of
             None \<Rightarrow> None
           | Some (P, Inl e) \<Rightarrow> Some (P, failed (rm_Status env e))
           | Some (P, Inr ret) \<Rightarrow> Some (P, answered ret)))"

definition processRemoteMessage ::
  "('c, 's, 'v) remote_env \<Rightarrow> remotes \<Rightarrow> i64 \<Rightarrow> nat \<Rightarrow> hctx \<Rightarrow> request \<Rightarrow> 'c pool \<Rightarrow> ('c pool \<times> 's rpc_response) option" where
  "processRemoteMessage env rs now ent ctx req P =
     (case RouteDecode (rq_Route req) of
        Inl e \<Rightarrow> Some (P, failed (rm_status env StatusBadRequest ''cannot decode route'' (rq_Route req)))
      | Inr rt \<Rightarrow>
          if rq_Type req = RPCType_Sys then handleRPCSys env now ent ctx req rt P
          else if rq_Type req = RPCType_User then handleRPCUser env rs now ent ctx req rt P
          else Some (P, failed (rm_status env StatusBadRequest ''invalid rpc type'' (rq_Route req))))"

text \<open>\<open>Call\<close> returns the response and the error together; the response is nil when the route is not one.\<close>

definition RemoteService_Call ::
  "('c, 's, 'v) remote_env \<Rightarrow> remotes \<Rightarrow> i64 \<Rightarrow> nat \<Rightarrow> hctx \<Rightarrow> request \<Rightarrow> 'c pool
     \<Rightarrow> ('c pool \<times> 's rpc_response option \<times> goerr option) option" where
  "RemoteService_Call env rs now ent ctx req P =
     (case RouteDecode (rq_Route req) of
        Inl e \<Rightarrow> Some (P, None, Some e)
      | Inr rt \<Rightarrow> map_option (\<lambda>(P, res). (P, Some res, map_option (rm_FromStatus env) (resp_Status res)))
                   (processRemoteMessage env rs now ent ctx req P))"

section \<open>Pushing to and kicking a user\<close>

definition SessionBindRemote :: "('c, 's, 'v) remote_env \<Rightarrow> remotes \<Rightarrow> string \<Rightarrow> string \<Rightarrow> 'c pool \<Rightarrow> 'c pool \<times> 's rpc_response res" where
  "SessionBindRemote env rs u fid P =
     (fold (\<lambda>l. rm_listen env l (OnUserBind u fid)) (rs_bindingListeners rs) P, Inr (answered (str_bytes ''ack'')))"

definition PushToUser ::
  "('d, 'k, 'v) agent_env \<Rightarrow> string \<Rightarrow> string \<Rightarrow> byte list \<Rightarrow> ('d, 'k) world \<Rightarrow> ('d, 'k) world \<times> 's rpc_response res" where
  "PushToUser env u rt payload P =
     (case GetSessionByUID P u of
        None \<Rightarrow> (P, Inl ErrSessionNotFound)
      | Some q \<Rightarrow>
          (case sess_Push env q rt (BytesV payload) P of
             (P, Some e) \<Rightarrow> (P, Inl e)
           | (P, None) \<Rightarrow> (P, Inr (answered (str_bytes ''ack'')))))"

text \<open>The answer is the flag \<open>Kicked\<close>; the reason is an \<open>int32\<close> of the message.\<close>

definition KickUser :: "'c pool_env \<Rightarrow> string \<Rightarrow> cbk \<Rightarrow> 32 word \<Rightarrow> 'c pool \<Rightarrow> 'c pool \<times> bool res" where
  "KickUser env u metadata reason P =
     (case GetSessionByUID P u of
        None \<Rightarrow> (P, Inl ErrSessionNotFound)
      | Some q \<Rightarrow>
          (case sess_Kick env q metadata [scast reason] P of
             (P, Some e) \<Rightarrow> (P, Inl e)
           | (P, None) \<Rightarrow> (P, Inr True)))"

section \<open>Forwarding a message of a client\<close>

definition remoteProcess ::
  "('h, ('d, 'k) front, 's) rpc_env \<Rightarrow> ('d, 'k, 'v) agent_env \<Rightarrow> server option \<Rightarrow> nat \<Rightarrow> route \<Rightarrow> message \<Rightarrow> ('d, 'k) world
     \<Rightarrow> ('d, 'k) world option" where
  "remoteProcess rpc env sv a rt msg P =
     map_option (\<lambda>(P, res).
         if msg_Type msg = Request then
           (case res of
              Inl e \<Rightarrow> AnswerWithError env a (msg_ID msg) e P
            | Inr x \<Rightarrow>
                (case sess_ResponseMID env (ag_Session (agent_at P a)) (msg_ID msg) (BytesV (resp_Data x)) [] P of
                   (P, Some e) \<Rightarrow> AnswerWithError env a (msg_ID msg) e P
                 | (P, None) \<Rightarrow> P))
         else if msg_Type msg = Notify then
           (case res of Inl e \<Rightarrow> AnswerWithError env a (msg_ID msg) e P | Inr x \<Rightarrow> P)
         else P)
       (remoteCall rpc sv RPCType_Sys rt (Some (ag_Session (agent_at P a))) msg P)"

section \<open>The session of a call\<close>

lemma SetDataEncoded_parts:
  "uid (fst (SetDataEncoded j b s)) = uid s" "backends (fst (SetDataEncoded j b s)) = backends s"
  "frontendID (fst (SetDataEncoded j b s)) = frontendID s"
  "frontendSessionID (fst (SetDataEncoded j b s)) = frontendSessionID s"
  by (auto simp: SetDataEncoded_def SetData_def updateEncodedData_def split: sum.splits)

text \<open>
  A call for a user whose session the server already has never changes where that session is bound. A frontend leaves its sessions alone;
  a backend takes over the data and the address, and keeps the user, the frontend and the backends of the session, the tables of the
  pool and all other sessions, also when the data cannot be decoded.
\<close>

theorem known_session_keeps_binding:
  assumes "GetSessionByUID P (ps_Uid s) = Some q" and "NewRemote env now ent (Some s) reply fid P = Some (P', r)"
  shows "(sv_Frontend (rm_self env) \<longrightarrow> P' = P) \<and> (\<forall>a. r = Inr a \<longrightarrow> ra_Session a = q) \<and>
    uid (heap P' q) = uid (heap P q) \<and> backends (heap P' q) = backends (heap P q) \<and>
    frontendID (heap P' q) = frontendID (heap P q) \<and> frontendSessionID (heap P' q) = frontendSessionID (heap P q) \<and>
    (\<forall>q'. q' \<noteq> q \<longrightarrow> heap P' q' = heap P q') \<and>
    sessionsByUID P' = sessionsByUID P \<and> sessionsByID P' = sessionsByID P \<and> heap_next P' = heap_next P"
proof -
  have new: "NewSession now ent False [ps_Uid s] P = (q, False, P)" by (simp add: NewSession_def assms(1))
  show ?thesis
    using assms(2) SetDataEncoded_parts [of "rm_json env" "ps_Data s" "SetIP (ps_Ip s) (heap P q)"]
    by (auto simp: NewRemote_def new Let_def upd_def SetIP_def split: if_splits option.splits)
qed

text \<open>A backend session that is made with the nil map of backends cannot be bound to a backend.\<close>

lemma nil_backends_panic:
  assumes "GetSessionByUID P (ps_Uid s) = None" and "ps_Uid s \<noteq> []" and "ps_Backends s = None" and "\<not> sv_Frontend (rm_self env)"
    and "NewRemote env now ent (Some s) reply fid P = Some (P', Inr a)"
  shows "BindBackend penv (ra_Session a) svType svID cb P' = None"
proof -
  obtain Q where new: "NewSession now ent False [ps_Uid s] P = (heap_next P, True, Q)" "uid (heap Q (heap_next P)) = ps_Uid s"
    by (simp add: NewSession_def assms(1) Let_def)
  have "uid (heap P' (ra_Session a)) = ps_Uid s \<and> backends (heap P' (ra_Session a)) = None"
    using assms(3-5) new(2) SetDataEncoded_parts(1) [of "rm_json env" "ps_Data s" "SetIP (ps_Ip s) (heap Q (heap_next P))"]
    by (auto simp: NewRemote_def new(1) Let_def upd_def SetIP_def SetBackends_def SetFrontendData_def split: option.splits)
  then show ?thesis using assms(2) by (simp add: BindBackend_def GetBackendID_def SetBackendID_def)
qed

section \<open>Examples\<close>

text \<open>A backend of type game, with a user it knows and one it does not.\<close>

definition remote_example :: "(string \<Rightarrow> string \<rightharpoonup> string, nat, byte list) remote_env" where
  "remote_example =
     \<lparr>rm_handler =
        \<lparr>he_impl = he_impl handler_example, he_recv_type = he_recv_type handler_example, he_ctx_type = he_ctx_type handler_example,
         he_run = (\<lambda>f args P. (P, Returns None)), he_provider = (\<lambda>_ _. None), he_taskgo = (\<lambda>_ ctx. Some ctx),
         he_intercept = (\<lambda>_ _ _ _ P. (P, NilV, None)), he_Marshal = (\<lambda>v. Inr []), he_Unmarshal = (\<lambda>b t. Inr b),
         he_proto_Unmarshal = (\<lambda>b t. Inr b), he_FromError = (\<lambda>e. e), he_BadRequest = (\<lambda>e. e),
         he_NotFound = (\<lambda>_. ErrNew ''not found''), he_Status = (\<lambda>e. NilV), he_customError = None\<rparr>,
      rm_remoteHooks = NewHandlerHooks, rm_handlerHooks = NewHandlerHooks, rm_handlers = NewHandlerPool, rm_json = json_example,
      rm_self = game_server, rm_proto_Marshal = (\<lambda>v. Inr []), rm_Status = (\<lambda>e. 500), rm_status = (\<lambda>c m r. c),
      rm_FromStatus = (\<lambda>_. ErrWrongValueType), rm_Error = (\<lambda>e. []), rm_compress = False,
      rm_zlib = zlib_example, rm_dict = \<lparr>routes = Map.empty, codes = Map.empty\<rparr>, rm_Marshal_Response = Inr,
      rm_listen = (\<lambda>l c P. P), rm_nats = True, rm_Send = (\<lambda>t b P. (P, None)),
      rm_SendPush = (\<lambda>u sv p P. (P, None))\<rparr>"

definition backend_pool :: "(string \<Rightarrow> string \<rightharpoonup> string) pool" where
  "backend_pool = NewSessionPool (\<lambda>_. Map.empty)"

definition caller :: proto_session where
  "caller = \<lparr>ps_Id = 9, ps_Uid = ''7'', ps_Data = [], ps_Backends = None, ps_Ip = ''10.0.0.2''\<rparr>"

lemma remote_example_self [simp]: "\<not> sv_Frontend (rm_self remote_example)"
  by (simp add: remote_example_def game_server_def NewServer_def)

lemma caller_parts [simp]: "ps_Uid caller = ''7''" "ps_Data caller = []" "ps_Backends caller = None"
  by (simp_all add: caller_def)

lemma known_session_keeps_binding_witness:
  "\<exists>P' r. NewRemote remote_example 0 5 (Some caller) [] ''f1''
       (backend_pool\<lparr>sessionsByUID := [''7'' \<mapsto> 0], heap_next := 1\<rparr>) = Some (P', r) \<and>
     backends (heap P' 0) = Some Map.empty"
proof -
  let ?P = "backend_pool\<lparr>sessionsByUID := [''7'' \<mapsto> 0], heap_next := 1\<rparr>"
  have known: "GetSessionByUID ?P (ps_Uid caller) = Some 0" by (simp add: GetSessionByUID_def)
  obtain P' r where call: "NewRemote remote_example 0 5 (Some caller) [] ''f1'' ?P = Some (P', r)"
    using known by (simp add: NewRemote_def NewSession_def Let_def SetDataEncoded_def)
  have "backends (heap P' 0) = backends (heap ?P 0)" using known_session_keeps_binding [OF known call] by blast
  then show ?thesis using call by (simp add: backend_pool_def NewSessionPool_def new_session_def)
qed

end
