(* ===== verification/Nats_Rpc.thy ===== *)
theory Nats_Rpc
  imports Remote_Server
begin

text \<open>
  Calls between servers on NATS: the request a call is sent as (\<open>cluster/cluster.go\<close>), the RPC client (\<open>cluster/nats_rpc_client.go\<close>) and the RPC
  server (\<open>cluster/nats_rpc_server.go\<close>). The session of a caller arrives at the callee as it was, except that an empty map of backends arrives as
  nil; a call leaves no request in flight behind; a request whose route does not decode is never answered, and a message without content
  ends the loop that receives all messages.
\<close>

section \<open>Requests\<close>

abbreviation PeerIDKey :: string where "PeerIDKey \<equiv> ''peer.id''"
abbreviation PeerServiceKey :: string where "PeerServiceKey \<equiv> ''peer.service''"
abbreviation RequestTimeoutKey :: string where "RequestTimeoutKey \<equiv> ''reqTimeout''"
abbreviation RequestIDKey :: string where "RequestIDKey \<equiv> ''request.id''"
abbreviation RouteKey :: string where "RouteKey \<equiv> ''req-route''"

definition buildRequest ::
  "json \<Rightarrow> go_ctx \<Rightarrow> nat \<Rightarrow> string \<Rightarrow> session option \<Rightarrow> message \<Rightarrow> server \<Rightarrow> request res" where
  "buildRequest j ctx rpcType rt sess msg thisServer =
     (let ctx = the (AddListToPropagateCtx ctx
                  [GString PeerIDKey, GString (sv_ID thisServer), GString PeerServiceKey, GString (sv_Type thisServer)]) in
      case ctx_Encode j ctx of
        Inl e \<Rightarrow> Inl e
      | Inr metadata \<Rightarrow> Inr
          \<lparr>rq_Type = rpcType,
           rq_Session = map_option (\<lambda>s. \<lparr>ps_Id = frontendSessionID s, ps_Uid = uid s, ps_Data = GetDataEncoded s,
                          ps_Backends = Some (GetBackends s), ps_Ip = sess_ip s\<rparr>) sess,
           rq_FrontendID = (if sv_Frontend thisServer then sv_ID thisServer else []),
           rq_Route = rt, rq_Data = msg_Data msg,
           rq_MsgType = (if msg_Type msg = Request then MsgType_MsgRequest
                         else if msg_Type msg = Notify then MsgType_MsgNotify else MsgType_MsgRequest),
           rq_Reply = [],
           rq_Id = (if rpcType = RPCType_Sys then if msg_Type msg = Request then msg_ID msg else 0 else 0),
           rq_Metadata = metadata, rq_hasMsg = True\<rparr>)"

text \<open>The worker that \<open>GoWithRequest\<close> hands a request to: any, the one of a user or the one of a session. A request with a user whose number
  is not positive goes to none.\<close>

datatype worker = AnyWorker | UserWorker i64 | SessionWorker i64 | NoWorker

definition GoWithRequest :: "request \<Rightarrow> worker" where
  "GoWithRequest req =
     (case rq_Session req of
        None \<Rightarrow> AnyWorker
      | Some s \<Rightarrow>
          if ps_Uid s \<noteq> [] then
            let uidInt = ForceIdStrToInt (ps_Uid s) in if uidInt \<le>s 0 then NoWorker else UserWorker uidInt
          else SessionWorker (FrontendSessHash (rq_FrontendID req) (ps_Id s)))"

section \<open>Topics\<close>

definition getChannel :: "string \<Rightarrow> string \<Rightarrow> string" where
  "getChannel serverType serverID = ''pitaya/servers/'' @ serverType @ ''/'' @ serverID"

definition GetUserMessagesTopic :: "string \<Rightarrow> string \<Rightarrow> string" where
  "GetUserMessagesTopic u svType = ''pitaya/'' @ svType @ ''/user/'' @ u @ ''/push''"

definition GetUserKickTopic :: "string \<Rightarrow> string \<Rightarrow> string" where
  "GetUserKickTopic u svType = ''pitaya/'' @ svType @ ''/user/'' @ u @ ''/kick''"

definition GetBindBroadcastTopic :: "string \<Rightarrow> string" where
  "GetBindBroadcastTopic svType = ''pitaya/'' @ svType @ ''/bindings''"

definition GetForkTopic :: "string \<Rightarrow> string" where
  "GetForkTopic svrType = ''pitaya.fork.'' @ svrType"

section \<open>The client\<close>

text \<open>
  \<open>ne_Publish\<close> and \<open>ne_Request\<close> are the NATS connection, with the timeout of a request in nanoseconds. \<open>ne_timeout\<close> is what the client makes of an error of the
  connection: its own error for a timeout. \<open>ne_Duration_String\<close> and \<open>ne_ParseDuration\<close> print and read a duration, the latter with zero for text
  that is none, and \<open>ne_NanoID\<close> draws a random id. The functions on messages are protobuf.
\<close>

record ('c, 's) nats_env =
  ne_server :: server
  ne_json :: json
  ne_Publish :: "string \<Rightarrow> byte list \<Rightarrow> 'c pool \<Rightarrow> 'c pool \<times> goerr option"
  ne_Request :: "string \<Rightarrow> byte list \<Rightarrow> i64 \<Rightarrow> 'c pool \<Rightarrow> 'c pool \<times> byte list res"
  ne_timeout :: "goerr \<Rightarrow> goerr"
  ne_Duration_String :: "i64 \<Rightarrow> string"
  ne_ParseDuration :: "string \<Rightarrow> i64"
  ne_NanoID :: "'c pool \<Rightarrow> string"
  ne_Marshal_Request :: "request \<Rightarrow> byte list res"
  ne_Unmarshal_Request :: "byte list \<Rightarrow> request res"
  ne_Marshal_Response :: "'s rpc_response \<Rightarrow> byte list res"
  ne_Unmarshal_Response :: "byte list \<Rightarrow> 's rpc_response res"
  ne_Marshal_Push :: "string \<times> string \<times> byte list \<Rightarrow> byte list res"
  ne_Marshal :: "proto_msg \<Rightarrow> byte list res"
  ne_FromStatus :: "'s \<Rightarrow> goerr"
  ne_Status :: "goerr \<Rightarrow> 's"

record nats_client =
  nc_connString :: string
  nc_connectionTimeout :: i64
  nc_maxReconnectionRetries :: i64
  nc_reqTimeout :: i64
  nc_running :: bool

text \<open>The configuration as far as the client and the server read it.\<close>

record nats_config =
  cf_Connect :: string
  cf_ConnectionTimeout :: i64
  cf_MaxReconnectionRetries :: i64
  cf_RequestTimeout :: i64
  cf_Messages :: i64
  cf_Push :: i64

definition client_configure :: "nats_config \<Rightarrow> nats_client \<Rightarrow> nats_client \<times> goerr option" where
  "client_configure cf nc =
     (let nc = nc\<lparr>nc_connString := cf_Connect cf\<rparr> in
      if nc_connString nc = [] then (nc, Some ErrNoNatsConnectionString)
      else
        let nc = nc\<lparr>nc_connectionTimeout := cf_ConnectionTimeout cf,
                    nc_maxReconnectionRetries := cf_MaxReconnectionRetries cf, nc_reqTimeout := cf_RequestTimeout cf\<rparr> in
        if nc_reqTimeout nc = 0 then (nc, Some ErrNatsNoRequestTimeout) else (nc, None))"

definition NewNatsRPCClient :: "i64 \<Rightarrow> nats_config \<Rightarrow> nats_client res" where
  "NewNatsRPCClient defaultTimeout cf =
     (case client_configure cf
             \<lparr>nc_connString = [], nc_connectionTimeout = defaultTimeout, nc_maxReconnectionRetries = 0, nc_reqTimeout = 0,
              nc_running = False\<rparr> of
        (nc, Some e) \<Rightarrow> Inl e
      | (nc, None) \<Rightarrow> Inr nc)"

definition nats_Send ::
  "('c, 's) nats_env \<Rightarrow> nats_client \<Rightarrow> string \<Rightarrow> byte list \<Rightarrow> 'c pool \<Rightarrow> 'c pool \<times> goerr option" where
  "nats_Send env nc topic payload P =
     (if \<not> nc_running nc then (P, Some ErrRPCClientNotInitialized) else ne_Publish env topic payload P)"

definition BroadcastSessionBind ::
  "('c, 's) nats_env \<Rightarrow> nats_client \<Rightarrow> string \<Rightarrow> 'c pool \<Rightarrow> 'c pool \<times> goerr option" where
  "BroadcastSessionBind env nc u P =
     (case ne_Marshal env (BindMsg u (sv_ID (ne_server env)) 0 None []) of
        Inl e \<Rightarrow> (P, Some e)
      | Inr b \<Rightarrow> nats_Send env nc (GetBindBroadcastTopic (sv_Type (ne_server env))) b P)"

definition nats_SendPush ::
  "('c, 's) nats_env \<Rightarrow> nats_client \<Rightarrow> string \<Rightarrow> server \<Rightarrow> string \<times> string \<times> byte list \<Rightarrow> 'c pool \<Rightarrow> 'c pool \<times> goerr option" where
  "nats_SendPush env nc userID frontendSv push P =
     (let topic = GetUserMessagesTopic userID (sv_Type frontendSv) in
      case ne_Marshal_Push env push of Inl e \<Rightarrow> (P, Some e) | Inr b \<Rightarrow> nats_Send env nc topic b P)"

definition nats_SendKick ::
  "('c, 's) nats_env \<Rightarrow> nats_client \<Rightarrow> string \<Rightarrow> string \<Rightarrow> proto_msg \<Rightarrow> 'c pool \<Rightarrow> 'c pool \<times> goerr option" where
  "nats_SendKick env nc userID serverType kick P =
     (let topic = GetUserKickTopic userID serverType in
      case ne_Marshal env kick of Inl e \<Rightarrow> (P, Some e) | Inr b \<Rightarrow> nats_Send env nc topic b P)"

text \<open>
  \<open>Call\<close>: the request is marked in the session while it is under way, and the mark is removed however the function returns. \<open>body\<close> is
  the rest of the function behind the mark; \<open>None\<close> is the panic of the assertion that the timeout in the context is a string.
\<close>

definition while_in_flight :: "nat option \<Rightarrow> string \<Rightarrow> string \<Rightarrow> ('c pool \<Rightarrow> ('c pool \<times> 'r) option) \<Rightarrow> 'c pool \<Rightarrow> ('c pool \<times> 'r) option" where
  "while_in_flight q requestID info body P =
     (case q of
        None \<Rightarrow> body P
      | Some a \<Rightarrow>
          map_option (\<lambda>(P, r). (upd a (SetRequestInFlight requestID [] False) P, r))
            (body (upd a (SetRequestInFlight requestID info True) P)))"

definition call_body ::
  "('c, 's) nats_env \<Rightarrow> nats_client \<Rightarrow> go_ctx \<Rightarrow> nat \<Rightarrow> route \<Rightarrow> nat option \<Rightarrow> message \<Rightarrow> server \<Rightarrow> 'c pool
     \<Rightarrow> ('c pool \<times> 's rpc_response res) option" where
  "call_body env nc ctx rpcType rt q msg sv P =
     (let set = (GetFromPropagateCtx ctx RequestTimeoutKey = GNil);
          reqTimeout = (if set then GString (ne_Duration_String env (nc_reqTimeout nc)) else GetFromPropagateCtx ctx RequestTimeoutKey);
          ctx = (if set then AddToPropagateCtx ctx RequestTimeoutKey reqTimeout else ctx) in
      case and_then (buildRequest (ne_json env) ctx rpcType (RouteString rt) (map_option (heap P) q) msg (ne_server env))
             (ne_Marshal_Request env) of
        Inl e \<Rightarrow> Some (P, Inl e)
      | Inr marshalledData \<Rightarrow>
          if msg_Type msg = Notify then
            (case nats_Send env nc (getChannel (sv_Type sv) (sv_ID sv)) marshalledData P of
               (P, Some e) \<Rightarrow> Some (P, Inl e)
             | (P, None) \<Rightarrow> Some (P, Inr \<lparr>resp_Data = [], resp_Status = None\<rparr>))
          else
            (case reqTimeout of
               GString t \<Rightarrow>
                 (case ne_Request env (getChannel (sv_Type sv) (sv_ID sv)) marshalledData (ne_ParseDuration env t) P of
                    (P, Inl e) \<Rightarrow> Some (P, Inl (ne_timeout env e))
                  | (P, Inr b) \<Rightarrow>
                      Some (P, case ne_Unmarshal_Response env b of
                                 Inl e \<Rightarrow> Inl e
                               | Inr res \<Rightarrow> (case resp_Status res of Some st \<Rightarrow> Inl (ne_FromStatus env st) | None \<Rightarrow> Inr res)))
             | _ \<Rightarrow> None))"

definition nats_Call ::
  "('c, 's) nats_env \<Rightarrow> nats_client \<Rightarrow> go_ctx \<Rightarrow> nat \<Rightarrow> route \<Rightarrow> nat option \<Rightarrow> message \<Rightarrow> server \<Rightarrow> 'c pool
     \<Rightarrow> ('c pool \<times> 's rpc_response res) option" where
  "nats_Call env nc ctx rpcType rt q msg sv P =
     (if \<not> nc_running nc then Some (P, Inl ErrRPCClientNotInitialized)
      else while_in_flight q (ne_NanoID env P) (Method rt) (call_body env nc ctx rpcType rt q msg sv) P)"

definition nats_Fork ::
  "('c, 's) nats_env \<Rightarrow> nats_client \<Rightarrow> go_ctx \<Rightarrow> route \<Rightarrow> nat option \<Rightarrow> message \<Rightarrow> 'c pool \<Rightarrow> 'c pool \<times> goerr option" where
  "nats_Fork env nc ctx rt q msg P =
     (let msg = msg\<lparr>msg_Type := Notify\<rparr> in
      if \<not> nc_running nc then (P, Some ErrRPCClientNotInitialized)
      else case and_then (buildRequest (ne_json env) ctx RPCType_User (RouteString rt) (map_option (heap P) q) msg (ne_server env))
                  (ne_Marshal_Request env) of
             Inl e \<Rightarrow> (P, Some e)
           | Inr b \<Rightarrow> nats_Send env nc (GetForkTopic (SvType rt)) b P)"

section \<open>The server\<close>

record nats_server =
  nv_connString :: string
  nv_connectionTimeout :: i64
  nv_maxReconnectionRetries :: i64
  nv_messagesBufferSize :: i64
  nv_pushBufferSize :: i64
  nv_reqTimeout :: i64
  nv_connected :: bool
  nv_publishSubs :: "string \<rightharpoonup> string"
  nv_preparePubSubTopics :: "string \<rightharpoonup> string"

definition server_configure :: "nats_config \<Rightarrow> nats_server \<Rightarrow> nats_server \<times> goerr option" where
  "server_configure cf nv =
     (let nv = nv\<lparr>nv_connString := cf_Connect cf\<rparr> in
      if nv_connString nv = [] then (nv, Some ErrNoNatsConnectionString)
      else
        let nv = nv\<lparr>nv_connectionTimeout := cf_ConnectionTimeout cf, nv_maxReconnectionRetries := cf_MaxReconnectionRetries cf,
                    nv_messagesBufferSize := cf_Messages cf\<rparr> in
        if nv_messagesBufferSize nv = 0 then (nv, Some ErrNatsMessagesBufferSizeZero)
        else
          let nv = nv\<lparr>nv_pushBufferSize := cf_Push cf\<rparr> in
          if nv_pushBufferSize nv = 0 then (nv, Some ErrNatsPushBufferSizeZero)
          else (nv\<lparr>nv_reqTimeout := cf_RequestTimeout cf\<rparr>, None))"

text \<open>\<open>Subscribe\<close>: \<open>chan\<close> makes the subscription of a topic and a group, which may be empty, or fails.\<close>

definition nats_Subscribe ::
  "(string \<Rightarrow> string \<Rightarrow> string res) \<Rightarrow> string \<Rightarrow> string list \<Rightarrow> nats_server \<Rightarrow> nats_server \<times> goerr option" where
  "nats_Subscribe chan topic groups nv =
     (if nv_publishSubs nv topic \<noteq> None then (nv, None)
      else if nv_preparePubSubTopics nv topic \<noteq> None then (nv, None)
      else
        let grp = (case groups of [] \<Rightarrow> [] | g # _ \<Rightarrow> g) in
        if \<not> nv_connected nv then (nv\<lparr>nv_preparePubSubTopics := (nv_preparePubSubTopics nv)(topic \<mapsto> grp)\<rparr>, None)
        else case chan topic grp of
               Inl e \<Rightarrow> (nv, Some e)
             | Inr sub \<Rightarrow> (nv\<lparr>nv_publishSubs := (nv_publishSubs nv)(topic \<mapsto> sub)\<rparr>, None))"

text \<open>The callback for the binding of a session: the topics of the user, on a frontend.\<close>

definition nats_onSessionBind ::
  "('c, 's) nats_env \<Rightarrow> (string \<Rightarrow> 'c pool \<Rightarrow> 'c pool \<times> string res) \<Rightarrow> nat \<Rightarrow> 'c pool \<Rightarrow> 'c pool \<times> goerr option" where
  "nats_onSessionBind env sub q P =
     (if \<not> sv_Frontend (ne_server env) then (P, None)
      else case sub (GetUserMessagesTopic (uid (heap P q)) (sv_Type (ne_server env))) P of
             (P, Inl e) \<Rightarrow> (P, Some e)
           | (P, Inr subu) \<Rightarrow>
               (case sub (GetUserKickTopic (uid (heap P q)) (sv_Type (ne_server env))) P of
                  (P, Inl e) \<Rightarrow> (P, Some e)
                | (P, Inr subk) \<Rightarrow> (upd q (\<lambda>s. s\<lparr>Subscriptions := [subu, subk]\<rparr>) P, None)))"

text \<open>
  The loop that receives the messages, on the messages that come in, each with its reply topic. The result is the requests it passes on and whether
  the loop is still running: writing the reply topic panics when the request has no message.
\<close>

fun handleMessages :: "('c, 's) nats_env \<Rightarrow> (byte list \<times> string) list \<Rightarrow> request list \<times> bool" where
  "handleMessages env [] = ([], True)"
| "handleMessages env ((b, reply) # ms) =
     (case ne_Unmarshal_Request env b of
        Inl e \<Rightarrow> handleMessages env ms
      | Inr req \<Rightarrow>
          if \<not> rq_hasMsg req then ([], False)
          else (case handleMessages env ms of (reqs, run) \<Rightarrow> (req\<lparr>rq_Reply := reply\<rparr> # reqs, run)))"

text \<open>\<open>None\<close> is the nil dereference on a nil response. The error of the second attempt to encode is ignored.\<close>

definition marshalResponse :: "('c, 's) nats_env \<Rightarrow> 's rpc_response option \<Rightarrow> byte list option" where
  "marshalResponse env res =
     (case res of
        None \<Rightarrow> None
      | Some r \<Rightarrow> Some
          (case ne_Marshal_Response env r of
             Inr p \<Rightarrow> p
           | Inl e \<Rightarrow> (case ne_Marshal_Response env (failed (ne_Status env e)) of Inr p \<Rightarrow> p | Inl _ \<Rightarrow> [])))"

definition GetContextFromRequest :: "json \<Rightarrow> string \<Rightarrow> request \<Rightarrow> hctx res" where
  "GetContextFromRequest j nuid req =
     (case ctx_Decode j (rq_Metadata req) of
        Inl e \<Rightarrow> Inl e
      | Inr ctx \<Rightarrow>
          if ctx = NilCtx then Inl ErrNoContextFound
          else
            let ctx = (case GetFromPropagateCtx ctx RequestIDKey of
                         GString r \<Rightarrow> if r = [] then AddToPropagateCtx ctx RequestIDKey (GString nuid) else ctx
                       | _ \<Rightarrow> AddToPropagateCtx ctx RequestIDKey (GString nuid));
                ctx = AddToPropagateCtx ctx RouteKey (GString (rq_Route req)) in
            Inr (CtxWithDefaultLogger (rq_Route req) [] \<lparr>hc_values = ctx, hc_session = None, hc_logger = None\<rparr>))"

definition respond :: "('c, 's) nats_env \<Rightarrow> request \<Rightarrow> 's rpc_response option \<Rightarrow> 'c pool \<Rightarrow> 'c pool option" where
  "respond env req res P =
     (if rq_MsgType req = MsgType_MsgNotify then Some P
      else map_option (\<lambda>p. fst (ne_Publish env (rq_Reply req) p P)) (marshalResponse env res))"

text \<open>The task of a request, in its worker. \<open>None\<close> is a panic in it, which the worker recovers.\<close>

definition request_task ::
  "('c, 's) nats_env \<Rightarrow> (hctx \<Rightarrow> request \<Rightarrow> 'c pool \<Rightarrow> ('c pool \<times> 's rpc_response option \<times> goerr option) option)
     \<Rightarrow> hctx \<Rightarrow> request \<Rightarrow> 'c pool \<Rightarrow> 'c pool option" where
  "request_task env call ctx req P =
     (case call ctx req P of None \<Rightarrow> None | Some (P, resp, err) \<Rightarrow> respond env req resp P)"

text \<open>\<open>processMessages\<close> on one request: an answer at once when it has no context, or the worker it is handed to, with the context.\<close>

definition process_request ::
  "('c, 's) nats_env \<Rightarrow> string \<Rightarrow> request \<Rightarrow> 'c pool \<Rightarrow> ('c pool \<times> (worker \<times> hctx) option) option" where
  "process_request env nuid req P =
     (case GetContextFromRequest (ne_json env) nuid req of
        Inl e \<Rightarrow> map_option (\<lambda>P. (P, None)) (respond env req (Some (failed (ne_Status env e))) P)
      | Inr ctx \<Rightarrow> Some (P, Some (GoWithRequest req, ctx)))"

text \<open>The loops for pushes and kicks.\<close>

definition processPushes ::
  "('d, 'k, 'v) agent_env \<Rightarrow> (string \<times> string \<times> byte list) list \<Rightarrow> ('d, 'k) world \<Rightarrow> ('d, 'k) world" where
  "processPushes env pushes P = fold (\<lambda>(rt, u, b) P. fst (PushToUser env u rt b P :: _ \<times> unit rpc_response res)) pushes P"

definition processKick :: "'c pool_env \<Rightarrow> (string \<times> cbk \<times> 32 word) list \<Rightarrow> 'c pool \<Rightarrow> 'c pool" where
  "processKick env kicks P = fold (\<lambda>(u, metadata, reason) P. fst (KickUser env u metadata reason P)) kicks P"

section \<open>Requests in flight\<close>

lemma call_body_session:
  assumes "call_body env nc ctx ty rt q msg sv P = Some (P', r)"
  shows "P' = P \<or> (\<exists>t b. P' = fst (ne_Publish env t b P)) \<or> (\<exists>t b d. P' = fst (ne_Request env t b d P))"
proof -
  have pub: "(\<exists>t b. Q = fst (ne_Publish env t b P))" if "ne_Publish env t b P = (Q, e)" for Q t b e
    using that by (intro exI [of _ t] exI [of _ b]) simp
  have req: "(\<exists>t b d. Q = fst (ne_Request env t b d P))" if "ne_Request env t b d P = (Q, e)" for Q t b d e
    using that by (intro exI [of _ t] exI [of _ b] exI [of _ d]) simp
  show ?thesis
    using assms
    by (auto simp: call_body_def nats_Send_def Let_def dest: pub req
        split: sum.splits if_splits prod.splits option.splits goval.splits)
qed

text \<open>
  C30. A call leaves no mark of itself in the session of its caller. Whatever the connection and the rest of the program do to the session while the
  call is under way, its own entry is gone when it returns, with an answer or with an error; if nothing else touches the requests in
  flight, they are as they were before.
\<close>

theorem call_clears_in_flight:
  assumes "nats_Call env nc ctx ty rt (Some q) msg sv P = Some (P', r)" and "nc_running nc"
  shows "requestsInFlight (heap P' q) (ne_NanoID env P) = None \<and>
    ((\<forall>t b Q. requestsInFlight (heap (fst (ne_Publish env t b Q)) q) = requestsInFlight (heap Q q)) \<and>
     (\<forall>t b d Q. requestsInFlight (heap (fst (ne_Request env t b d Q)) q) = requestsInFlight (heap Q q)) \<and>
     requestsInFlight (heap P q) (ne_NanoID env P) = None \<longrightarrow>
       requestsInFlight (heap P' q) = requestsInFlight (heap P q))"
proof -
  let ?i = "ne_NanoID env P"
  let ?Q = "upd q (SetRequestInFlight ?i (Method rt) True) P"
  obtain R where R: "call_body env nc ctx ty rt (Some q) msg sv ?Q = Some (R, r)"
    and P': "P' = upd q (SetRequestInFlight ?i [] False) R"
    using assms by (auto simp: nats_Call_def while_in_flight_def)
  have out: "requestsInFlight (heap P' q) = (requestsInFlight (heap R q))(?i := None)"
    unfolding P' by (auto simp: upd_def SetRequestInFlight_def)
  have into: "requestsInFlight (heap ?Q q) = (requestsInFlight (heap P q))(?i \<mapsto> Method rt)"
    by (simp add: upd_def SetRequestInFlight_def)
  have "requestsInFlight (heap P' q) = requestsInFlight (heap P q)"
    if "\<forall>t b Q. requestsInFlight (heap (fst (ne_Publish env t b Q)) q) = requestsInFlight (heap Q q)"
      "\<forall>t b d Q. requestsInFlight (heap (fst (ne_Request env t b d Q)) q) = requestsInFlight (heap Q q)"
      "requestsInFlight (heap P q) ?i = None"
  proof -
    have "requestsInFlight (heap R q) = requestsInFlight (heap ?Q q)"
      using call_body_session [OF R] that(1,2) by (elim disjE exE) simp_all
    then show ?thesis using that(3) by (auto simp: out into)
  qed
  then show ?thesis by (simp add: out)
qed

section \<open>The session of a caller\<close>

text \<open>Protobuf gives back what it was given, but an empty map comes back as nil.\<close>

definition on_wire :: "request \<Rightarrow> request" where
  "on_wire req = req\<lparr>rq_Session := map_option (\<lambda>s. s\<lparr>ps_Backends :=
     (if ps_Backends s = Some Map.empty then None else ps_Backends s)\<rparr>) (rq_Session req)\<rparr>"

definition proto_ok :: "('c, 's) nats_env \<Rightarrow> bool" where
  "proto_ok env \<longleftrightarrow>
     (\<forall>req b. ne_Marshal_Request env req = Inr b \<longrightarrow> ne_Unmarshal_Request env b = Inr (on_wire req))"

lemma buildRequest_session:
  assumes "buildRequest j ctx ty rt (Some s) msg sv = Inr req"
  shows "rq_Session (on_wire req) = Some \<lparr>ps_Id = frontendSessionID s, ps_Uid = uid s, ps_Data = encodedData s,
      ps_Backends = (if GetBackends s = Map.empty then None else Some (GetBackends s)), ps_Ip = sess_ip s\<rparr>"
    and "rq_FrontendID (on_wire req) = (if sv_Frontend sv then sv_ID sv else [])"
    and "rq_Route (on_wire req) = rt" and "rq_hasMsg (on_wire req)"
  using assms by (auto simp: buildRequest_def on_wire_def GetDataEncoded_def Let_def split: sum.splits)

lemma SetDataEncoded_succeeds:
  assumes "encodedData s \<noteq> [] \<Longrightarrow> json_Unmarshal j (encodedData s) = Inr d \<and> json_Marshal j (Some (map_get d)) = Inr b"
  shows "snd (SetDataEncoded j (encodedData s) t) = None \<and>
    data (fst (SetDataEncoded j (encodedData s) t)) = (if encodedData s = [] then data t else Some (map_get d)) \<and>
    sess_ip (fst (SetDataEncoded j (encodedData s) t)) = sess_ip t"
  using assms
  by (auto simp: SetDataEncoded_def DecodeSessionData_def SetData_def updateEncodedData_def EncodeSessionData_def)


text \<open>
  A user without backends cannot be bound to a backend there. The session a backend makes from the request of such a user has the nil map of
  backends, because an empty map does not survive protobuf, and \<open>BindBackend\<close> panics when it writes to it.
\<close>

theorem unbound_user_cannot_bind:
  assumes "proto_ok env" and "buildRequest j ctx ty rt (Some s) msg sv = Inr req" and "ne_Marshal_Request env req = Inr wire"
    and "GetBackends s = Map.empty" and "uid s \<noteq> []" and "\<not> sv_Frontend (rm_self renv)" and "GetSessionByUID P (uid s) = None"
    and "ne_Unmarshal_Request env wire = Inr req'"
    and "NewRemote renv now ent (rq_Session req') reply (rq_FrontendID req') P = Some (P', Inr a)"
  shows "BindBackend penv (ra_Session a) svType svID cb P' = None"
proof -
  have req': "req' = on_wire req" using assms(1,3,8) by (simp add: proto_ok_def)
  obtain c where c: "rq_Session req' = Some c" "ps_Uid c = uid s" "ps_Backends c = None"
    unfolding req' buildRequest_session [OF assms(2)] using assms(4) by simp
  show ?thesis
    by (rule nil_backends_panic [where s = c]) (use assms(5-7,9) c in simp_all)
qed

section \<open>Answers\<close>

text \<open>
  C31. When a request that wants an answer gets one. If its route decodes and handling it does not panic, exactly the response, encoded, is
  published to its reply topic. If its route does not decode there is no response, encoding it panics, and nothing is published, so that the
  caller waits for its timeout.
\<close>

theorem request_answered:
  assumes "rq_MsgType req \<noteq> MsgType_MsgNotify"
  shows "(case RouteDecode (rq_Route req) of
      Inl e \<Rightarrow> request_task env (RemoteService_Call renv rs now ent) ctx req P = None
    | Inr rt \<Rightarrow> \<forall>Q res b. processRemoteMessage renv rs now ent ctx req P = Some (Q, res) \<longrightarrow> ne_Marshal_Response env res = Inr b \<longrightarrow>
        request_task env (RemoteService_Call renv rs now ent) ctx req P = Some (fst (ne_Publish env (rq_Reply req) b Q)))"
  using assms
  by (auto simp: request_task_def RemoteService_Call_def respond_def marshalResponse_def split: sum.splits)

text \<open>The requests of a user whose number is not positive are handed to no worker, and are not answered either.\<close>

lemma zero_user_no_worker:
  assumes "rq_Session req = Some s" and "ps_Uid s \<noteq> []" and "ForceIdStrToInt (ps_Uid s) \<le>s 0"
  shows "GoWithRequest req = NoWorker"
  using assms by (simp add: GoWithRequest_def)

lemma handleMessages_append:
  "handleMessages env (ms @ ns) =
     (if snd (handleMessages env ms) then (fst (handleMessages env ms) @ fst (handleMessages env ns), snd (handleMessages env ns))
      else handleMessages env ms)"
  by (induction env ms rule: handleMessages.induct) (auto split: sum.splits prod.splits)

text \<open>
  A message without content stops the server. Empty data decodes to a request without a message, and the write of the reply topic panics: the
  loop ends, and of the messages behind it none is handled, whatever they are.
\<close>

theorem empty_message_stops_server:
  assumes "ne_Unmarshal_Request env [] = Inr zero" and "\<not> rq_hasMsg zero"
  shows "handleMessages env (ms @ ([], reply) # ns) = (fst (handleMessages env ms), False)"
  using assms by (simp add: handleMessages_append prod_eq_iff)

section \<open>Examples\<close>

text \<open>A frontend that calls for a session without backends, and a library that can encode the request it sends.\<close>

definition wire_json :: json where
  "wire_json = json_example\<lparr>json_Marshal := (\<lambda>m. Inr [1])\<rparr>"

definition call_session :: session where
  "call_session = (new_session 9 0 0 True)\<lparr>uid := ''7'', frontendID := ''f1'', frontendSessionID := 9, encodedData := [1], sess_ip := ''10.0.0.2''\<rparr>"

definition call_message :: message where
  "call_message = user_message Request (NewRoute ''game'' ''room'' ''join'') [5]"

definition call_request :: request where
  "call_request =
     \<lparr>rq_Type = RPCType_User,
      rq_Session = Some \<lparr>ps_Id = 9, ps_Uid = ''7'', ps_Data = [1], ps_Backends = Some Map.empty, ps_Ip = ''10.0.0.2''\<rparr>,
      rq_FrontendID = ''f1'', rq_Route = ''game.room.join'', rq_Data = [5], rq_MsgType = MsgType_MsgRequest, rq_Reply = [], rq_Id = 0,
      rq_Metadata = [1], rq_hasMsg = True\<rparr>"

lemma call_request_built:
  "buildRequest wire_json (Ctx None) RPCType_User ''game.room.join'' (Some call_session) call_message front_server = Inr call_request"
  by (simp add: buildRequest_def AddListToPropagateCtx_def ctx_Encode_def wire_json_def call_request_def call_session_def
      new_session_def call_message_def user_message_def NewMessage_def GetDataEncoded_def GetBackends_def front_server_def NewServer_def)

definition zero_request :: request where
  "zero_request =
     \<lparr>rq_Type = 0, rq_Session = None, rq_FrontendID = [], rq_Route = [], rq_Data = [], rq_MsgType = 0, rq_Reply = [], rq_Id = 0,
      rq_Metadata = [], rq_hasMsg = False\<rparr>"

definition nats_example :: "(string \<Rightarrow> string \<rightharpoonup> string, nat) nats_env" where
  "nats_example =
     \<lparr>ne_server = front_server, ne_json = wire_json, ne_Publish = (\<lambda>t b P. (P\<lparr>storage := (storage P)(t := [''reply'' \<mapsto> bytes_str b])\<rparr>, None)),
      ne_Request = (\<lambda>t b d P. (P, Inr [3])), ne_timeout = (\<lambda>e. e), ne_Duration_String = (\<lambda>_. ''5s''), ne_ParseDuration = (\<lambda>_. 5),
      ne_NanoID = (\<lambda>P. ''id''),
      ne_Marshal_Request = (\<lambda>r. if r = call_request then Inr [2] else Inl (ErrExternal ''proto'')),
      ne_Unmarshal_Request = (\<lambda>b. if b = [2] then Inr (on_wire call_request) else if b = [] then Inr zero_request
                                   else Inl (ErrExternal ''proto'')),
      ne_Marshal_Response = (\<lambda>r. Inr (resp_Data r)), ne_Unmarshal_Response = (\<lambda>b. Inr \<lparr>resp_Data = b, resp_Status = None\<rparr>),
      ne_Marshal_Push = (\<lambda>_. Inr []), ne_Marshal = (\<lambda>_. Inr []), ne_FromStatus = (\<lambda>_. ErrWrongValueType), ne_Status = (\<lambda>_. 500)\<rparr>"

lemma nats_example_parts [simp]:
  "ne_Marshal_Request nats_example call_request = Inr [2]" "ne_Unmarshal_Request nats_example [2] = Inr (on_wire call_request)"
  "ne_Unmarshal_Request nats_example [] = Inr zero_request" "\<not> rq_hasMsg zero_request"
  by (simp_all add: nats_example_def zero_request_def)

lemma nats_example_proto: "proto_ok nats_example"
  by (auto simp: proto_ok_def nats_example_def split: if_splits)

definition wire_remote :: "(string \<Rightarrow> string \<rightharpoonup> string, nat, byte list) remote_env" where
  "wire_remote = remote_example\<lparr>rm_json := wire_json\<rparr>"

lemma wire_remote_parts [simp]: "rm_json wire_remote = wire_json" "\<not> sv_Frontend (rm_self wire_remote)"
  using remote_example_self by (simp_all add: wire_remote_def)

lemma call_session_parts [simp]:
  "uid call_session = ''7''" "encodedData call_session = [1]" "GetBackends call_session = Map.empty"
  by (simp_all add: call_session_def new_session_def GetBackends_def)

lemma call_user_unknown: "GetSessionByUID backend_pool (uid call_session) = None"
  by (simp add: GetSessionByUID_def backend_pool_def NewSessionPool_def)


lemma wire_remote_session:
  "\<exists>P' a. NewRemote wire_remote 0 5 (rq_Session (on_wire call_request)) [] (rq_FrontendID (on_wire call_request)) backend_pool
     = Some (P', Inr a)"
proof -
  obtain Q where new: "NewSession 0 5 False [''7''] backend_pool = (heap_next backend_pool, True, Q)"
    using call_user_unknown by (simp add: NewSession_def Let_def)
  show ?thesis
    by (simp add: NewRemote_def on_wire_def call_request_def new Let_def SetDataEncoded_def DecodeSessionData_def SetData_def
        updateEncodedData_def EncodeSessionData_def wire_json_def json_example_def)
qed

lemma unbound_user_cannot_bind_witness:
  "\<exists>P' a. NewRemote wire_remote 0 5 (rq_Session (on_wire call_request)) [] (rq_FrontendID (on_wire call_request)) backend_pool
       = Some (P', Inr a) \<and> BindBackend env_example (ra_Session a) ''game'' ''g1'' None P' = None"
proof -
  obtain P' a where new: "NewRemote wire_remote 0 5 (rq_Session (on_wire call_request)) [] (rq_FrontendID (on_wire call_request))
      backend_pool = Some (P', Inr a)" using wire_remote_session by blast
  have "BindBackend env_example (ra_Session a) ''game'' ''g1'' None P' = None"
    by (rule unbound_user_cannot_bind [OF nats_example_proto call_request_built _ _ _ _ call_user_unknown _ new, where wire = "[2]"])
      simp_all
  with new show ?thesis by blast
qed

lemma call_clears_in_flight_witness:
  "\<exists>P' r. nats_Call (nats_example\<lparr>ne_Marshal_Request := (\<lambda>_. Inr [2])\<rparr>)
       \<lparr>nc_connString = ''nats'', nc_connectionTimeout = 1, nc_maxReconnectionRetries = 1, nc_reqTimeout = 5, nc_running = True\<rparr>
       (Ctx None) RPCType_User (NewRoute ''game'' ''room'' ''join'') (Some 0) call_message game_server backend_pool = Some (P', Inr r) \<and>
     resp_Data r = [3] \<and> requestsInFlight (heap P' 0) ''id'' = None"
proof -
  let ?env = "nats_example\<lparr>ne_Marshal_Request := (\<lambda>_. Inr [2])\<rparr>"
  let ?nc = "\<lparr>nc_connString = ''nats'', nc_connectionTimeout = 1, nc_maxReconnectionRetries = 1, nc_reqTimeout = 5, nc_running = True\<rparr>"
  have "\<exists>P' r. nats_Call ?env ?nc (Ctx None) RPCType_User (NewRoute ''game'' ''room'' ''join'') (Some 0) call_message game_server backend_pool
      = Some (P', Inr r) \<and> resp_Data r = [3]"
    by (simp add: nats_Call_def while_in_flight_def call_body_def Let_def nats_example_def buildRequest_def AddListToPropagateCtx_def
        AddToPropagateCtx_def GetFromPropagateCtx_def ctx_Encode_def wire_json_def call_message_def user_message_def NewMessage_def)
  then obtain P' r where call: "nats_Call ?env ?nc (Ctx None) RPCType_User (NewRoute ''game'' ''room'' ''join'') (Some 0) call_message
      game_server backend_pool = Some (P', Inr r)" "resp_Data r = [3]" by blast
  have "ne_NanoID ?env backend_pool = ''id''" by (simp add: nats_example_def)
  then show ?thesis using call call_clears_in_flight [OF call(1)] by auto
qed

lemma request_answered_witness:
  "request_task nats_example (RemoteService_Call wire_remote (NewRemoteService game_server) 0 5)
     \<lparr>hc_values = Ctx None, hc_session = None, hc_logger = None\<rparr> (call_request\<lparr>rq_Route := []\<rparr>) backend_pool = None"
proof -
  have "RouteDecode [] = Inl ErrRouteFieldCantEmpty" by code_simp
  then show ?thesis
    using request_answered [of "call_request\<lparr>rq_Route := []\<rparr>" nats_example wire_remote "NewRemoteService game_server" 0 5]
    by (simp add: call_request_def)
qed

lemma empty_message_stops_server_witness:
  "handleMessages nats_example ([([2], ''r1'')] @ ([], ''r2'') # [([2], ''r3'')]) = ([(on_wire call_request)\<lparr>rq_Reply := ''r1''\<rparr>], False)"
  using empty_message_stops_server [OF nats_example_parts(3,4), of "[([2], ''r1'')]" "''r2''" "[([2], ''r3'')]"]
  by (simp add: on_wire_def call_request_def)

end
