(* ===== verification/Timers.thy ===== *)
theory Timers
  imports Pitaya_Errors
begin

text \<open>
  Timers: \<open>timer/timer.go\<close>, the functions that make them in \<open>timer.go\<close>, and the goroutines that run them, \<open>Dispatch\<close> of \<open>service/handler.go\<close>, of
  which \<open>app.go\<close> starts several. A timer made with a count runs at most that often when one such goroutine runs, and at most one time more for each further
  goroutine, in every interleaving. More than one goroutine does run a timer too often, a timer that was stopped can run again,
  and a timer with a condition can run before its condition is set.
\<close>

section \<open>Timers\<close>

record timer =
  tm_ID :: i64
  tm_fn :: nat
  tm_createAt :: i64
  tm_interval :: i64
  tm_condition :: "nat option"
  tm_elapse :: i64
  tm_closed :: bool
  tm_counter :: i64

abbreviation LoopForever :: i64 where "LoopForever \<equiv> - 1"

text \<open>
  The manager. Timers are addresses, since the channels and the table share them. The two channels hold what is queued in them; \<open>tg_runs\<close> is the history of the
  timers whose function was called.
\<close>

record timers =
  tg_heap :: "nat \<Rightarrow> timer"
  tg_next :: nat
  tg_incrementID :: i64
  tg_timers :: "i64 \<rightharpoonup> nat"
  tg_closing :: "i64 list"
  tg_created :: "nat list"
  tg_backlog :: int
  tg_runs :: "nat list"

text \<open>Both channels are made once, with the backlog of the beginning.\<close>

definition channel_size :: nat where
  "channel_size = 256"

definition timers_init :: "timer \<Rightarrow> timers" where
  "timers_init t0 =
     \<lparr>tg_heap = (\<lambda>_. t0), tg_next = 0, tg_incrementID = 0, tg_timers = Map.empty, tg_closing = [], tg_created = [],
      tg_backlog = 256, tg_runs = []\<rparr>"

definition upd_timer :: "nat \<Rightarrow> (timer \<Rightarrow> timer) \<Rightarrow> timers \<Rightarrow> timers" where
  "upd_timer a f m = m\<lparr>tg_heap := (tg_heap m)(a := f (tg_heap m a))\<rparr>"

definition AddTimer :: "nat \<Rightarrow> timers \<Rightarrow> timers" where
  "AddTimer a m = m\<lparr>tg_timers := (tg_timers m)(tm_ID (tg_heap m a) \<mapsto> a)\<rparr>"

definition RemoveTimer :: "i64 \<Rightarrow> timers \<Rightarrow> timers" where
  "RemoveTimer ident m = m\<lparr>tg_timers := (tg_timers m)(ident := None)\<rparr>"

definition SetCondition :: "nat \<Rightarrow> nat \<Rightarrow> timers \<Rightarrow> timers" where
  "SetCondition a c m = upd_timer a (\<lambda>t. t\<lparr>tm_condition := Some c\<rparr>) m"

definition SetTimerBacklog :: "int \<Rightarrow> timers \<Rightarrow> timers" where
  "SetTimerBacklog c m = m\<lparr>tg_backlog := (if c < 16 then 16 else c)\<rparr>"

text \<open>The precision of the ticker, in nanoseconds; \<open>None\<close> is the panic below a millisecond.\<close>

definition SetTimerPrecision :: "i64 \<Rightarrow> i64 option" where
  "SetTimerPrecision precision = (if precision <s 1000000 then None else Some precision)"

section \<open>Making timers\<close>

text \<open>
  What a goroutine does is a list of actions, so that the goroutines can take turns between them. A function that makes a timer sends it to the manager,
  once in \<open>timer.NewTimer\<close> and a second time in \<open>NewCountTimer\<close>.
\<close>

datatype timer_op =
    OpCount i64 i64 i64 "nat option" | OpCond i64 "nat option" "nat option" | OpStop nat | OpSetCondition nat nat | OpBacklog int

datatype action =
    ASend nat | ASetCondition nat nat
  | AStop nat | ASendClosing nat | AClose nat
  | AOps "timer_op list" | AVisit i64 i64 | ACount nat

definition timer_NewTimer :: "i64 \<Rightarrow> nat \<Rightarrow> i64 \<Rightarrow> i64 \<Rightarrow> timers \<Rightarrow> nat \<times> timers \<times> action list" where
  "timer_NewTimer now fn interval counter m =
     (let ident = tg_incrementID m + 1;
          a = tg_next m;
          t = \<lparr>tm_ID = ident, tm_fn = fn, tm_createAt = now, tm_interval = interval, tm_condition = None, tm_elapse = interval,
               tm_closed = False, tm_counter = counter\<rparr>
      in (a, m\<lparr>tg_incrementID := ident, tg_next := a + 1, tg_heap := (tg_heap m)(a := t)\<rparr>, [ASend a]))"

text \<open>\<open>None\<close> is the panic, without a function or with an interval that is not positive.\<close>

definition NewCountTimer :: "i64 \<Rightarrow> i64 \<Rightarrow> i64 \<Rightarrow> nat option \<Rightarrow> timers \<Rightarrow> (nat \<times> timers \<times> action list) option" where
  "NewCountTimer now interval count fn m =
     (case fn of
        None \<Rightarrow> None
      | Some f \<Rightarrow>
          if interval \<le>s 0 then None
          else case timer_NewTimer now f interval count m of (a, m, acts) \<Rightarrow> Some (a, m, acts @ [ASend a]))"

definition NewTimer :: "i64 \<Rightarrow> i64 \<Rightarrow> nat option \<Rightarrow> timers \<Rightarrow> (nat \<times> timers \<times> action list) option" where
  "NewTimer now interval fn m = NewCountTimer now interval LoopForever fn m"

definition NewAfterTimer :: "i64 \<Rightarrow> i64 \<Rightarrow> nat option \<Rightarrow> timers \<Rightarrow> (nat \<times> timers \<times> action list) option" where
  "NewAfterTimer now duration fn m = NewCountTimer now duration 1 fn m"

abbreviation MaxInt64 :: i64 where "MaxInt64 \<equiv> 0x7FFFFFFFFFFFFFFF"

definition NewCondTimer :: "i64 \<Rightarrow> nat option \<Rightarrow> nat option \<Rightarrow> timers \<Rightarrow> (nat \<times> timers \<times> action list) res option" where
  "NewCondTimer now condition fn m =
     (case condition of
        None \<Rightarrow> Some (Inl ErrNilCondition)
      | Some c \<Rightarrow>
          map_option (\<lambda>(a, m, acts). Inr (a, m, acts @ [ASetCondition a c])) (NewCountTimer now MaxInt64 LoopForever fn m))"

text \<open>What a program does with timers, \<open>None\<close> being a panic. A timer that was not made cannot be used.\<close>

fun start_op :: "timer_op \<Rightarrow> timers \<Rightarrow> (timers \<times> action list) option" where
  "start_op (OpCount now interval count fn) m = map_option snd (NewCountTimer now interval count fn m)"
| "start_op (OpCond now c fn) m =
     map_option (\<lambda>r. case r of Inl e \<Rightarrow> (m, []) | Inr (a, m, acts) \<Rightarrow> (m, acts)) (NewCondTimer now c fn m)"
| "start_op (OpStop a) m = (if a < tg_next m then Some (m, [AStop a]) else None)"
| "start_op (OpSetCondition a c) m = (if a < tg_next m then Some (m, [ASetCondition a c]) else None)"
| "start_op (OpBacklog c) m = Some (SetTimerBacklog c m, [])"

section \<open>Running timers\<close>

text \<open>The functions of timers, as what they do with timers, and the conditions.\<close>

record timer_env =
  te_run :: "nat \<Rightarrow> timers \<Rightarrow> timer_op list"
  te_check :: "nat \<Rightarrow> i64 \<Rightarrow> bool"

text \<open>\<open>pexec\<close> calls the function of a timer; a panic in it ends the function and is recovered.\<close>

definition pexec :: "timer_env \<Rightarrow> nat \<Rightarrow> timers \<Rightarrow> timers \<times> action list" where
  "pexec env a m = (m\<lparr>tg_runs := tg_runs m @ [a]\<rparr>, [AOps (te_run env (tm_fn (tg_heap m a)) m)])"

definition count_down :: "timer \<Rightarrow> timer" where
  "count_down t =
     t\<lparr>tm_elapse := tm_elapse t + tm_interval t,
       tm_counter := (if tm_counter t \<noteq> LoopForever \<and> 0 <s tm_counter t then tm_counter t - 1 else tm_counter t)\<rparr>"

text \<open>What \<open>Cron\<close> does with one timer, up to the call of its function.\<close>

definition cron_visit :: "timer_env \<Rightarrow> i64 \<Rightarrow> nat \<Rightarrow> timers \<Rightarrow> timers \<times> action list" where
  "cron_visit env now a m =
     (let t = tg_heap m a in
      if tm_counter t = 0 then
        (m, if int (length (tg_closing m)) < tg_backlog m then [AStop a] else [])
      else case tm_condition t of
        Some c \<Rightarrow> if te_check env c now then pexec env a m else (m, [])
      | None \<Rightarrow>
          if tm_createAt t + tm_elapse t \<le>s now
          then (case pexec env a m of (m, acts) \<Rightarrow> (m, acts @ [ACount a]))
          else (m, []))"

text \<open>\<open>Stop\<close> up to its send to the channel of closing timers.\<close>

definition timer_Stop :: "nat \<Rightarrow> timers \<Rightarrow> timers \<times> action list" where
  "timer_Stop a m =
     (if tm_closed (tg_heap m a) then (m, [])
      else if int (length (tg_closing m)) < tg_backlog m then (m, [ASendClosing a, AClose a])
      else (upd_timer a (\<lambda>t. t\<lparr>tm_counter := 0\<rparr>) m, []))"

text \<open>One action, with the actions it leads to. \<open>None\<close> is a send that has to wait for room in its channel.\<close>

fun do_action :: "timer_env \<Rightarrow> action \<Rightarrow> timers \<Rightarrow> (timers \<times> action list) option" where
  "do_action env (ASend a) m =
     (if length (tg_created m) < channel_size then Some (m\<lparr>tg_created := tg_created m @ [a]\<rparr>, []) else None)"
| "do_action env (ASetCondition a c) m = Some (SetCondition a c m, [])"
| "do_action env (AStop a) m = Some (timer_Stop a m)"
| "do_action env (ASendClosing a) m =
     (if length (tg_closing m) < channel_size then Some (m\<lparr>tg_closing := tg_closing m @ [tm_ID (tg_heap m a)]\<rparr>, []) else None)"
| "do_action env (AClose a) m = Some (upd_timer a (\<lambda>t. t\<lparr>tm_closed := True\<rparr>) m, [])"
| "do_action env (AOps []) m = Some (m, [])"
| "do_action env (AOps (x # xs)) m =
     Some (case start_op x m of None \<Rightarrow> (m, []) | Some (m, acts) \<Rightarrow> (m, acts @ [AOps xs]))"
| "do_action env (AVisit now ident) m =
     Some (case tg_timers m ident of None \<Rightarrow> (m, []) | Some a \<Rightarrow> cron_visit env now a m)"
| "do_action env (ACount a) m = Some (upd_timer a count_down m, [])"

text \<open>\<open>Cron\<close> visits the table in any order. Entries may come and go while it does, so that any identifiers may be visited; one that is not in the table when its turn comes is left out.\<close>

definition Cron :: "i64 \<Rightarrow> i64 list \<Rightarrow> action list" where
  "Cron now ids = map (AVisit now) ids"

text \<open>
  The goroutines: those of \<open>Dispatch\<close>, which take a tick, a created timer or a closing timer when they have nothing left to do, and those of the
  program, which come and go.
\<close>

record dispatching =
  ds_manager :: timers
  ds_dispatch :: "action list list"
  ds_others :: "action list list"

definition dispatching_init :: "timer \<Rightarrow> nat \<Rightarrow> dispatching" where
  "dispatching_init t0 k = \<lparr>ds_manager = timers_init t0, ds_dispatch = replicate k [], ds_others = []\<rparr>"

datatype timer_event =
    Tick nat i64 "i64 list" | Created nat | Closing nat | Dispatched nat | Begin "timer_op list" | Other nat

text \<open>One step of the goroutines, \<open>None\<close> when the goroutine cannot take it.\<close>

fun dispatch_step :: "timer_env \<Rightarrow> timer_event \<Rightarrow> dispatching \<Rightarrow> dispatching option" where
  "dispatch_step env (Tick i now ids) s =
     (if i < length (ds_dispatch s) \<and> ds_dispatch s ! i = [] \<and> distinct ids
      then Some (s\<lparr>ds_dispatch := (ds_dispatch s)[i := Cron now ids]\<rparr>)
      else None)"
| "dispatch_step env (Created i) s =
     (if i < length (ds_dispatch s) \<and> ds_dispatch s ! i = []
      then case tg_created (ds_manager s) of
          [] \<Rightarrow> None
        | a # as \<Rightarrow> Some (s\<lparr>ds_manager := AddTimer a ((ds_manager s)\<lparr>tg_created := as\<rparr>)\<rparr>)
      else None)"
| "dispatch_step env (Closing i) s =
     (if i < length (ds_dispatch s) \<and> ds_dispatch s ! i = []
      then case tg_closing (ds_manager s) of
          [] \<Rightarrow> None
        | ident # ids \<Rightarrow> Some (s\<lparr>ds_manager := RemoveTimer ident ((ds_manager s)\<lparr>tg_closing := ids\<rparr>)\<rparr>)
      else None)"
| "dispatch_step env (Dispatched i) s =
     (if i < length (ds_dispatch s)
      then case ds_dispatch s ! i of
          [] \<Rightarrow> None
        | x # xs \<Rightarrow>
            map_option (\<lambda>(m, acts). s\<lparr>ds_manager := m, ds_dispatch := (ds_dispatch s)[i := acts @ xs]\<rparr>)
              (do_action env x (ds_manager s))
      else None)"
| "dispatch_step env (Begin ops) s = Some (s\<lparr>ds_others := ds_others s @ [[AOps ops]]\<rparr>)"
| "dispatch_step env (Other i) s =
     (if i < length (ds_others s)
      then case ds_others s ! i of
          [] \<Rightarrow> None
        | x # xs \<Rightarrow>
            map_option (\<lambda>(m, acts). s\<lparr>ds_manager := m, ds_others := (ds_others s)[i := acts @ xs]\<rparr>)
              (do_action env x (ds_manager s))
      else None)"

fun dispatch_run :: "timer_env \<Rightarrow> timer_event list \<Rightarrow> dispatching \<Rightarrow> dispatching option" where
  "dispatch_run env [] s = Some s"
| "dispatch_run env (e # es) s = (case dispatch_step env e s of None \<Rightarrow> None | Some s \<Rightarrow> dispatch_run env es s)"

section \<open>How often a timer runs\<close>

fun is_visit :: "action \<Rightarrow> bool" where
  "is_visit (AVisit now ident) = True"
| "is_visit _ = False"

fun is_count :: "action \<Rightarrow> bool" where
  "is_count (ACount a) = True"
| "is_count _ = False"

text \<open>The actions a program leads to: neither visits nor counts.\<close>

abbreviation plain :: "action \<Rightarrow> bool" where
  "plain x \<equiv> \<not> is_visit x \<and> \<not> is_count x"

fun visits_last :: "action list \<Rightarrow> bool" where
  "visits_last [] = True"
| "visits_last (x # xs) = (if is_visit x then list_all is_visit xs else visits_last xs)"

definition dispatch_ok :: "action list \<Rightarrow> bool" where
  "dispatch_ok xs \<longleftrightarrow> visits_last xs \<and> length (filter is_count xs) \<le> 1"

lemma visits_last_append: "list_all (\<lambda>x. \<not> is_visit x) xs \<Longrightarrow> visits_last (xs @ ys) = visits_last ys"
  by (induction xs) auto

lemma visits_visits_last: "list_all is_visit xs \<Longrightarrow> visits_last xs"
  by (cases xs) auto

lemma visits_no_count: "list_all is_visit xs \<Longrightarrow> filter is_count xs = []"
proof (induction xs)
  case (Cons x xs)
  then show ?case by (cases x) auto
qed simp

lemma plain_no_count: "list_all plain xs \<Longrightarrow> filter is_count xs = []"
  by (induction xs) auto

lemma count_list_filter: "count_list xs (ACount a) \<le> length (filter is_count xs)"
  by (induction xs) auto

lemma count_list_plain: "list_all plain xs \<Longrightarrow> count_list xs (ACount a) = 0"
  using count_list_filter [of xs a] by (simp add: plain_no_count)

lemma dispatch_ok_Cron: "dispatch_ok (Cron now ids)"
proof -
  have "list_all is_visit (Cron now ids)" by (simp add: Cron_def list_all_iff)
  then show ?thesis by (simp add: dispatch_ok_def visits_visits_last visits_no_count)
qed

lemma dispatch_ok_plain:
  assumes "dispatch_ok (x # xs)" "\<not> is_visit x" "list_all plain acts"
  shows "dispatch_ok (acts @ xs)"
  using assms visits_last_append [of acts xs] plain_no_count [of acts]
  by (auto simp: dispatch_ok_def list_all_iff split: if_splits)

lemma dispatch_ok_visit:
  assumes "dispatch_ok (x # xs)" "is_visit x" "list_all (\<lambda>y. \<not> is_visit y) acts" "length (filter is_count acts) \<le> 1"
  shows "dispatch_ok (acts @ xs)"
  using assms visits_last_append [of acts xs]
  by (simp add: dispatch_ok_def visits_visits_last visits_no_count)

text \<open>What one action does to a timer that exists.\<close>

lemma start_op_runs:
  assumes "start_op op m = Some (m', acts)"
  shows "tg_runs m' = tg_runs m" "tg_created m' = tg_created m" "tg_timers m' = tg_timers m" "tg_next m \<le> tg_next m'"
    and "list_all plain acts"
  using assms
  by (cases op; auto simp: NewCountTimer_def NewCondTimer_def timer_NewTimer_def SetTimerBacklog_def Let_def
      split: option.splits if_splits)+

lemma start_op_timer:
  assumes "start_op op m = Some (m', acts)" "a < tg_next m"
  shows "tg_heap m' a = tg_heap m a" "tg_runs m' = tg_runs m" "a < tg_next m'" "list_all plain acts"
  using assms
  by (cases op; auto simp: NewCountTimer_def NewCondTimer_def timer_NewTimer_def SetTimerBacklog_def Let_def
      split: option.splits if_splits)+

lemma plain_action:
  assumes "do_action env x m = Some (m', acts)" "plain x" "a < tg_next m"
  shows "list_all plain acts" "tg_runs m' = tg_runs m" "a < tg_next m'"
    and "tm_condition (tg_heap m' a) = None \<Longrightarrow>
      tm_condition (tg_heap m a) = None \<and> tm_counter (tg_heap m' a) \<in> {tm_counter (tg_heap m a), 0}"
proof -
  have "list_all plain acts \<and> tg_runs m' = tg_runs m \<and> a < tg_next m' \<and>
    (tm_condition (tg_heap m' a) = None \<longrightarrow>
      tm_condition (tg_heap m a) = None \<and> tm_counter (tg_heap m' a) \<in> {tm_counter (tg_heap m a), 0})"
  proof (cases "\<exists>op ops. x = AOps (op # ops)")
    case True
    then obtain op ops where x: "x = AOps (op # ops)" by blast
    show ?thesis
    proof (cases "start_op op m")
      case None
      then show ?thesis using assms x by simp
    next
      case (Some p)
      obtain n bs where p: "p = (n, bs)" by (cases p)
      show ?thesis
        using assms x Some p start_op_timer [of op m n bs a] by auto
    qed
  next
    case False
    then show ?thesis
      using assms
      by (cases "(env, x, m)" rule: do_action.cases)
        (auto simp: SetCondition_def upd_timer_def timer_Stop_def split: if_splits)
  qed
  then show "list_all plain acts" "tg_runs m' = tg_runs m" "a < tg_next m'"
    and "tm_condition (tg_heap m' a) = None \<Longrightarrow>
      tm_condition (tg_heap m a) = None \<and> tm_counter (tg_heap m' a) \<in> {tm_counter (tg_heap m a), 0}"
    by blast+
qed

lemma visit_action:
  assumes "do_action env (AVisit now ident) m = Some (m', acts)"
  shows "tg_heap m' = tg_heap m" "tg_next m' = tg_next m"
    and "list_all (\<lambda>y. \<not> is_visit y) acts" "length (filter is_count acts) \<le> 1"
    and "tm_condition (tg_heap m a) = None \<Longrightarrow>
      tg_runs m' = tg_runs m \<and> count_list acts (ACount a) = 0 \<or>
      count_list (tg_runs m') a = count_list (tg_runs m) a \<and> count_list acts (ACount a) = 0 \<or>
      count_list (tg_runs m') a = count_list (tg_runs m) a + 1 \<and> count_list acts (ACount a) = 1 \<and> tm_counter (tg_heap m a) \<noteq> 0"
  using assms
  by (auto simp: cron_visit_def pexec_def Let_def split: option.splits if_splits)

lemma sum_list_one_zero:
  assumes "\<forall>x\<in>set xs. f x \<le> (1::nat)" "i < length xs" "f (xs ! i) = 0"
  shows "sum_list (map f xs) \<le> length xs - 1"
  using assms
proof (induction xs arbitrary: i)
  case (Cons x xs)
  have all: "sum_list (map f xs) \<le> length xs"
    using sum_list_mono [of xs f "\<lambda>_. 1"] Cons.prems(1) by (simp add: sum_list_triv)
  show ?case
  proof (cases i)
    case 0
    then show ?thesis using all Cons.prems(3) by simp
  next
    case (Suc j)
    then have "sum_list (map f xs) \<le> length xs - 1" "0 < length xs" using Cons.IH [of j] Cons.prems by auto
    moreover have "f x \<le> 1" using Cons.prems(1) by simp
    ultimately have "f x + sum_list (map f xs) \<le> length xs" by linarith
    then show ?thesis by simp
  qed
qed simp

definition pending :: "nat \<Rightarrow> action list list \<Rightarrow> nat" where
  "pending a ds = sum_list (map (\<lambda>xs. count_list xs (ACount a)) ds)"

lemma pending_update:
  assumes "i < length ds"
  shows "pending a (ds[i := ys]) + count_list (ds ! i) (ACount a) = pending a ds + count_list ys (ACount a)"
proof -
  let ?f = "\<lambda>xs. count_list xs (ACount a)"
  have "?f (ds ! i) \<le> sum_list (map ?f ds)"
    using member_le_sum_list [of "?f (ds ! i)" "map ?f ds"] assms by simp
  then show ?thesis
    using assms sum_list_update [of i "map ?f ds" "?f ys"] by (simp add: pending_def map_update)
qed

lemma pending_bound:
  assumes "\<forall>xs\<in>set ds. dispatch_ok xs" "i < length ds" "count_list (ds ! i) (ACount a) = 0"
  shows "pending a ds \<le> length ds - 1"
  unfolding pending_def
proof (rule sum_list_one_zero)
  show "\<forall>xs\<in>set ds. count_list xs (ACount a) \<le> 1"
    using assms(1) count_list_filter [of _ a] by (fastforce simp: dispatch_ok_def intro: order_trans)
qed (use assms in auto)

text \<open>
  A timer made to run \<open>n\<close> times, with \<open>k\<close> goroutines to run it: while it has turns left, the turns it had and has left are \<open>n\<close>, but for the goroutines that
  called its function and have not counted that yet.
\<close>

definition turns_ok :: "int \<Rightarrow> nat \<Rightarrow> nat \<Rightarrow> nat \<Rightarrow> timers \<Rightarrow> bool" where
  "turns_ok n k a p m \<longleftrightarrow>
     (tm_condition (tg_heap m a) = None \<longrightarrow>
       0 \<le> sint (tm_counter (tg_heap m a)) \<and>
       (tm_counter (tg_heap m a) \<noteq> 0 \<longrightarrow> int (count_list (tg_runs m) a) + sint (tm_counter (tg_heap m a)) \<le> n + int p) \<and>
       int (count_list (tg_runs m) a) \<le> n + int (k - 1))"

definition count_inv :: "int \<Rightarrow> nat \<Rightarrow> nat \<Rightarrow> dispatching \<Rightarrow> bool" where
  "count_inv n k a s \<longleftrightarrow>
     a < tg_next (ds_manager s) \<and> length (ds_dispatch s) = k \<and> (\<forall>xs\<in>set (ds_dispatch s). dispatch_ok xs) \<and>
     (\<forall>xs\<in>set (ds_others s). list_all plain xs) \<and> turns_ok n k a (pending a (ds_dispatch s)) (ds_manager s)"

lemma turns_ok_plain:
  assumes "turns_ok n k a p m" "do_action env x m = Some (m', acts)" "plain x" "a < tg_next m"
  shows "turns_ok n k a p m'"
  using assms(1) plain_action [OF assms(2-4)] by (auto simp: turns_ok_def)

lemma sint_zero_iff: "sint w = 0 \<longleftrightarrow> w = (0::i64)"
  by (metis signed_word_eqI sint_0)

lemma count_down_counter:
  assumes "0 \<le> sint (tm_counter t)"
  shows "sint (tm_counter (count_down t)) = (if tm_counter t = 0 then 0 else sint (tm_counter t) - 1)"
proof (cases "tm_counter t = 0")
  case True
  then show ?thesis by (simp add: count_down_def)
next
  case False
  let ?c = "tm_counter t"
  have pos: "0 < sint ?c" using assms False sint_zero_iff [of ?c] by linarith
  then have "?c \<noteq> LoopForever" by auto
  moreover have "sint (?c - 1) = sint ?c - 1"
  proof -
    have "sint ?c < 2 ^ 63" using sint_lt [of ?c] by simp
    then have "signed_take_bit 63 (sint ?c - 1) = sint ?c - 1" using pos by (simp add: signed_take_bit_int_eq_self)
    then show ?thesis by (simp add: sint_word_ariths)
  qed
  ultimately show ?thesis using pos False by (simp add: count_down_def word_sless_alt)
qed

lemma turns_ok_count:
  assumes "turns_ok n k a (Suc p) m"
  shows "turns_ok n k a p (upd_timer a count_down m)"
proof -
  let ?t = "tg_heap m a"
  have cond: "tm_condition (count_down ?t) = tm_condition ?t" by (simp add: count_down_def)
  show ?thesis
    using assms count_down_counter [of ?t] sint_zero_iff [of "tm_counter ?t"] sint_zero_iff [of "tm_counter (count_down ?t)"]
    by (auto simp: turns_ok_def upd_timer_def cond)
qed

lemma turns_ok_visit:
  assumes "turns_ok n k a p m" "do_action env (AVisit now ident) m = Some (m', acts)" "p \<le> k - 1"
  shows "turns_ok n k a (p + count_list acts (ACount a)) m'"
proof (cases "tm_condition (tg_heap m a) = None")
  case True
  let ?c = "tm_counter (tg_heap m a)"
  have heap: "tg_heap m' = tg_heap m" using visit_action(1) [OF assms(2)] .
  consider (same) "count_list (tg_runs m') a = count_list (tg_runs m) a" "count_list acts (ACount a) = 0"
    | (run) "count_list (tg_runs m') a = count_list (tg_runs m) a + 1" "count_list acts (ACount a) = 1" "?c \<noteq> 0"
    using visit_action(5) [OF assms(2) True] by auto
  then show ?thesis
  proof cases
    case same
    then show ?thesis using assms(1) heap by (simp add: turns_ok_def)
  next
    case run
    have "0 < sint ?c" using assms(1) True run(3) sint_zero_iff [of ?c] by (simp add: turns_ok_def)
    then show ?thesis using assms(1,3) heap run by (auto simp: turns_ok_def)
  qed
next
  case False
  then show ?thesis using visit_action(1) [OF assms(2)] by (auto simp: turns_ok_def)
qed

lemma turns_ok_other:
  assumes "turns_ok n k a p m" "a \<noteq> b"
  shows "turns_ok n k a p (upd_timer b f m)"
  using assms by (simp add: turns_ok_def upd_timer_def)

lemma count_inv_dispatched:
  assumes inv: "count_inv n k a s" and i: "i < length (ds_dispatch s)" and hd: "ds_dispatch s ! i = x # xs"
    and act: "do_action env x (ds_manager s) = Some (m, acts)"
  shows "count_inv n k a (s\<lparr>ds_manager := m, ds_dispatch := (ds_dispatch s)[i := acts @ xs]\<rparr>)"
proof -
  let ?p = "pending a (ds_dispatch s)" and ?p' = "pending a ((ds_dispatch s)[i := acts @ xs])"
  have a: "a < tg_next (ds_manager s)" and turns: "turns_ok n k a ?p (ds_manager s)"
    and len: "length (ds_dispatch s) = k" and all: "\<forall>ys\<in>set (ds_dispatch s). dispatch_ok ys"
    using inv by (auto simp: count_inv_def)
  have ok: "dispatch_ok (x # xs)" using all i hd by (metis nth_mem)
  have upd: "?p' + count_list (x # xs) (ACount a) = ?p + count_list acts (ACount a) + count_list xs (ACount a)"
    using pending_update [OF i, of a "acts @ xs"] hd by simp
  have "dispatch_ok (acts @ xs) \<and> a < tg_next m \<and> turns_ok n k a ?p' m"
  proof (cases x)
    case (AVisit now ident)
    have vis: "do_action env (AVisit now ident) (ds_manager s) = Some (m, acts)" using act AVisit by simp
    have none: "count_list (ds_dispatch s ! i) (ACount a) = 0"
    proof -
      have "list_all is_visit xs" using ok AVisit by (simp add: dispatch_ok_def)
      then show ?thesis using visits_no_count [of xs] count_list_filter [of xs a] hd AVisit by simp
    qed
    have "?p \<le> k - 1" using pending_bound [OF all i none] len by simp
    moreover have "?p' = ?p + count_list acts (ACount a)" using upd none hd by (simp split: if_splits)
    ultimately show ?thesis
      using turns_ok_visit [OF turns vis] visit_action(2-4) [OF vis] dispatch_ok_visit [OF ok, of acts] a AVisit by simp
  next
    case (ACount b)
    have m: "m = upd_timer b count_down (ds_manager s)" "acts = []" using act ACount by auto
    have next_m: "a < tg_next m" using a m by (simp add: upd_timer_def)
    have "dispatch_ok (acts @ xs)" using ok ACount m(2) by (simp add: dispatch_ok_def)
    moreover have "turns_ok n k a ?p' m"
    proof (cases "a = b")
      case True
      then have "?p = Suc ?p'" using upd ACount m(2) by simp
      then show ?thesis using turns turns_ok_count True m(1) by metis
    next
      case False
      then have "?p' = ?p" using upd ACount m(2) by simp
      then show ?thesis using turns turns_ok_other [OF _ False] m(1) by simp
    qed
    ultimately show ?thesis using next_m by simp
  qed (use act turns upd count_list_plain [of acts a] turns_ok_plain [OF turns act _ a] plain_action(1,3) [OF act _ a]
        dispatch_ok_plain [OF ok, of acts] in auto)
  then show ?thesis
    using inv i by (auto simp: count_inv_def dest!: set_update_subset_insert [THEN subsetD])
qed

lemma count_inv_step:
  assumes inv: "count_inv n k a s" and step: "dispatch_step env e s = Some s'"
  shows "count_inv n k a s'"
proof (cases e)
  case (Tick i now ids)
  then have i: "i < length (ds_dispatch s)" "ds_dispatch s ! i = []"
    and s': "s' = s\<lparr>ds_dispatch := (ds_dispatch s)[i := Cron now ids]\<rparr>" using step by (auto split: if_splits)
  have none: "count_list (Cron now ids) (ACount a) = 0" by (auto simp: Cron_def count_list_0_iff)
  have "pending a ((ds_dispatch s)[i := Cron now ids]) = pending a (ds_dispatch s)"
    using pending_update [OF i(1), of a "Cron now ids"] i(2) none by simp
  then show ?thesis
    using inv s' dispatch_ok_Cron by (auto simp: count_inv_def dest!: set_update_subset_insert [THEN subsetD])
next
  case (Dispatched i)
  then obtain x xs m acts where "i < length (ds_dispatch s)" "ds_dispatch s ! i = x # xs"
    "do_action env x (ds_manager s) = Some (m, acts)"
    and "s' = s\<lparr>ds_manager := m, ds_dispatch := (ds_dispatch s)[i := acts @ xs]\<rparr>"
    using step by (auto split: if_splits list.splits)
  then show ?thesis using count_inv_dispatched [OF inv] by simp
next
  case (Other i)
  then obtain x xs m acts where i: "i < length (ds_others s)" and hd: "ds_others s ! i = x # xs"
    and act: "do_action env x (ds_manager s) = Some (m, acts)"
    and s': "s' = s\<lparr>ds_manager := m, ds_others := (ds_others s)[i := acts @ xs]\<rparr>"
    using step by (auto split: if_splits list.splits)
  have "list_all plain (x # xs)" using inv i hd by (metis count_inv_def nth_mem)
  then have x: "plain x" and xs: "list_all plain xs" by auto
  have a: "a < tg_next (ds_manager s)" and turns: "turns_ok n k a (pending a (ds_dispatch s)) (ds_manager s)"
    using inv by (auto simp: count_inv_def)
  show ?thesis
    using inv s' xs turns_ok_plain [OF turns act x a] plain_action(1,3) [OF act x a]
    by (auto simp: count_inv_def dest!: set_update_subset_insert [THEN subsetD])
qed (use assms in \<open>auto simp: count_inv_def turns_ok_def AddTimer_def RemoveTimer_def split: if_splits list.splits\<close>)

lemma count_inv_run:
  "count_inv n k a s \<Longrightarrow> dispatch_run env es s = Some s' \<Longrightarrow> count_inv n k a s'"
  by (induction es arbitrary: s) (auto split: option.splits dest: count_inv_step)

text \<open>Every timer that is queued, in the table, to be worked on, or was run, was made.\<close>

fun known :: "nat \<Rightarrow> action \<Rightarrow> bool" where
  "known N (ASend a) \<longleftrightarrow> a < N"
| "known N (ASetCondition a c) \<longleftrightarrow> a < N"
| "known N (AStop a) \<longleftrightarrow> a < N"
| "known N (ASendClosing a) \<longleftrightarrow> a < N"
| "known N (AClose a) \<longleftrightarrow> a < N"
| "known N (AOps ops) \<longleftrightarrow> True"
| "known N (AVisit now ident) \<longleftrightarrow> True"
| "known N (ACount a) \<longleftrightarrow> a < N"

definition manager_wf :: "timers \<Rightarrow> bool" where
  "manager_wf m \<longleftrightarrow>
     (\<forall>a\<in>set (tg_runs m). a < tg_next m) \<and> (\<forall>a\<in>set (tg_created m). a < tg_next m) \<and>
     (\<forall>i a. tg_timers m i = Some a \<longrightarrow> a < tg_next m)"

definition dispatch_wf :: "dispatching \<Rightarrow> bool" where
  "dispatch_wf s \<longleftrightarrow>
     manager_wf (ds_manager s) \<and>
     (\<forall>xs\<in>set (ds_dispatch s). dispatch_ok xs \<and> list_all (known (tg_next (ds_manager s))) xs) \<and>
     (\<forall>xs\<in>set (ds_others s). list_all plain xs \<and> list_all (known (tg_next (ds_manager s))) xs)"

lemma known_mono: "known N x \<Longrightarrow> N \<le> N' \<Longrightarrow> known N' x"
  by (cases x) auto

lemma known_mono_list: "list_all (known N) xs \<Longrightarrow> N \<le> N' \<Longrightarrow> list_all (known N') xs"
  by (auto simp: list_all_iff intro: known_mono)

lemma start_op_known: "start_op op m = Some (m', acts) \<Longrightarrow> list_all (known (tg_next m')) acts"
  by (cases op)
    (auto simp: NewCountTimer_def NewCondTimer_def timer_NewTimer_def Let_def split: option.splits if_splits)

lemma do_action_wf:
  assumes "manager_wf m" "known (tg_next m) x" "do_action env x m = Some (m', acts)"
  shows "manager_wf m'" "list_all (known (tg_next m')) acts" "tg_next m \<le> tg_next m'"
proof -
  have "manager_wf m' \<and> list_all (known (tg_next m')) acts \<and> tg_next m \<le> tg_next m'"
  proof (cases "\<exists>op ops. x = AOps (op # ops)")
    case True
    then obtain op ops where x: "x = AOps (op # ops)" by blast
    show ?thesis
    proof (cases "start_op op m")
      case None
      then show ?thesis using assms x by simp
    next
      case (Some p)
      obtain n bs where p: "p = (n, bs)" by (cases p)
      have "start_op op m = Some (n, bs)" using Some p by simp
      note facts = start_op_runs [OF this] start_op_known [OF this]
      have "m' = n" "acts = bs @ [AOps ops]" using assms(3) x Some p by auto
      then show ?thesis using facts assms(1) by (fastforce simp: manager_wf_def)
    qed
  next
    case False
    then show ?thesis
      using assms
      by (cases "(env, x, m)" rule: do_action.cases)
        (auto simp: manager_wf_def SetCondition_def upd_timer_def timer_Stop_def cron_visit_def pexec_def Let_def
          split: if_splits option.splits)
  qed
  then show "manager_wf m'" "list_all (known (tg_next m')) acts" "tg_next m \<le> tg_next m'" by blast+
qed

text \<open>Timers are only made by programs: that neither runs nor counts a timer.\<close>

lemma creating_action:
  assumes "do_action env x m = Some (m', acts)" "tg_next m < tg_next m'"
  shows "plain x" "tg_runs m' = tg_runs m" "list_all plain acts"
proof -
  have "\<exists>op ops. x = AOps (op # ops)"
    using assms
    by (cases "(env, x, m)" rule: do_action.cases)
      (auto simp: SetCondition_def upd_timer_def timer_Stop_def cron_visit_def pexec_def Let_def
        split: if_splits option.splits)
  then obtain op ops where x: "x = AOps (op # ops)" by blast
  then obtain bs where "start_op op m = Some (m', bs)" "acts = bs @ [AOps ops]"
    using assms by (auto split: option.splits)
  then show "plain x" "tg_runs m' = tg_runs m" "list_all plain acts"
    using start_op_runs(1,5) x by auto
qed

lemma plain_acts:
  assumes "do_action env x m = Some (m', acts)" "plain x"
  shows "list_all plain acts"
  using assms
  by (cases "(env, x, m)" rule: do_action.cases)
    (auto simp: timer_Stop_def split: if_splits option.splits dest: start_op_runs(5))

lemma dispatch_ok_action:
  assumes ok: "dispatch_ok (x # xs)" and act: "do_action env x m = Some (m', acts)"
  shows "dispatch_ok (acts @ xs)"
proof (cases x)
  case (AVisit now ident)
  then have "do_action env (AVisit now ident) m = Some (m', acts)" using act by simp
  then show ?thesis using dispatch_ok_visit [OF ok] visit_action(3,4) AVisit by simp
next
  case (ACount b)
  then show ?thesis using ok act by (simp add: dispatch_ok_def)
qed (use dispatch_ok_plain [OF ok, of acts] plain_acts [OF act] in simp_all)

lemma dispatch_wf_action:
  assumes wf: "dispatch_wf s" and known: "known (tg_next (ds_manager s)) x"
    and act: "do_action env x (ds_manager s) = Some (m, acts)"
  shows "dispatch_wf (s\<lparr>ds_manager := m\<rparr>)" "list_all (known (tg_next m)) acts"
proof -
  note facts = do_action_wf [OF _ known act]
  have "manager_wf (ds_manager s)" using wf by (simp add: dispatch_wf_def)
  note facts = facts [OF this]
  then show "list_all (known (tg_next m)) acts" by blast
  show "dispatch_wf (s\<lparr>ds_manager := m\<rparr>)"
    using wf facts(1) known_mono_list [OF _ facts(3)] by (auto simp: dispatch_wf_def)
qed

lemma dispatch_wf_step:
  assumes wf: "dispatch_wf s" and step: "dispatch_step env e s = Some s'"
  shows "dispatch_wf s'"
proof (cases e)
  case (Tick i now ids)
  have "list_all (known N) (Cron now ids)" for N by (simp add: Cron_def list_all_iff)
  then show ?thesis
    using assms Tick dispatch_ok_Cron
    by (auto simp: dispatch_wf_def split: if_splits dest!: set_update_subset_insert [THEN subsetD])
next
  case (Dispatched i)
  then obtain x xs m acts where i: "i < length (ds_dispatch s)" and hd: "ds_dispatch s ! i = x # xs"
    and act: "do_action env x (ds_manager s) = Some (m, acts)"
    and s': "s' = s\<lparr>ds_manager := m, ds_dispatch := (ds_dispatch s)[i := acts @ xs]\<rparr>"
    using step by (auto split: if_splits list.splits)
  have mem: "x # xs \<in> set (ds_dispatch s)" using i hd by (metis nth_mem)
  then have ok: "dispatch_ok (x # xs)" and known: "known (tg_next (ds_manager s)) x" using wf by (auto simp: dispatch_wf_def)
  note facts = dispatch_wf_action [OF wf known act]
  have "list_all (known (tg_next m)) xs" using facts(1) mem by (auto simp: dispatch_wf_def)
  then show ?thesis
    using facts s' dispatch_ok_action [OF ok act]
    by (auto simp: dispatch_wf_def dest!: set_update_subset_insert [THEN subsetD])
next
  case (Other i)
  then obtain x xs m acts where i: "i < length (ds_others s)" and hd: "ds_others s ! i = x # xs"
    and act: "do_action env x (ds_manager s) = Some (m, acts)"
    and s': "s' = s\<lparr>ds_manager := m, ds_others := (ds_others s)[i := acts @ xs]\<rparr>"
    using step by (auto split: if_splits list.splits)
  have mem: "x # xs \<in> set (ds_others s)" using i hd by (metis nth_mem)
  then have x: "plain x" and xs: "list_all plain xs" and known: "known (tg_next (ds_manager s)) x"
    using wf by (auto simp: dispatch_wf_def)
  note facts = dispatch_wf_action [OF wf known act]
  have "list_all (known (tg_next m)) xs" using facts(1) mem by (auto simp: dispatch_wf_def)
  then show ?thesis
    using facts s' xs plain_acts [OF act x]
    by (auto simp: dispatch_wf_def dest!: set_update_subset_insert [THEN subsetD])
next
  case (Created i)
  then obtain a as where as: "tg_created (ds_manager s) = a # as"
    and s': "s' = s\<lparr>ds_manager := AddTimer a ((ds_manager s)\<lparr>tg_created := as\<rparr>)\<rparr>"
    using step by (auto split: if_splits list.splits)
  then show ?thesis using wf by (auto simp: dispatch_wf_def manager_wf_def AddTimer_def)
qed (use assms in \<open>auto simp: dispatch_wf_def manager_wf_def RemoveTimer_def split: if_splits list.splits\<close>)

lemma dispatch_wf_run: "dispatch_wf s \<Longrightarrow> dispatch_run env es s = Some s' \<Longrightarrow> dispatch_wf s'"
  by (induction es arbitrary: s) (auto split: option.splits dest: dispatch_wf_step)

lemma dispatch_wf_init: "dispatch_wf (dispatching_init t0 k)"
  by (auto simp: dispatch_wf_def manager_wf_def dispatching_init_def timers_init_def dispatch_ok_def)

lemma dispatch_count_step: "dispatch_step env e s = Some s' \<Longrightarrow> length (ds_dispatch s') = length (ds_dispatch s)"
  by (cases e) (auto split: if_splits list.splits)

lemma dispatch_count: "dispatch_run env es s = Some s' \<Longrightarrow> length (ds_dispatch s') = length (ds_dispatch s)"
  by (induction es arbitrary: s) (auto split: option.splits dest: dispatch_count_step)

lemma wf_not_pending: "dispatch_wf s \<Longrightarrow> pending (tg_next (ds_manager s)) (ds_dispatch s) = 0"
  by (force simp: dispatch_wf_def pending_def count_list_0_iff list_all_iff)

lemma creating_step:
  assumes "dispatch_step env e s = Some s'" "tg_next (ds_manager s) < tg_next (ds_manager s')"
  shows "tg_runs (ds_manager s') = tg_runs (ds_manager s)" "pending a (ds_dispatch s') = pending a (ds_dispatch s)"
proof -
  consider (disp) i x xs acts where "i < length (ds_dispatch s)" "ds_dispatch s ! i = x # xs"
      "do_action env x (ds_manager s) = Some (ds_manager s', acts)" "ds_dispatch s' = (ds_dispatch s)[i := acts @ xs]"
    | (other) x acts where "do_action env x (ds_manager s) = Some (ds_manager s', acts)" "ds_dispatch s' = ds_dispatch s"
    using assms by (cases e) (auto simp: AddTimer_def RemoveTimer_def split: if_splits list.splits)
  then have "tg_runs (ds_manager s') = tg_runs (ds_manager s) \<and> pending a (ds_dispatch s') = pending a (ds_dispatch s)"
  proof cases
    case disp
    note new = creating_action [OF disp(3) assms(2)]
    then have "x \<noteq> ACount a" by auto
    then have "pending a (ds_dispatch s') = pending a (ds_dispatch s)"
      using pending_update [OF disp(1), of a "acts @ xs"] disp(2,4) count_list_plain [OF new(3)] by simp
    then show ?thesis using new(2) by simp
  next
    case other
    then show ?thesis using creating_action(2) [OF other(1) assms(2)] by simp
  qed
  then show "tg_runs (ds_manager s') = tg_runs (ds_manager s)" "pending a (ds_dispatch s') = pending a (ds_dispatch s)"
    by blast+
qed


text \<open>An environment whose functions do nothing with timers and whose conditions never hold, and the announcement of an operation by a program.\<close>

definition quiet_timers :: timer_env where
  "quiet_timers = \<lparr>te_run = (\<lambda>f m. []), te_check = (\<lambda>c now. False)\<rparr>"

definition some_timer :: timer where
  "some_timer = \<lparr>tm_ID = 0, tm_fn = 0, tm_createAt = 0, tm_interval = 0, tm_condition = None, tm_elapse = 0, tm_closed = False, tm_counter = 0\<rparr>"

definition after_once :: "timer_event list" where
  "after_once = [Other 0, Other 0, Other 0, Created 0, Tick 0 5 [1], Dispatched 0, Dispatched 0, Dispatched 0, Tick 0 9 [1], Dispatched 0]"


text \<open>
  With two goroutines of \<open>Dispatch\<close>, the function of a timer made by \<open>NewAfterTimer\<close>, to be called once, is called twice: a second tick finds the timer due while
  the first call has not returned, since the turn is counted after the call. The bound of the counted timers is reached.
\<close>

definition overrun :: "timer_event list" where
  "overrun =
     [Begin [OpCount 1 1 1 (Some 0)], Other 0, Other 0, Other 0, Created 0,
      Tick 0 5 [1], Dispatched 0, Tick 1 6 [1], Dispatched 1]"

theorem after_timer_runs_twice:
  "map_option (\<lambda>s. tg_runs (ds_manager s)) (dispatch_run quiet_timers overrun (dispatching_init some_timer 2)) = Some [0, 0]"
  by code_simp

text \<open>
  C33. A timer that was stopped runs again, even with one goroutine of \<open>Dispatch\<close>: it is announced twice, and when its removal comes between the two
  announcements it is back in the table. \<open>Stop\<close> then does nothing, for the timer is closed already, and the timer goes on for ever.
\<close>

definition stopped :: "timer_event list" where
  "stopped =
     [Begin [OpCount 1 1 (- 1) (Some 0)], Other 0, Other 0, Other 0, Created 0,
      Begin [OpStop 0], Other 1, Other 1, Other 1, Other 1, Closing 0]"

definition revived :: "timer_event list" where
  "revived = [Created 0, Tick 0 5 [1], Dispatched 0]"


text \<open>
  A timer with a condition is announced before it has its condition, and until it has it every visit of \<open>Cron\<close> calls its function: the interval is the largest
  number, so that the time at which it would be due wraps around to the past.
\<close>

theorem cond_timer_runs_unset:
  assumes "NewCondTimer now (Some c) (Some f) m = Some (Inr (a, m', acts))" "0 <s now" "0 \<le>s now'"
  shows "acts = [ASend a, ASend a, ASetCondition a c] \<and>
    cron_visit env now' a m' = (m'\<lparr>tg_runs := tg_runs m' @ [a]\<rparr>, [AOps (te_run env f m'), ACount a])"
proof -
  have pos: "0 < sint now" "0 \<le> sint now'" using assms(2,3) by (auto simp: word_sless_alt word_sle_eq)
  have "sint now < 2 ^ 63" using sint_lt [of now] by simp
  have max: "sint MaxInt64 = 2 ^ 63 - 1" by simp
  have "sint (now + MaxInt64) = signed_take_bit 63 (sint now + sint MaxInt64)" by (simp only: sint_word_ariths) simp
  also have "\<dots> \<le> sint now + sint MaxInt64 - 2 ^ Suc 63"
    using pos max by (intro signed_take_bit_int_less_eq) simp
  also have "\<dots> \<le> sint now'" using pos \<open>sint now < 2 ^ 63\<close> max by simp
  finally have "now + MaxInt64 \<le>s now'" by (simp only: word_sle_eq)
  then show ?thesis
    using assms(1)
    by (auto simp: NewCondTimer_def NewCountTimer_def timer_NewTimer_def cron_visit_def pexec_def Let_def split: if_splits)
qed

theorem cond_timer_runs_unset_witness:
  "\<exists>a m acts.
     NewCondTimer 1 (Some 0) (Some 0) (timers_init some_timer) = Some (Inr (a, m, acts)) \<and>
     cron_visit quiet_timers 2 a m = (m\<lparr>tg_runs := tg_runs m @ [a]\<rparr>, [AOps (te_run quiet_timers 0 m), ACount a])"
proof -
  have "\<not> MaxInt64 \<le>s 0" by (simp add: word_sle_eq)
  then obtain a m acts where new: "NewCondTimer 1 (Some 0) (Some 0) (timers_init some_timer) = Some (Inr (a, m, acts))"
    by (auto simp: NewCondTimer_def NewCountTimer_def timer_NewTimer_def Let_def)
  have "(0::i64) <s 1" "(0::i64) \<le>s 2" by (simp_all add: word_sle_eq word_sless_alt)
  from cond_timer_runs_unset [OF new this] new show ?thesis by blast
qed

end
