(* ===== verification/Client.thy ===== *)
theory Client
  imports Message Acceptor "HOL-Library.AList"
begin

text \<open>
  The client, \<open>client/client.go\<close>: the requests of one connection, from the admission of a request over its place in the table of pending requests to its answer or its
  timeout, in every interleaving of the goroutines of the connection; and the states of the connection.
  A connection has at most 30 requests in flight and loses no place for one, no goroutine waits for a place it holds, and a
  request is answered at most once.
\<close>

section \<open>Reading packets\<close>

text \<open>\<open>io.ReadFull\<close>: all \<open>n\<close> bytes, or an error, which is the one of the connection or tells whether the stream ended before the first byte.\<close>

definition ReadFull :: "nat \<Rightarrow> tcp_conn \<Rightarrow> byte list res \<times> tcp_conn" where
  "ReadFull n conn =
     (if n \<le> length (tcp_bytes conn)
      then (Inr (take n (tcp_bytes conn)), conn\<lparr>tcp_bytes := drop n (tcp_bytes conn)\<rparr>)
      else (Inl (case tcp_end conn of
                   Some e \<Rightarrow> e
                 | None \<Rightarrow> if tcp_bytes conn = [] then ErrExternal ''EOF'' else ErrExternal ''unexpected EOF''),
            conn\<lparr>tcp_bytes := []\<rparr>))"

definition readPacket :: "tcp_conn \<Rightarrow> packet res \<times> tcp_conn" where
  "readPacket conn =
     (case ReadFull HeadLength conn of
        (Inl e, conn) \<Rightarrow> (Inl e, conn)
      | (Inr header, conn) \<Rightarrow>
          (case ParseHeader header of
             Inl e \<Rightarrow> (Inl e, conn)
           | Inr (len, ty) \<Rightarrow>
               (case ReadFull (nat (sint len)) conn of
                  (Inl e, conn) \<Rightarrow> (Inl e, conn)
                | (Inr payload, conn) \<Rightarrow> (Inr \<lparr>pkt_Type = ty, pkt_Length = len, pkt_Data = payload\<rparr>, conn))))"

section \<open>Pending requests\<close>

abbreviation errClientConnectionClosed :: goerr where
  "errClientConnectionClosed \<equiv> ErrNew ''client: connection closed''"

record pendingRequest =
  pr_msg :: message
  pr_sentAt :: "int option"

text \<open>
  The part of a generation of the connection that its goroutines share: the table of pending requests, the places for requests that are taken, and the messages
  for the user. \<open>gn_closeCh\<close> tells whether the channel \<open>closeCh\<close> is closed.
\<close>

record generation =
  gn_pending :: "(u64 \<times> pendingRequest) list"
  gn_slots :: nat
  gn_closed :: bool
  gn_closeCh :: bool
  gn_incoming :: "message list"

definition clientInflightLimit :: nat where
  "clientInflightLimit = 30"

definition incoming_size :: nat where
  "incoming_size = 10"

definition newConnectionGeneration :: generation where
  "newConnectionGeneration =
     \<lparr>gn_pending = [], gn_slots = 0, gn_closed = False, gn_closeCh = False, gn_incoming = []\<rparr>"

text \<open>Giving back a place receives from the channel \<open>slots\<close>. \<open>None\<close> is a receive that waits, with the table locked.\<close>

definition free_slot :: "generation \<Rightarrow> generation option" where
  "free_slot g = (if gn_slots g = 0 then None else Some (g\<lparr>gn_slots := gn_slots g - 1\<rparr>))"

definition takePending :: "u64 \<Rightarrow> generation \<Rightarrow> (generation \<times> pendingRequest option) option" where
  "takePending ident g =
     (case map_of (gn_pending g) ident of
        None \<Rightarrow> Some (g, None)
      | Some p \<Rightarrow> map_option (\<lambda>g. (g, Some p)) (free_slot (g\<lparr>gn_pending := AList.delete ident (gn_pending g)\<rparr>)))"

text \<open>The loop over the table, in the order of \<open>ids\<close>.\<close>

fun takeExpiredPending :: "int \<Rightarrow> int \<Rightarrow> u64 list \<Rightarrow> generation \<Rightarrow> (generation \<times> pendingRequest list) option" where
  "takeExpiredPending now timeout [] g = Some (g, [])"
| "takeExpiredPending now timeout (i # ids) g =
     (case map_of (gn_pending g) i of
        None \<Rightarrow> takeExpiredPending now timeout ids g
      | Some p \<Rightarrow>
          if pr_sentAt p = None \<or> now - the (pr_sentAt p) \<le> timeout then takeExpiredPending now timeout ids g
          else (case free_slot (g\<lparr>gn_pending := AList.delete i (gn_pending g)\<rparr>) of
                  None \<Rightarrow> None
                | Some g \<Rightarrow> map_option (\<lambda>(g, ps). (g, p # ps)) (takeExpiredPending now timeout ids g)))"

text \<open>The first part of \<open>disconnectGeneration\<close>: the table is emptied and takes nothing any more.\<close>

fun drop_pending :: "u64 list \<Rightarrow> generation \<Rightarrow> generation option" where
  "drop_pending [] g = Some g"
| "drop_pending (i # ids) g =
     (case free_slot (g\<lparr>gn_pending := AList.delete i (gn_pending g)\<rparr>) of None \<Rightarrow> None | Some g \<Rightarrow> drop_pending ids g)"

text \<open>\<open>registerPending\<close> behind the select that takes a place.\<close>

definition register_held :: "pendingRequest \<Rightarrow> generation \<Rightarrow> (generation \<times> goerr option) option" where
  "register_held p g =
     (if gn_closed g then map_option (\<lambda>g. (g, Some errClientConnectionClosed)) (free_slot g)
      else if map_of (gn_pending g) (msg_ID (pr_msg p)) \<noteq> None
      then map_option (\<lambda>g. (g, Some (ErrNew ''client: duplicate request id''))) (free_slot g)
      else Some (g\<lparr>gn_pending := AList.update (msg_ID (pr_msg p)) p (gn_pending g)\<rparr>, None))"

definition timeout_message :: "byte list \<Rightarrow> pendingRequest \<Rightarrow> message" where
  "timeout_message status p =
     (NewMessage [True])\<lparr>msg_Type := Response, msg_ID := msg_ID (pr_msg p), msg_Route := msg_Route (pr_msg p), msg_Data := status\<rparr>"

section \<open>The goroutines of a connection\<close>

text \<open>
  Where \<open>sendMsgTo\<close> is: it wants a place, has one, waits for the lock of the writer, has it and has noted the time, or has failed to write and still has to take the request back.
\<close>

datatype sender =
    Wanting message "byte list" | Holding message "byte list" | Queued message "byte list" | Marked message "byte list"
  | Failed message goerr | Returned u64 "goerr option"

text \<open>
  The connection with its goroutines. \<open>cn_reaped\<close> holds the expired requests that the reaper still has to announce and \<open>cn_handling\<close> the message that
  \<open>handlePackets\<close> delivers; \<open>cn_registered\<close> and \<open>cn_delivered\<close> are the history of the requests that came into the table and of the messages for the user.
\<close>

record connection =
  cn_gen :: generation
  cn_nextID :: "32 word"
  cn_senders :: "sender list"
  cn_reaped :: "pendingRequest list"
  cn_reaper :: bool
  cn_handling :: "message option"
  cn_handler :: bool
  cn_once :: bool
  cn_wire :: "byte list list"
  cn_registered :: "u64 list"
  cn_delivered :: "message list"

definition connection_init :: "32 word \<Rightarrow> connection" where
  "connection_init next_id =
     \<lparr>cn_gen = newConnectionGeneration, cn_nextID = next_id, cn_senders = [], cn_reaped = [], cn_reaper = True, cn_handling = None,
      cn_handler = True, cn_once = False, cn_wire = [], cn_registered = [], cn_delivered = []\<rparr>"

text \<open>The encoders, the timeout of requests, and the status of the error that a request timed out.\<close>

record 'r client_env =
  ce_compression :: bool
  ce_zlib :: "'r zlib"
  ce_dictionary :: dictionary
  ce_requestTimeout :: int
  ce_timeout_status :: "byte list"

definition buildPacket :: "'r client_env \<Rightarrow> message \<Rightarrow> byte list res" where
  "buildPacket env msg =
     (case MessageEncode (ce_compression env) (ce_zlib env) (ce_dictionary env) msg of
        Inl e \<Rightarrow> Inl e
      | Inr (encMsg, _) \<Rightarrow> PacketEncode DataPacket encMsg)"

definition sendMsgTo :: "'r client_env \<Rightarrow> byte \<Rightarrow> string \<Rightarrow> byte list \<Rightarrow> connection \<Rightarrow> connection" where
  "sendMsgTo env msgType rt payload c =
     (let next_id = cn_nextID c + 1;
          m = (NewMessage [])\<lparr>msg_Type := msgType, msg_ID := ucast next_id, msg_Route := rt, msg_Data := payload\<rparr>;
          s = (case buildPacket env m of
                 Inl e \<Rightarrow> Returned (msg_ID m) (Some e)
               | Inr p \<Rightarrow> if msgType = Request then Wanting m p else Queued m p)
      in c\<lparr>cn_nextID := next_id, cn_senders := cn_senders c @ [s]\<rparr>)"

definition write_failed :: "message \<Rightarrow> goerr \<Rightarrow> sender" where
  "write_failed m e = (if msg_Type m = Request then Failed m e else Returned (msg_ID m) (Some e))"

fun is_marked :: "sender \<Rightarrow> bool" where
  "is_marked (Marked m p) = True"
| "is_marked _ = False"

fun is_holding :: "sender \<Rightarrow> bool" where
  "is_holding (Holding m p) = True"
| "is_holding _ = False"

text \<open>\<open>sendMsgTo\<close> goes on. \<open>now\<close> is the time and \<open>res\<close> what the write to the connection returns; \<open>None\<close> is a step that has to wait.\<close>

fun sender_step :: "int \<Rightarrow> goerr option \<Rightarrow> sender \<Rightarrow> connection \<Rightarrow> (sender \<times> connection) option" where
  "sender_step now res (Wanting m p) c =
     (if gn_slots (cn_gen c) < clientInflightLimit
      then Some (Holding m p, c\<lparr>cn_gen := (cn_gen c)\<lparr>gn_slots := gn_slots (cn_gen c) + 1\<rparr>\<rparr>)
      else None)"
| "sender_step now res (Holding m p) c =
     map_option
       (\<lambda>(g, err). case err of
          Some e \<Rightarrow> (Returned (msg_ID m) (Some e), c\<lparr>cn_gen := g\<rparr>)
        | None \<Rightarrow> (Queued m p, c\<lparr>cn_gen := g, cn_registered := cn_registered c @ [msg_ID m]\<rparr>))
       (register_held \<lparr>pr_msg = m, pr_sentAt = None\<rparr> (cn_gen c))"
| "sender_step now res (Queued m p) c =
     (if list_ex is_marked (cn_senders c) then None
      else if gn_closeCh (cn_gen c) then Some (write_failed m errClientConnectionClosed, c)
      else Some (Marked m p,
             case map_of (gn_pending (cn_gen c)) (msg_ID m) of
               None \<Rightarrow> c
             | Some pr \<Rightarrow>
                 c\<lparr>cn_gen := (cn_gen c)\<lparr>gn_pending := AList.update (msg_ID m) (pr\<lparr>pr_sentAt := Some now\<rparr>) (gn_pending (cn_gen c))\<rparr>\<rparr>))"
| "sender_step now res (Marked m p) c =
     Some (case res of
             Some e \<Rightarrow> (write_failed m e, c)
           | None \<Rightarrow> (Returned (msg_ID m) None, c\<lparr>cn_wire := cn_wire c @ [p]\<rparr>))"
| "sender_step now res (Failed m e) c =
     map_option (\<lambda>(g, _). (Returned (msg_ID m) (Some e), c\<lparr>cn_gen := g\<rparr>)) (takePending (msg_ID m) (cn_gen c))"
| "sender_step now res (Returned i r) c = None"

text \<open>\<open>handlePackets\<close> on one packet, up to the delivery of the message. It ends when a message does not decode and when it is kicked.\<close>

definition handle_packet :: "'r client_env \<Rightarrow> packet \<Rightarrow> connection \<Rightarrow> connection option" where
  "handle_packet env p c =
     (if pkt_Type p = DataPacket then
        (case MessageDecode (ce_zlib env) (ce_dictionary env) (pkt_Data p) of
           None \<Rightarrow> None
         | Some (Inl e) \<Rightarrow> Some (c\<lparr>cn_handler := False\<rparr>)
         | Some (Inr m) \<Rightarrow>
             if msg_Type m = Response then
               map_option
                 (\<lambda>(g, pending). case pending of
                    None \<Rightarrow> c\<lparr>cn_gen := g\<rparr>
                  | Some pr \<Rightarrow>
                      c\<lparr>cn_gen := g,
                        cn_handling := Some (if msg_Route m = [] then m\<lparr>msg_Route := msg_Route (pr_msg pr)\<rparr> else m)\<rparr>)
                 (takePending (msg_ID m) (cn_gen c))
             else Some (c\<lparr>cn_handling := Some m\<rparr>))
      else if pkt_Type p = KickPacket then Some (c\<lparr>cn_handler := False\<rparr>)
      else Some c)"

text \<open>\<open>deliver\<close>, when there is room in the channel to the user.\<close>

definition deliver :: "message \<Rightarrow> connection \<Rightarrow> connection option" where
  "deliver m c =
     (if length (gn_incoming (cn_gen c)) < incoming_size
      then Some (c\<lparr>cn_gen := (cn_gen c)\<lparr>gn_incoming := gn_incoming (cn_gen c) @ [m]\<rparr>, cn_delivered := cn_delivered c @ [m]\<rparr>)
      else None)"

datatype client_event =
    Send byte string "byte list" | Sender nat int "goerr option" | Refused nat
  | Packet packet | HandlerDeliver | HandlerGiveUp
  | Reap int "u64 list" | ReaperDeliver | ReaperGiveUp
  | Consume | Disconnect "u64 list" | CloseCh

fun client_step :: "'r client_env \<Rightarrow> client_event \<Rightarrow> connection \<Rightarrow> connection option" where
  "client_step env (Send ty rt payload) c = Some (sendMsgTo env ty rt payload c)"
| "client_step env (Sender i now res) c =
     (if i < length (cn_senders c)
      then map_option (\<lambda>(s, c). c\<lparr>cn_senders := (cn_senders c)[i := s]\<rparr>) (sender_step now res (cn_senders c ! i) c)
      else None)"
| "client_step env (Refused i) c =
     (if i < length (cn_senders c) \<and> gn_closeCh (cn_gen c)
      then case cn_senders c ! i of
          Wanting m p \<Rightarrow> Some (c\<lparr>cn_senders := (cn_senders c)[i := Returned (msg_ID m) (Some errClientConnectionClosed)]\<rparr>)
        | _ \<Rightarrow> None
      else None)"
| "client_step env (Packet p) c =
     (if cn_handler c \<and> cn_handling c = None then handle_packet env p c else None)"
| "client_step env HandlerDeliver c =
     (case cn_handling c of None \<Rightarrow> None | Some m \<Rightarrow> map_option (\<lambda>c. c\<lparr>cn_handling := None\<rparr>) (deliver m c))"
| "client_step env HandlerGiveUp c =
     (if gn_closeCh (cn_gen c) then Some (c\<lparr>cn_handling := None, cn_handler := False\<rparr>) else None)"
| "client_step env (Reap now ids) c =
     (if cn_reaper c \<and> cn_reaped c = [] \<and> distinct ids \<and> set ids = set (map fst (gn_pending (cn_gen c)))
      then map_option (\<lambda>(g, ps). c\<lparr>cn_gen := g, cn_reaped := ps\<rparr>)
             (takeExpiredPending now (ce_requestTimeout env) ids (cn_gen c))
      else None)"
| "client_step env ReaperDeliver c =
     (case cn_reaped c of
        [] \<Rightarrow> None
      | p # ps \<Rightarrow> map_option (\<lambda>c. c\<lparr>cn_reaped := ps\<rparr>) (deliver (timeout_message (ce_timeout_status env) p) c))"
| "client_step env ReaperGiveUp c =
     (if gn_closeCh (cn_gen c) then Some (c\<lparr>cn_reaped := [], cn_reaper := False\<rparr>) else None)"
| "client_step env Consume c =
     (case gn_incoming (cn_gen c) of [] \<Rightarrow> None | m # ms \<Rightarrow> Some (c\<lparr>cn_gen := (cn_gen c)\<lparr>gn_incoming := ms\<rparr>\<rparr>))"
| "client_step env (Disconnect ids) c =
     (if \<not> cn_once c \<and> distinct ids \<and> set ids = set (map fst (gn_pending (cn_gen c)))
      then map_option (\<lambda>g. c\<lparr>cn_gen := g, cn_once := True\<rparr>) (drop_pending ids ((cn_gen c)\<lparr>gn_closed := True\<rparr>))
      else None)"
| "client_step env CloseCh c =
     (if cn_once c \<and> \<not> gn_closeCh (cn_gen c) then Some (c\<lparr>cn_gen := (cn_gen c)\<lparr>gn_closeCh := True\<rparr>\<rparr>) else None)"

fun client_run :: "'r client_env \<Rightarrow> client_event list \<Rightarrow> connection \<Rightarrow> connection option" where
  "client_run env [] c = Some c"
| "client_run env (e # es) c = (case client_step env e c of None \<Rightarrow> None | Some c \<Rightarrow> client_run env es c)"

section \<open>Places for requests\<close>

text \<open>
  \<open>h\<close> senders hold a place for a request that is not in the table yet. The table is a map, its entries hold the requests with their identifiers, and every place that
  is taken belongs to an entry of the table or to such a sender.
\<close>

definition gen_ok :: "nat \<Rightarrow> generation \<Rightarrow> bool" where
  "gen_ok h g \<longleftrightarrow>
     distinct (map fst (gn_pending g)) \<and> gn_slots g = length (gn_pending g) + h \<and> gn_slots g \<le> clientInflightLimit \<and>
     (gn_closed g \<longrightarrow> gn_pending g = []) \<and> (\<forall>(i, p)\<in>set (gn_pending g). msg_ID (pr_msg p) = i)"

definition open_request :: "u64 \<Rightarrow> generation \<Rightarrow> nat" where
  "open_request i g = (if i \<in> set (map fst (gn_pending g)) then 1 else 0)"

lemma length_delete:
  assumes "distinct (map fst xs)" "k \<in> set (map fst xs)"
  shows "Suc (length (AList.delete k xs)) = length xs"
  using assms
proof (induction xs)
  case (Cons x xs)
  have "AList.delete k xs = xs" if "k \<notin> set (map fst xs)" using that by (metis delete_id list.set_map)
  then show ?case using Cons by (cases x) auto
qed simp

lemma set_delete_subset: "set (AList.delete k xs) \<subseteq> set xs"
  by (auto simp: AList.delete_eq)

lemma set_delete_keys: "set (map fst (AList.delete k xs)) = set (map fst xs) - {k}"
  by (auto simp: delete_keys)

lemma removed_entry:
  assumes ok: "gen_ok h g" and i: "map_of (gn_pending g) i = Some p"
  obtains g' where "free_slot (g\<lparr>gn_pending := AList.delete i (gn_pending g)\<rparr>) = Some g'" "gen_ok h g'"
    "msg_ID (pr_msg p) = i" "gn_closed g' = gn_closed g" "gn_pending g' = AList.delete i (gn_pending g)"
    "\<And>j. open_request j g = open_request j g' + (if j = i then 1 else 0)"
proof -
  let ?g = "g\<lparr>gn_pending := AList.delete i (gn_pending g)\<rparr>"
  let ?g' = "?g\<lparr>gn_slots := gn_slots g - 1\<rparr>"
  have mem: "(i, p) \<in> set (gn_pending g)" using i by (rule map_of_SomeD)
  then have key: "i \<in> set (map fst (gn_pending g))" by force
  have dist: "distinct (map fst (gn_pending g))" using ok by (simp add: gen_ok_def)
  note len = length_delete [OF dist key]
  have "gn_slots g \<noteq> 0" using ok len by (auto simp: gen_ok_def)
  then have free: "free_slot ?g = Some ?g'" by (simp add: free_slot_def)
  have "gen_ok h ?g'"
    using ok len distinct_delete [OF dist, of i] mem set_delete_subset [of i "gn_pending g"]
    by (fastforce simp: gen_ok_def)
  moreover have "msg_ID (pr_msg p) = i" using ok mem by (auto simp: gen_ok_def)
  moreover have "open_request j g = open_request j ?g' + (if j = i then 1 else 0)" for j
    using key set_delete_keys [of i "gn_pending g"] by (auto simp: open_request_def)
  ultimately show thesis using free that [of ?g'] by simp
qed

lemma takePending_ok:
  assumes "gen_ok h g"
  obtains g' r where "takePending i g = Some (g', r)" "gen_ok h g'" "gn_closed g' = gn_closed g"
    "r = None \<Longrightarrow> g' = g" "\<And>p. r = Some p \<Longrightarrow> msg_ID (pr_msg p) = i"
    "\<And>j. open_request j g = open_request j g' + (if r \<noteq> None \<and> j = i then 1 else 0)"
proof (cases "map_of (gn_pending g) i")
  case None
  then show thesis using that [of g None] assms by (simp add: takePending_def)
next
  case (Some p)
  from removed_entry [OF assms this] obtain g' where
    "free_slot (g\<lparr>gn_pending := AList.delete i (gn_pending g)\<rparr>) = Some g'" "gen_ok h g'"
    "msg_ID (pr_msg p) = i" "gn_closed g' = gn_closed g"
    "\<And>j. open_request j g = open_request j g' + (if j = i then 1 else 0)" by blast
  then show thesis using that [of g' "Some p"] Some by (simp add: takePending_def)
qed

lemma takeExpiredPending_ok:
  assumes "gen_ok h g"
  shows "\<exists>g' ps. takeExpiredPending now timeout ids g = Some (g', ps) \<and> gen_ok h g' \<and> gn_closed g' = gn_closed g \<and>
    (\<forall>j. open_request j g = open_request j g' + count_list (map (\<lambda>p. msg_ID (pr_msg p)) ps) j)"
  using assms
proof (induction ids arbitrary: g)
  case (Cons i ids)
  show ?case
  proof (cases "map_of (gn_pending g) i")
    case None
    then show ?thesis using Cons by simp
  next
    case (Some p)
    show ?thesis
    proof (cases "pr_sentAt p = None \<or> now - the (pr_sentAt p) \<le> timeout")
      case True
      then show ?thesis using Cons Some by simp
    next
      case False
      from removed_entry [OF Cons.prems Some] obtain g' where g':
        "free_slot (g\<lparr>gn_pending := AList.delete i (gn_pending g)\<rparr>) = Some g'" "gen_ok h g'"
        "msg_ID (pr_msg p) = i" "gn_closed g' = gn_closed g"
        "\<And>j. open_request j g = open_request j g' + (if j = i then 1 else 0)" by blast
      from Cons.IH [OF g'(2)] obtain g'' ps where
        "takeExpiredPending now timeout ids g' = Some (g'', ps)" "gen_ok h g''" "gn_closed g'' = gn_closed g'"
        "\<forall>j. open_request j g' = open_request j g'' + count_list (map (\<lambda>p. msg_ID (pr_msg p)) ps) j" by blast
      then show ?thesis using False Some g' by auto
    qed
  qed
qed simp

text \<open>Emptying the table frees the places of all its entries.\<close>

lemma drop_pending_ok:
  assumes "distinct (map fst xs)" "distinct ids" "set ids = set (map fst xs)" "gn_pending g = xs" "gn_slots g = length xs + h"
  shows "drop_pending ids g = Some (g\<lparr>gn_pending := [], gn_slots := h\<rparr>)"
  using assms
proof (induction ids arbitrary: g xs)
  case Nil
  then show ?case by (cases g) simp
next
  case (Cons i ids)
  have i: "i \<in> set (map fst xs)" using Cons.prems(3) by auto
  note len = length_delete [OF Cons.prems(1) i]
  let ?g = "g\<lparr>gn_pending := AList.delete i xs, gn_slots := gn_slots g - 1\<rparr>"
  have "free_slot (g\<lparr>gn_pending := AList.delete i (gn_pending g)\<rparr>) = Some ?g"
    using len Cons.prems(4,5) by (auto simp: free_slot_def)
  moreover have "drop_pending ids ?g = Some (?g\<lparr>gn_pending := [], gn_slots := h\<rparr>)"
  proof (rule Cons.IH [where xs = "AList.delete i xs"])
    show "distinct (map fst (AList.delete i xs))" using Cons.prems(1) by (rule distinct_delete)
    show "set ids = set (map fst (AList.delete i xs))" using Cons.prems(2,3) set_delete_keys [of i xs] by auto
  qed (use Cons.prems len in auto)
  ultimately show ?case by simp
qed

lemma length_filter_update:
  assumes "i < length xs"
  shows "length (filter P (xs[i := y])) + (if P (xs ! i) then 1 else 0) = length (filter P xs) + (if P y then 1 else (0::nat))"
  using assms
proof (induction xs arbitrary: i)
  case (Cons x xs)
  then show ?case by (cases i) auto
qed simp

section \<open>Requests and their answers\<close>

text \<open>The answers with an identifier that were delivered, are about to be, or can still come.\<close>

abbreviation is_response :: "message \<Rightarrow> bool" where
  "is_response m \<equiv> msg_Type m = Response"

definition answers :: "u64 \<Rightarrow> connection \<Rightarrow> nat" where
  "answers i c =
     count_list (map msg_ID (filter is_response (cn_delivered c))) i +
     (case cn_handling c of None \<Rightarrow> 0 | Some m \<Rightarrow> if is_response m \<and> msg_ID m = i then 1 else 0) +
     count_list (map (\<lambda>p. msg_ID (pr_msg p)) (cn_reaped c)) i +
     open_request i (cn_gen c)"

definition conn_ok :: "connection \<Rightarrow> bool" where
  "conn_ok c \<longleftrightarrow>
     gen_ok (length (filter is_holding (cn_senders c))) (cn_gen c) \<and> gn_closed (cn_gen c) = cn_once c \<and>
     (gn_closeCh (cn_gen c) \<longrightarrow> cn_once c) \<and> (\<forall>i. answers i c \<le> count_list (cn_registered c) i)"

lemma conn_ok_init: "conn_ok (connection_init n)"
  by (simp add: conn_ok_def connection_init_def newConnectionGeneration_def gen_ok_def answers_def open_request_def)

lemma takePending_kept: "takePending i g = Some (g', r) \<Longrightarrow> gn_closeCh g' = gn_closeCh g \<and> gn_incoming g' = gn_incoming g"
  by (auto simp: takePending_def free_slot_def split: option.splits if_splits)

lemma takeExpiredPending_kept:
  "takeExpiredPending now timeout ids g = Some (g', ps) \<Longrightarrow> gn_closeCh g' = gn_closeCh g"
  by (induction ids arbitrary: g g' ps) (auto simp: free_slot_def split: option.splits if_splits)

text \<open>A step of a sender: what it does to the places and to the table, beside the other senders.\<close>

lemma update_new: "k \<notin> set (map fst xs) \<Longrightarrow> AList.update k v xs = xs @ [(k, v)]"
  by (induction xs) auto

lemma register_held_ok:
  assumes ok: "gen_ok (Suc h) g"
  obtains g' err where "register_held p g = Some (g', err)" "gen_ok h g'" "gn_closed g' = gn_closed g" "gn_closeCh g' = gn_closeCh g"
    "\<And>j. open_request j g' = open_request j g + (if err = None \<and> j = msg_ID (pr_msg p) then 1 else 0)"
proof (cases "gn_closed g \<or> map_of (gn_pending g) (msg_ID (pr_msg p)) \<noteq> None")
  case True
  let ?g = "g\<lparr>gn_slots := gn_slots g - 1\<rparr>"
  have free: "free_slot g = Some ?g" using ok by (simp add: free_slot_def gen_ok_def)
  have "\<exists>e. register_held p g = Some (?g, Some e)" using True free by (cases "gn_closed g") (auto simp: register_held_def)
  then obtain e where "register_held p g = Some (?g, Some e)" ..
  moreover have "gen_ok h ?g" using ok by (auto simp: gen_ok_def)
  ultimately show thesis using that [of ?g "Some e"] by (simp add: open_request_def)
next
  case False
  let ?i = "msg_ID (pr_msg p)"
  let ?g = "g\<lparr>gn_pending := AList.update ?i p (gn_pending g)\<rparr>"
  have new: "?i \<notin> set (map fst (gn_pending g))" using False by (simp add: map_of_eq_None_iff)
  then have upd: "AList.update ?i p (gn_pending g) = gn_pending g @ [(?i, p)]"
    by (rule update_new)
  show thesis
    by (rule that [of ?g None]) (use False ok new upd in \<open>auto simp: register_held_def gen_ok_def open_request_def\<close>)
qed

lemma gen_ok_mark:
  assumes "gen_ok h g" "map_of (gn_pending g) i = Some p" "msg_ID (pr_msg p') = msg_ID (pr_msg p)"
  shows "gen_ok h (g\<lparr>gn_pending := AList.update i p' (gn_pending g)\<rparr>)"
    and "open_request j (g\<lparr>gn_pending := AList.update i p' (gn_pending g)\<rparr>) = open_request j g"
proof -
  have mem: "(i, p) \<in> set (gn_pending g)" using assms(2) by (rule map_of_SomeD)
  then have key: "i \<in> set (map fst (gn_pending g))" by force
  then have keys: "map fst (AList.update i p' (gn_pending g)) = map fst (gn_pending g)" by (simp add: update_keys)
  then have len: "length (AList.update i p' (gn_pending g)) = length (gn_pending g)" by (metis length_map)
  have dist: "distinct (map fst (AList.update i p' (gn_pending g)))" using assms(1) keys by (simp add: gen_ok_def)
  have "msg_ID (pr_msg q) = k" if "(k, q) \<in> set (AList.update i p' (gn_pending g))" for k q
  proof -
    have "map_of (AList.update i p' (gn_pending g)) k = Some q" using that dist by simp
    then have "((map_of (gn_pending g))(i \<mapsto> p')) k = Some q" by (simp add: update_conv)
    then show ?thesis using assms(1,3) mem by (auto simp: gen_ok_def split: if_splits dest!: map_of_SomeD)
  qed
  moreover have "gn_pending g \<noteq> []" using mem by auto
  ultimately show "gen_ok h (g\<lparr>gn_pending := AList.update i p' (gn_pending g)\<rparr>)"
    using assms(1) dist len by (auto simp: gen_ok_def)
  show "open_request j (g\<lparr>gn_pending := AList.update i p' (gn_pending g)\<rparr>) = open_request j g"
    using keys by (simp add: open_request_def del: set_map)
qed

text \<open>What has to be shown of a step of a sender.\<close>

lemma conn_ok_sender:
  assumes "conn_ok c" "i < length (cn_senders c)" "s = cn_senders c ! i" "cn_senders c' = cn_senders c"
    and "gen_ok h (cn_gen c')"
    and "h + (if is_holding s then 1 else 0) = length (filter is_holding (cn_senders c)) + (if is_holding s' then 1 else 0)"
    and "gn_closed (cn_gen c') = gn_closed (cn_gen c)" "gn_closeCh (cn_gen c') = gn_closeCh (cn_gen c)" "cn_once c' = cn_once c"
    and "\<And>j. answers j c' + count_list (cn_registered c) j \<le> answers j c + count_list (cn_registered c') j"
  shows "conn_ok (c'\<lparr>cn_senders := (cn_senders c')[i := s']\<rparr>)"
proof -
  have "h = length (filter is_holding ((cn_senders c)[i := s']))"
    using length_filter_update [OF assms(2), of is_holding s'] assms(3,6) by simp
  moreover have "answers j (c'\<lparr>cn_senders := ss\<rparr>) \<le> count_list (cn_registered c') j" for j ss
  proof -
    have "answers j c \<le> count_list (cn_registered c) j" using assms(1) by (simp add: conn_ok_def)
    then have "answers j c' \<le> count_list (cn_registered c') j" using assms(10) [of j] by linarith
    then show ?thesis by (simp add: answers_def)
  qed
  ultimately show ?thesis using assms(1,4,5,7,8,9) by (simp add: conn_ok_def)
qed

lemma answers_gen:
  "answers j (c\<lparr>cn_gen := g\<rparr>) + open_request j (cn_gen c) = answers j c + open_request j g"
  by (simp add: answers_def)

lemma sender_step_ok:
  assumes ok: "conn_ok c" and i: "i < length (cn_senders c)" and step: "sender_step now res (cn_senders c ! i) c = Some (s', c')"
  shows "conn_ok (c'\<lparr>cn_senders := (cn_senders c')[i := s']\<rparr>)"
proof -
  let ?h = "length (filter is_holding (cn_senders c))"
  have gen: "gen_ok ?h (cn_gen c)" using ok by (simp add: conn_ok_def)
  note rule = conn_ok_sender [OF ok i refl]
  show ?thesis
  proof (cases "cn_senders c ! i")
    case (Wanting m p)
    let ?g = "(cn_gen c)\<lparr>gn_slots := gn_slots (cn_gen c) + 1\<rparr>"
    have s: "gn_slots (cn_gen c) < clientInflightLimit" "s' = Holding m p" "c' = c\<lparr>cn_gen := ?g\<rparr>"
      using step Wanting by (auto split: if_splits)
    have "gen_ok (Suc ?h) ?g" using gen s(1) by (simp add: gen_ok_def)
    then show ?thesis using s Wanting by (intro rule [where h = "Suc ?h"]) (auto simp: answers_def open_request_def)
  next
    case (Holding m p)
    have "Holding m p \<in> set (filter is_holding (cn_senders c))" using nth_mem [OF i] Holding by simp
    then obtain h where h: "?h = Suc h" by (cases "filter is_holding (cn_senders c)") auto
    then have "gen_ok (Suc h) (cn_gen c)" using gen by simp
    then obtain g' err where
      reg: "register_held \<lparr>pr_msg = m, pr_sentAt = None\<rparr> (cn_gen c) = Some (g', err)" "gen_ok h g'"
      "gn_closed g' = gn_closed (cn_gen c)" "gn_closeCh g' = gn_closeCh (cn_gen c)"
      "\<And>j. open_request j g' = open_request j (cn_gen c) +
         (if err = None \<and> j = msg_ID (pr_msg \<lparr>pr_msg = m, pr_sentAt = None\<rparr>) then 1 else 0)"
      by (rule register_held_ok [where p = "\<lparr>pr_msg = m, pr_sentAt = None\<rparr>"]) (rule that)
    show ?thesis
    proof (cases err)
      case None
      then have "s' = Queued m p" "c' = c\<lparr>cn_gen := g', cn_registered := cn_registered c @ [msg_ID m]\<rparr>"
        using step Holding reg(1) by auto
      then show ?thesis using reg Holding h None by (intro rule [where h = h]) (simp_all add: answers_def)
    next
      case (Some e)
      then have "s' = Returned (msg_ID m) (Some e)" "c' = c\<lparr>cn_gen := g'\<rparr>" using step Holding reg(1) by auto
      then show ?thesis using reg Holding h Some by (intro rule [where h = h]) (simp_all add: answers_def)
    qed
  next
    case (Queued m p)
    have same: ?thesis if "c' = c" "\<not> is_holding s'"
      using that gen Queued by (intro rule [where h = ?h]) simp_all
    have free: "\<not> list_ex is_marked (cn_senders c)" using step Queued by (simp split: if_splits)
    show ?thesis
    proof (cases "gn_closeCh (cn_gen c)")
      case True
      then have "c' = c" "s' = write_failed m errClientConnectionClosed" using step Queued free by simp_all
      then show ?thesis by (intro same) (simp_all add: write_failed_def)
    next
      case False
      show ?thesis
      proof (cases "map_of (gn_pending (cn_gen c)) (msg_ID m)")
        case None
        then have "c' = c" "s' = Marked m p" using step Queued free False by simp_all
        then show ?thesis by (intro same) simp_all
      next
        case (Some pr)
        let ?g = "(cn_gen c)\<lparr>gn_pending := AList.update (msg_ID m) (pr\<lparr>pr_sentAt := Some now\<rparr>) (gn_pending (cn_gen c))\<rparr>"
        have s: "s' = Marked m p" "c' = c\<lparr>cn_gen := ?g\<rparr>" using step Queued free False Some by simp_all
        note mark = gen_ok_mark [OF gen Some, of "pr\<lparr>pr_sentAt := Some now\<rparr>"]
        show ?thesis using mark s Queued by (intro rule [where h = ?h]) (simp_all add: answers_def)
      qed
    qed
  next
    case (Marked m p)
    have "\<not> is_holding s'" "cn_gen c' = cn_gen c" "cn_senders c' = cn_senders c" "cn_once c' = cn_once c"
      "cn_registered c' = cn_registered c" "\<And>j. answers j c' = answers j c"
      using step Marked by (auto simp: write_failed_def answers_def split: if_splits option.splits)
    then show ?thesis using gen Marked by (intro rule [where h = ?h]) simp_all
  next
    case (Failed m e)
    obtain g' r where
      take: "takePending (msg_ID m) (cn_gen c) = Some (g', r)" "gen_ok (length (filter is_holding (cn_senders c))) g'"
      "gn_closed g' = gn_closed (cn_gen c)"
      "\<And>j. open_request j (cn_gen c) = open_request j g' + (if r \<noteq> None \<and> j = msg_ID m then 1 else 0)"
      by (rule takePending_ok [OF gen, of "msg_ID m"]) (rule that)
    have s: "s' = Returned (msg_ID m) (Some e)" "c' = c\<lparr>cn_gen := g'\<rparr>" using step Failed take(1) by auto
    show ?thesis
      using s Failed take(2-4) takePending_kept [OF take(1)] by (intro rule [where h = ?h]) (simp_all add: answers_def)
  next
    case (Returned j r)
    then show ?thesis using step by simp
  qed
qed

lemma conn_ok_same_senders:
  assumes "conn_ok c" "cn_senders c' = cn_senders c" "gen_ok (length (filter is_holding (cn_senders c))) (cn_gen c')"
    and "gn_closed (cn_gen c') = cn_once c'" "gn_closeCh (cn_gen c') \<longrightarrow> cn_once c'"
    and "cn_registered c' = cn_registered c" "\<And>j. answers j c' \<le> answers j c"
  shows "conn_ok c'"
proof -
  have "answers j c' \<le> count_list (cn_registered c') j" for j
  proof -
    have "answers j c' \<le> answers j c" by (rule assms(7))
    also have "\<dots> \<le> count_list (cn_registered c) j" using assms(1) by (simp add: conn_ok_def)
    finally show ?thesis using assms(6) by simp
  qed
  then show ?thesis using assms(2-5) by (simp add: conn_ok_def)
qed

lemma take_answer_ok:
  assumes ok: "conn_ok c" and idle: "cn_handling c = None" and take: "takePending (msg_ID m) (cn_gen c) = Some (g', r)"
    and c': "c' = (case r of None \<Rightarrow> c\<lparr>cn_gen := g'\<rparr> | Some pr \<Rightarrow> c\<lparr>cn_gen := g', cn_handling := Some (f pr)\<rparr>)"
    and f: "\<And>pr. msg_ID (f pr) = msg_ID m"
  shows "conn_ok c'"
proof -
  have gen: "gen_ok (length (filter is_holding (cn_senders c))) (cn_gen c)" using ok by (simp add: conn_ok_def)
  have facts: "gen_ok (length (filter is_holding (cn_senders c))) g'" "gn_closed g' = gn_closed (cn_gen c)"
    "open_request j (cn_gen c) = open_request j g' + (if r \<noteq> None \<and> j = msg_ID m then 1 else 0)" for j
    by (rule takePending_ok [OF gen, of "msg_ID m"], use take in simp)+
  note kept = takePending_kept [OF take]
  have once: "gn_closed (cn_gen c) = cn_once c" "gn_closeCh (cn_gen c) \<longrightarrow> cn_once c" using ok by (auto simp: conn_ok_def)
  show ?thesis
  proof (cases r)
    case None
    then have "c' = c\<lparr>cn_gen := g'\<rparr>" using c' by simp
    then show ?thesis using facts kept once by (intro conn_ok_same_senders [OF ok]) (simp_all add: answers_def)
  next
    case (Some pr)
    then have "c' = c\<lparr>cn_gen := g', cn_handling := Some (f pr)\<rparr>" using c' by simp
    then show ?thesis
      using facts kept once idle f Some by (intro conn_ok_same_senders [OF ok]) (simp_all add: answers_def)
  qed
qed

lemma handle_packet_ok:
  assumes ok: "conn_ok c" and idle: "cn_handling c = None" and step: "handle_packet env p c = Some c'"
  shows "conn_ok c'"
proof -
  have gen: "gen_ok (length (filter is_holding (cn_senders c))) (cn_gen c)"
    and once: "gn_closed (cn_gen c) = cn_once c" "gn_closeCh (cn_gen c) \<longrightarrow> cn_once c" using ok by (auto simp: conn_ok_def)
  have off: "conn_ok (c\<lparr>cn_handler := False\<rparr>)"
    using gen once by (intro conn_ok_same_senders [OF ok]) (simp_all add: answers_def)
  show ?thesis
  proof (cases "pkt_Type p = DataPacket")
    case False
    then have "c' = c\<lparr>cn_handler := False\<rparr> \<or> c' = c" using step by (simp add: handle_packet_def split: if_splits)
    then show ?thesis using ok off by (elim disjE) simp_all
  next
    case data: True
    show ?thesis
    proof (cases "MessageDecode (ce_zlib env) (ce_dictionary env) (pkt_Data p)")
      case None
      then show ?thesis using step data by (simp add: handle_packet_def)
    next
      case (Some x)
      show ?thesis
      proof (cases x)
        case (Inl e)
        then show ?thesis using step data Some off by (simp add: handle_packet_def)
      next
        case (Inr m)
        show ?thesis
        proof (cases "msg_Type m = Response")
          case True
          obtain g' r where take: "takePending (msg_ID m) (cn_gen c) = Some (g', r)" by (rule takePending_ok [OF gen, of "msg_ID m"]) (rule that)
          then show ?thesis
            using step data Some Inr True
            by (intro take_answer_ok [OF ok idle take,
                  where f = "\<lambda>pr. if msg_Route m = [] then m\<lparr>msg_Route := msg_Route (pr_msg pr)\<rparr> else m"])
              (simp_all add: handle_packet_def)
        next
          case False
          then have "c' = c\<lparr>cn_handling := Some m\<rparr>" using step data Some Inr by (simp add: handle_packet_def)
          then show ?thesis
            using False gen once idle by (intro conn_ok_same_senders [OF ok]) (simp_all add: answers_def)
        qed
      qed
    qed
  qed
qed

lemma deliver_parts:
  assumes "deliver m c = Some c'"
  shows "c' = c\<lparr>cn_gen := (cn_gen c)\<lparr>gn_incoming := gn_incoming (cn_gen c) @ [m]\<rparr>, cn_delivered := cn_delivered c @ [m]\<rparr>"
  using assms by (simp add: deliver_def split: if_splits)

lemma gen_ok_incoming [simp]:
  "gen_ok h (g\<lparr>gn_incoming := ms\<rparr>) = gen_ok h g" "open_request i (g\<lparr>gn_incoming := ms\<rparr>) = open_request i g"
  "gen_ok h (g\<lparr>gn_closeCh := b\<rparr>) = gen_ok h g" "open_request i (g\<lparr>gn_closeCh := b\<rparr>) = open_request i g"
  by (simp_all add: gen_ok_def open_request_def)

lemma client_step_ok:
  assumes ok: "conn_ok c" and step: "client_step env e c = Some c'"
  shows "conn_ok c'"
proof -
  let ?h = "length (filter is_holding (cn_senders c))"
  have gen: "gen_ok ?h (cn_gen c)" using ok by (simp add: conn_ok_def)
  note rule = conn_ok_same_senders [OF ok]
  show ?thesis
  proof (cases e)
    case (Send ty rt payload)
    obtain s n where "c' = c\<lparr>cn_nextID := n, cn_senders := cn_senders c @ [s]\<rparr>" "\<not> is_holding s"
      using step Send by (auto simp: sendMsgTo_def Let_def split: sum.splits)
    then show ?thesis using ok by (simp add: conn_ok_def answers_def)
  next
    case (Sender i now res)
    then show ?thesis using ok step sender_step_ok by (auto split: if_splits)
  next
    case (Refused i)
    then obtain m p where i: "i < length (cn_senders c)" "cn_senders c ! i = Wanting m p"
      and c': "c' = c\<lparr>cn_senders := (cn_senders c)[i := Returned (msg_ID m) (Some errClientConnectionClosed)]\<rparr>"
      using step by (auto split: if_splits sender.splits)
    then show ?thesis using conn_ok_sender [OF ok i(1) refl refl gen] by simp
  next
    case (Packet p)
    then show ?thesis using step handle_packet_ok [OF ok] by (simp split: if_splits)
  next
    case HandlerDeliver
    then obtain m d where m: "cn_handling c = Some m" "deliver m c = Some d" "c' = d\<lparr>cn_handling := None\<rparr>"
      using step by (auto split: option.splits)
    then show ?thesis using ok gen deliver_parts [OF m(2)] by (intro rule) (auto simp: conn_ok_def answers_def)
  next
    case HandlerGiveUp
    then have "c' = c\<lparr>cn_handling := None, cn_handler := False\<rparr>" using step by (simp split: if_splits)
    then show ?thesis using ok gen by (intro rule) (auto simp: conn_ok_def answers_def)
  next
    case (Reap now ids)
    from takeExpiredPending_ok [OF gen, of now "ce_requestTimeout env" ids] obtain g ps where
      g: "takeExpiredPending now (ce_requestTimeout env) ids (cn_gen c) = Some (g, ps)" "gen_ok ?h g" "gn_closed g = gn_closed (cn_gen c)"
      "\<forall>j. open_request j (cn_gen c) = open_request j g + count_list (map (\<lambda>p. msg_ID (pr_msg p)) ps) j" by blast
    have "cn_reaped c = []" "c' = c\<lparr>cn_gen := g, cn_reaped := ps\<rparr>" using step Reap g(1) by (auto split: if_splits)
    then show ?thesis
      using ok g(2-4) takeExpiredPending_kept [OF g(1)] by (intro rule) (auto simp: conn_ok_def answers_def)
  next
    case ReaperDeliver
    then obtain p ps d where p: "cn_reaped c = p # ps" "deliver (timeout_message (ce_timeout_status env) p) c = Some d"
      "c' = d\<lparr>cn_reaped := ps\<rparr>"
      using step by (auto split: list.splits)
    then show ?thesis
      using ok gen deliver_parts [OF p(2)] by (intro rule) (auto simp: conn_ok_def answers_def timeout_message_def)
  next
    case ReaperGiveUp
    then have "c' = c\<lparr>cn_reaped := [], cn_reaper := False\<rparr>" using step by (simp split: if_splits)
    then show ?thesis using ok gen by (intro rule) (auto simp: conn_ok_def answers_def)
  next
    case Consume
    then obtain ms where "c' = c\<lparr>cn_gen := (cn_gen c)\<lparr>gn_incoming := ms\<rparr>\<rparr>" using step by (auto split: list.splits)
    then show ?thesis using ok gen by (intro rule) (auto simp: conn_ok_def answers_def)
  next
    case (Disconnect ids)
    let ?g = "(cn_gen c)\<lparr>gn_closed := True\<rparr>"
    have ids: "distinct ids" "set ids = set (map fst (gn_pending (cn_gen c)))" using step Disconnect by (auto split: if_splits)
    have "drop_pending ids ?g = Some (?g\<lparr>gn_pending := [], gn_slots := ?h\<rparr>)"
      by (rule drop_pending_ok [where xs = "gn_pending (cn_gen c)"]) (use gen ids in \<open>auto simp: gen_ok_def\<close>)
    then have "c' = c\<lparr>cn_gen := ?g\<lparr>gn_pending := [], gn_slots := ?h\<rparr>, cn_once := True\<rparr>"
      using step Disconnect by (auto split: if_splits)
    then show ?thesis
      using ok gen by (intro rule) (auto simp: conn_ok_def gen_ok_def answers_def open_request_def)
  next
    case CloseCh
    then have "c' = c\<lparr>cn_gen := (cn_gen c)\<lparr>gn_closeCh := True\<rparr>\<rparr>" "cn_once c" using step by (auto split: if_splits)
    then show ?thesis using ok gen by (intro rule) (auto simp: conn_ok_def answers_def)
  qed
qed

lemma client_run_ok: "conn_ok c \<Longrightarrow> client_run env es c = Some c' \<Longrightarrow> conn_ok c'"
  by (induction es arbitrary: c) (auto split: option.splits dest: client_step_ok)

text \<open>
  C35. A connection has at most 30 requests in flight, and no place for one is lost: in every interleaving of the goroutines that send, receive, expire and
  disconnect, the places that are taken are those of the requests in the table and of the senders about to enter it. So a request that is taken
  from the table finds a place to give back, and the goroutine that holds the lock of the table does not wait. A closed connection has no requests.
\<close>

theorem client_places:
  assumes "client_run env es (connection_init n) = Some c"
  shows "gn_slots (cn_gen c) = length (gn_pending (cn_gen c)) + length (filter is_holding (cn_senders c)) \<and>
    gn_slots (cn_gen c) \<le> clientInflightLimit \<and> distinct (map fst (gn_pending (cn_gen c))) \<and>
    takePending i (cn_gen c) \<noteq> None \<and> (gn_closed (cn_gen c) \<longrightarrow> gn_pending (cn_gen c) = [])"
proof -
  have ok: "conn_ok c" using client_run_ok [OF conn_ok_init assms] .
  then have gen: "gen_ok (length (filter is_holding (cn_senders c))) (cn_gen c)" by (simp add: conn_ok_def)
  obtain g' r where "takePending i (cn_gen c) = Some (g', r)" by (rule takePending_ok [OF gen, of i]) (rule that)
  then show ?thesis using gen by (simp add: gen_ok_def)
qed

text \<open>
  C34. A request is answered at most once: the user gets no more responses and timeouts with an identifier than requests with that identifier came into the table, however responses,
  the expiry of requests, failing writes and the end of the connection fall together.
\<close>

theorem client_answers_once:
  assumes "client_run env es (connection_init n) = Some c"
  shows "count_list (map msg_ID (filter is_response (cn_delivered c))) i \<le> count_list (cn_registered c) i"
proof -
  have "conn_ok c" using client_run_ok [OF conn_ok_init assms] .
  then have "answers i c \<le> count_list (cn_registered c) i" by (simp add: conn_ok_def)
  then show ?thesis by (simp add: answers_def)
qed

section \<open>States of the client\<close>

text \<open>
  The connection states of the client. Attempts to connect and generations of the connection are numbered. An attempt dials, shakes hands, is about to
  be accepted, has failed and is to be taken back, or is to report its error; it is over with an error or with the generation it made.
\<close>

datatype client_state = ClientIdle | ClientConnecting | ClientConnected

datatype attempt_phase =
    Dialing | Shaking | Accepting | Failing goerr | Reporting goerr | Over "nat res"

record attempt =
  at_cancelledByDisconnect :: bool
  at_ctx :: "goerr option"
  at_phase :: attempt_phase

datatype closing = GenOpen | GenClosing | GenClosed

text \<open>\<open>cl_callbacks\<close> is the history of the generations that \<open>onDisconnected\<close> was called for.\<close>

record client =
  cl_state :: client_state
  cl_Connected :: bool
  cl_attempt :: "nat option"
  cl_current :: "nat option"
  cl_attempts :: "attempt list"
  cl_gens :: "closing list"
  cl_callbacks :: "nat list"

definition client_New :: client where
  "client_New =
     \<lparr>cl_state = ClientIdle, cl_Connected = False, cl_attempt = None, cl_current = None, cl_attempts = [], cl_gens = [], cl_callbacks = []\<rparr>"

abbreviation errClientAlreadyConnected :: goerr where
  "errClientAlreadyConnected \<equiv> ErrNew ''client: already connected''"

abbreviation errClientConnecting :: goerr where
  "errClientConnecting \<equiv> ErrNew ''client: connection in progress''"

abbreviation context_Canceled :: goerr where "context_Canceled \<equiv> ErrExternal ''context canceled''"
abbreviation context_DeadlineExceeded :: goerr where "context_DeadlineExceeded \<equiv> ErrExternal ''context deadline exceeded''"

definition start_attempt :: "client \<Rightarrow> client res" where
  "start_attempt c =
     (case cl_state c of
        ClientConnected \<Rightarrow> Inl errClientAlreadyConnected
      | ClientConnecting \<Rightarrow> Inl errClientConnecting
      | ClientIdle \<Rightarrow> Inr
          (c\<lparr>cl_attempts := cl_attempts c @ [\<lparr>at_cancelledByDisconnect = False, at_ctx = None, at_phase = Dialing\<rparr>],
             cl_attempt := Some (length (cl_attempts c)), cl_state := ClientConnecting\<rparr>))"

definition set_phase :: "nat \<Rightarrow> attempt_phase \<Rightarrow> client \<Rightarrow> client" where
  "set_phase a ph c = c\<lparr>cl_attempts := (cl_attempts c)[a := (cl_attempts c ! a)\<lparr>at_phase := ph\<rparr>]\<rparr>"

definition failConnectAttempt :: "nat \<Rightarrow> client \<Rightarrow> client" where
  "failConnectAttempt a c =
     (if cl_attempt c = Some a then c\<lparr>cl_attempt := None, cl_state := ClientIdle, cl_Connected := False\<rparr> else c)"

text \<open>\<open>late\<close> tells whether the error is a timeout of the network and the deadline of the attempt is over.\<close>

definition connectAttemptError :: "bool \<Rightarrow> attempt \<Rightarrow> goerr \<Rightarrow> goerr" where
  "connectAttemptError late att fallback =
     (if at_cancelledByDisconnect att then errClientConnectionClosed
      else case at_ctx att of Some e \<Rightarrow> e | None \<Rightarrow> if late then context_DeadlineExceeded else fallback)"

text \<open>Accepting a connection, the last section of \<open>connectToContext\<close> under the lock.\<close>

definition accept_connection :: "nat \<Rightarrow> client \<Rightarrow> client" where
  "accept_connection a c =
     (if cl_attempt c \<noteq> Some a \<or> cl_state c \<noteq> ClientConnecting \<or> at_ctx (cl_attempts c ! a) \<noteq> None
      then set_phase a (Failing errClientConnectionClosed) c
      else set_phase a (Over (Inr (length (cl_gens c))))
             (c\<lparr>cl_gens := cl_gens c @ [GenOpen], cl_current := Some (length (cl_gens c)), cl_Connected := True,
                cl_state := ClientConnected, cl_attempt := None\<rparr>))"

text \<open>\<open>connectToContext\<close> from one section under the lock to the next. \<open>res\<close> is the error of dialling or of shaking hands.\<close>

definition attempt_step :: "goerr option \<Rightarrow> bool \<Rightarrow> nat \<Rightarrow> client \<Rightarrow> client option" where
  "attempt_step res late a c =
     (if a < length (cl_attempts c)
      then case at_phase (cl_attempts c ! a) of
          Dialing \<Rightarrow> Some
            (case res of
               Some e \<Rightarrow> set_phase a (Failing e) c
             | None \<Rightarrow>
                 if cl_attempt c \<noteq> Some a \<or> cl_state c \<noteq> ClientConnecting
                 then set_phase a (Over (Inl errClientConnectionClosed)) c
                 else set_phase a Shaking c)
        | Shaking \<Rightarrow> Some
            (case res of
               Some e \<Rightarrow> set_phase a (Failing e) c
             | None \<Rightarrow> (case at_ctx (cl_attempts c ! a) of Some e \<Rightarrow> set_phase a (Failing e) c | None \<Rightarrow> set_phase a Accepting c))
        | Accepting \<Rightarrow> Some (accept_connection a c)
        | Failing e \<Rightarrow> Some (set_phase a (Reporting e) (failConnectAttempt a c))
        | Reporting e \<Rightarrow> Some (set_phase a (Over (Inl (connectAttemptError late (cl_attempts c ! a) e))) c)
        | Over r \<Rightarrow> None
      else None)"

definition cancel_attempt :: "bool \<Rightarrow> goerr \<Rightarrow> nat \<Rightarrow> client \<Rightarrow> client" where
  "cancel_attempt by_disconnect e a c =
     c\<lparr>cl_attempts := (cl_attempts c)[a := (cl_attempts c ! a)
         \<lparr>at_cancelledByDisconnect := by_disconnect \<or> at_cancelledByDisconnect (cl_attempts c ! a),
          at_ctx := (case at_ctx (cl_attempts c ! a) of None \<Rightarrow> Some e | Some e' \<Rightarrow> Some e')\<rparr>]\<rparr>"

text \<open>\<open>disconnectGeneration\<close>: the first call closes, and then resets the client under the lock. Later calls do nothing.\<close>

definition close_once :: "nat \<Rightarrow> client \<Rightarrow> client" where
  "close_once g c =
     (if g < length (cl_gens c) \<and> cl_gens c ! g = GenOpen then c\<lparr>cl_gens := (cl_gens c)[g := GenClosing]\<rparr> else c)"

definition close_client :: "nat \<Rightarrow> client \<Rightarrow> client option" where
  "close_client g c =
     (if g < length (cl_gens c) \<and> cl_gens c ! g = GenClosing
      then let c = c\<lparr>cl_gens := (cl_gens c)[g := GenClosed]\<rparr> in
        Some (if cl_current c = Some g
              then c\<lparr>cl_current := None, cl_state := ClientIdle, cl_Connected := False, cl_callbacks := cl_callbacks c @ [g]\<rparr>
              else c)
      else None)"

definition client_Disconnect :: "client \<Rightarrow> client" where
  "client_Disconnect c =
     (case (if cl_state c = ClientConnecting then cl_attempt c else None) of
        Some a \<Rightarrow> cancel_attempt True context_Canceled a c
      | None \<Rightarrow> (case cl_current c of Some g \<Rightarrow> close_once g c | None \<Rightarrow> c))"

datatype state_event =
    Connect | Attempt nat "goerr option" bool | Expire nat | UserDisconnect | LoopDisconnect nat | ResetClient nat

fun state_step :: "state_event \<Rightarrow> client \<Rightarrow> client option" where
  "state_step Connect c = Some (case start_attempt c of Inl e \<Rightarrow> c | Inr c \<Rightarrow> c)"
| "state_step (Attempt a res late) c = attempt_step res late a c"
| "state_step (Expire a) c =
     (if a < length (cl_attempts c) then Some (cancel_attempt False context_DeadlineExceeded a c) else None)"
| "state_step UserDisconnect c = Some (client_Disconnect c)"
| "state_step (LoopDisconnect g) c = Some (close_once g c)"
| "state_step (ResetClient g) c = close_client g c"

fun state_run :: "state_event list \<Rightarrow> client \<Rightarrow> client option" where
  "state_run [] c = Some c"
| "state_run (e # es) c = (case state_step e c of None \<Rightarrow> None | Some c \<Rightarrow> state_run es c)"

fun active :: "attempt_phase \<Rightarrow> bool" where
  "active (Reporting e) = False"
| "active (Over r) = False"
| "active _ = True"

definition attempts_ok :: "client \<Rightarrow> bool" where
  "attempts_ok c \<longleftrightarrow>
     (\<forall>a. cl_attempt c = Some a \<longleftrightarrow> a < length (cl_attempts c) \<and> active (at_phase (cl_attempts c ! a))) \<and>
     (\<forall>a<length (cl_attempts c). at_cancelledByDisconnect (cl_attempts c ! a) \<longrightarrow>
        at_ctx (cl_attempts c ! a) \<noteq> None \<and> (\<forall>g. at_phase (cl_attempts c ! a) \<noteq> Over (Inr g)))"

definition gens_ok :: "client \<Rightarrow> bool" where
  "gens_ok c \<longleftrightarrow>
     (\<forall>g. cl_current c = Some g \<longleftrightarrow> g < length (cl_gens c) \<and> cl_gens c ! g \<noteq> GenClosed) \<and>
     distinct (cl_callbacks c) \<and> set (cl_callbacks c) = {g. g < length (cl_gens c) \<and> cl_gens c ! g = GenClosed}"

definition state_ok :: "client \<Rightarrow> bool" where
  "state_ok c \<longleftrightarrow>
     (cl_state c = ClientConnecting) = (cl_attempt c \<noteq> None) \<and> (cl_state c = ClientConnected) = (cl_current c \<noteq> None) \<and>
     cl_Connected c = (cl_current c \<noteq> None)"

definition client_ok :: "client \<Rightarrow> bool" where
  "client_ok c \<longleftrightarrow> attempts_ok c \<and> gens_ok c \<and> state_ok c"

lemma client_ok_New: "client_ok client_New"
  by (simp add: client_ok_def attempts_ok_def gens_ok_def state_ok_def client_New_def)

lemma set_phase_parts [simp]:
  "cl_state (set_phase a ph c) = cl_state c" "cl_Connected (set_phase a ph c) = cl_Connected c"
  "cl_attempt (set_phase a ph c) = cl_attempt c" "cl_current (set_phase a ph c) = cl_current c"
  "cl_gens (set_phase a ph c) = cl_gens c" "cl_callbacks (set_phase a ph c) = cl_callbacks c"
  "length (cl_attempts (set_phase a ph c)) = length (cl_attempts c)"
  by (simp_all add: set_phase_def)

lemma set_phase_nth:
  "a < length (cl_attempts c) \<Longrightarrow> cl_attempts (set_phase a ph c) ! b =
     (if b = a then (cl_attempts c ! a)\<lparr>at_phase := ph\<rparr> else cl_attempts c ! b)"
  by (auto simp: set_phase_def nth_list_update)

lemma gens_ok_set_phase [simp]: "gens_ok (set_phase a ph c) = gens_ok c"
  by (simp add: gens_ok_def)

lemma state_ok_set_phase [simp]: "state_ok (set_phase a ph c) = state_ok c"
  by (simp add: state_ok_def)

text \<open>An attempt goes on: it stays the attempt of the client as long as it is active.\<close>

lemma set_phase_ok:
  assumes "client_ok c" "a < length (cl_attempts c)" "active ph = active (at_phase (cl_attempts c ! a))" "\<And>g. ph \<noteq> Over (Inr g)"
  shows "client_ok (set_phase a ph c)"
  using assms by (auto simp: client_ok_def attempts_ok_def set_phase_nth)

lemma only_attempt:
  assumes "attempts_ok c" "cl_attempt c = Some a" "b < length (cl_attempts c)" "active (at_phase (cl_attempts c ! b))"
  shows "b = a"
  using assms by (metis attempts_ok_def option.inject)

lemma attempt_active:
  assumes "attempts_ok c" "cl_attempt c = Some a"
  shows "a < length (cl_attempts c)" "active (at_phase (cl_attempts c ! a))"
  using assms unfolding attempts_ok_def by blast+

lemma fail_ok:
  assumes ok: "client_ok c" and a: "cl_attempt c = Some a"
  shows "client_ok (set_phase a (Reporting e) (failConnectAttempt a c))"
proof -
  have len: "a < length (cl_attempts c)" using ok a attempt_active(1) by (simp add: client_ok_def)
  let ?c = "failConnectAttempt a c"
  have c: "?c = c\<lparr>cl_attempt := None, cl_state := ClientIdle, cl_Connected := False\<rparr>" using a by (simp add: failConnectAttempt_def)
  have att: "attempts_ok c" using ok by (simp add: client_ok_def)
  have "attempts_ok (set_phase a (Reporting e) ?c)"
    using att len only_attempt [OF att a] c by (auto simp: attempts_ok_def set_phase_nth)
  moreover have "cl_current c = None" using ok a by (auto simp: client_ok_def state_ok_def)
  ultimately show ?thesis using ok c by (auto simp: client_ok_def gens_ok_def state_ok_def)
qed

lemma accept_ok:
  assumes ok: "client_ok c" and a: "cl_attempt c = Some a" and ph: "at_phase (cl_attempts c ! a) = Accepting"
  shows "client_ok (accept_connection a c)"
proof -
  have att: "attempts_ok c" using ok by (simp add: client_ok_def)
  have len: "a < length (cl_attempts c)" using attempt_active(1) [OF att a] .
  have state: "cl_state c = ClientConnecting" using ok a by (simp add: client_ok_def state_ok_def)
  show ?thesis
  proof (cases "at_ctx (cl_attempts c ! a)")
    case None
    let ?n = "length (cl_gens c)"
    let ?d = "c\<lparr>cl_gens := cl_gens c @ [GenOpen], cl_current := Some ?n, cl_Connected := True,
                cl_state := ClientConnected, cl_attempt := None\<rparr>"
    have c: "accept_connection a c = set_phase a (Over (Inr ?n)) ?d" using a state None by (simp add: accept_connection_def)
    have cur: "cl_current c = None" using ok state by (auto simp: client_ok_def state_ok_def)
    have "attempts_ok (set_phase a (Over (Inr ?n)) ?d)"
      using att len None only_attempt [OF att a] by (auto simp: attempts_ok_def set_phase_nth)
    moreover have "gens_ok ?d" using ok cur by (auto simp: client_ok_def gens_ok_def nth_append less_Suc_eq)
    moreover have "state_ok ?d" by (simp add: state_ok_def)
    ultimately show ?thesis using c by (simp add: client_ok_def)
  next
    case (Some e)
    then have "accept_connection a c = set_phase a (Failing errClientConnectionClosed) c" by (simp add: accept_connection_def)
    then show ?thesis using set_phase_ok [OF ok len, of "Failing errClientConnectionClosed"] ph by simp
  qed
qed

lemma attempt_step_ok:
  assumes ok: "client_ok c" and step: "attempt_step res late a c = Some c'"
  shows "client_ok c'"
proof -
  have len: "a < length (cl_attempts c)" using step by (simp add: attempt_step_def split: if_splits)
  have att: "attempts_ok c" using ok by (simp add: client_ok_def)
  note set = set_phase_ok [OF ok len]
  have cur: "cl_attempt c = Some a \<and> cl_state c = ClientConnecting" if "active (at_phase (cl_attempts c ! a))"
    using that ok len by (auto simp: client_ok_def attempts_ok_def state_ok_def)
  show ?thesis
  proof (cases "at_phase (cl_attempts c ! a)")
    case Dialing
    then show ?thesis using step len cur set by (auto simp: attempt_step_def split: option.splits)
  next
    case Shaking
    then show ?thesis using step len cur set by (auto simp: attempt_step_def split: option.splits)
  next
    case Accepting
    then show ?thesis using step len cur accept_ok [OF ok] by (auto simp: attempt_step_def)
  next
    case (Failing e)
    then show ?thesis using step len cur fail_ok [OF ok] by (auto simp: attempt_step_def)
  next
    case (Reporting e)
    then show ?thesis using step len set by (auto simp: attempt_step_def)
  next
    case (Over r)
    then show ?thesis using step len by (simp add: attempt_step_def)
  qed
qed

lemma cancel_ok:
  assumes ok: "client_ok c" and len: "a < length (cl_attempts c)" and dis: "by_disconnect \<Longrightarrow> cl_attempt c = Some a"
  shows "client_ok (cancel_attempt by_disconnect e a c)"
proof -
  let ?x = "cl_attempts (cancel_attempt by_disconnect e a c)"
  have nth: "?x ! b = (if b = a then (cl_attempts c ! a)
      \<lparr>at_cancelledByDisconnect := by_disconnect \<or> at_cancelledByDisconnect (cl_attempts c ! a),
       at_ctx := (case at_ctx (cl_attempts c ! a) of None \<Rightarrow> Some e | Some e' \<Rightarrow> Some e')\<rparr> else cl_attempts c ! b)" for b
    using len by (auto simp: cancel_attempt_def nth_list_update)
  have att: "attempts_ok c" using ok by (simp add: client_ok_def)
  have rest: "cl_attempt (cancel_attempt by_disconnect e a c) = cl_attempt c" "length ?x = length (cl_attempts c)"
    by (simp_all add: cancel_attempt_def)
  have never: "at_phase (cl_attempts c ! a) \<noteq> Over (Inr g)" if "by_disconnect \<or> at_cancelledByDisconnect (cl_attempts c ! a)" for g
  proof (cases by_disconnect)
    case True
    then show ?thesis using attempt_active(2) [OF att dis] by auto
  next
    case False
    then show ?thesis using that att len by (simp add: attempts_ok_def)
  qed
  have "attempts_ok (cancel_attempt by_disconnect e a c)"
    using att never by (simp add: attempts_ok_def rest nth split: option.splits)
  then show ?thesis using ok by (simp add: client_ok_def gens_ok_def state_ok_def cancel_attempt_def)
qed

lemma close_once_ok: "client_ok c \<Longrightarrow> client_ok (close_once g c)"
  by (auto simp: client_ok_def attempts_ok_def gens_ok_def state_ok_def close_once_def nth_list_update)

lemma close_client_ok:
  assumes ok: "client_ok c" and step: "close_client g c = Some c'"
  shows "client_ok c'"
proof -
  have g: "g < length (cl_gens c)" "cl_gens c ! g = GenClosing" using step by (auto simp: close_client_def split: if_splits)
  then have cur: "cl_current c = Some g" using ok by (simp add: client_ok_def gens_ok_def)
  have c': "c' = c\<lparr>cl_gens := (cl_gens c)[g := GenClosed], cl_current := None, cl_state := ClientIdle, cl_Connected := False,
      cl_callbacks := cl_callbacks c @ [g]\<rparr>"
    using step g cur by (simp add: close_client_def)
  have gens: "gens_ok c" using ok by (simp add: client_ok_def)
  have others: "h = g" if "h < length (cl_gens c)" "cl_gens c ! h \<noteq> GenClosed" for h
    using that cur gens by (metis gens_ok_def option.inject)
  have new: "g \<notin> set (cl_callbacks c)" using gens g by (simp add: gens_ok_def)
  have closed: "cl_gens c ! h = GenClosed" if "h < length (cl_gens c)" "h \<noteq> g" for h using others that by blast
  have "gens_ok c'"
    using gens g c' new closed by (auto simp: gens_ok_def nth_list_update)
  moreover have "cl_attempt c = None" using ok cur by (auto simp: client_ok_def state_ok_def)
  ultimately show ?thesis using ok c' by (auto simp: client_ok_def attempts_ok_def state_ok_def)
qed

lemma start_attempt_ok:
  assumes ok: "client_ok c" and start: "start_attempt c = Inr c'"
  shows "client_ok c'"
proof -
  have idle: "cl_state c = ClientIdle" using start by (simp add: start_attempt_def split: client_state.splits)
  then have none: "cl_attempt c = None" "cl_current c = None" using ok by (auto simp: client_ok_def state_ok_def)
  have c': "c' = c\<lparr>cl_attempts := cl_attempts c @ [\<lparr>at_cancelledByDisconnect = False, at_ctx = None, at_phase = Dialing\<rparr>],
      cl_attempt := Some (length (cl_attempts c)), cl_state := ClientConnecting\<rparr>"
    using start idle by (simp add: start_attempt_def)
  have "\<not> active (at_phase (cl_attempts c ! b))" if "b < length (cl_attempts c)" for b
    using that ok none(1) by (metis attempts_ok_def client_ok_def option.distinct(1))
  then have "attempts_ok c'" using ok c' by (auto simp: client_ok_def attempts_ok_def nth_append less_Suc_eq)
  then show ?thesis using ok c' none by (auto simp: client_ok_def gens_ok_def state_ok_def)
qed

lemma state_step_ok:
  assumes ok: "client_ok c" and step: "state_step e c = Some c'"
  shows "client_ok c'"
proof (cases e)
  case Connect
  then show ?thesis using ok step start_attempt_ok by (auto split: sum.splits)
next
  case (Attempt a res late)
  then show ?thesis using step attempt_step_ok [OF ok] by simp
next
  case (Expire a)
  then show ?thesis using step cancel_ok [OF ok, of a False] by (auto split: if_splits)
next
  case UserDisconnect
  have "a < length (cl_attempts c)" if "cl_attempt c = Some a" for a
    using that ok attempt_active(1) by (simp add: client_ok_def)
  then show ?thesis
    using UserDisconnect ok step cancel_ok [OF ok] close_once_ok [OF ok]
    by (auto simp: client_Disconnect_def split: option.splits if_splits)
next
  case (LoopDisconnect g)
  then show ?thesis using step close_once_ok [OF ok] by auto
next
  case (ResetClient g)
  then show ?thesis using step close_client_ok [OF ok] by simp
qed

lemma state_run_ok: "client_ok c \<Longrightarrow> state_run es c = Some c' \<Longrightarrow> client_ok c'"
  by (induction es arbitrary: c) (auto split: option.splits dest: state_step_ok)

text \<open>
  C36. The client has one connection at a time. In every interleaving of attempts to connect, of their timeouts and of disconnections from any side, its flags agree:
  it is connected exactly with a current generation and connecting exactly with an attempt under way. Every other generation is closed, \<open>onDisconnected\<close> was called exactly once
  for each closed one, and an attempt that \<open>Disconnect\<close> cancelled makes no connection.
\<close>

theorem client_one_connection:
  assumes "state_run es client_New = Some c"
  shows "cl_Connected c = (cl_current c \<noteq> None) \<and> (cl_state c = ClientConnected) = (cl_current c \<noteq> None) \<and>
    (cl_state c = ClientConnecting) = (cl_attempt c \<noteq> None) \<and>
    (\<forall>g. cl_current c = Some g \<longleftrightarrow> g < length (cl_gens c) \<and> cl_gens c ! g \<noteq> GenClosed) \<and>
    distinct (cl_callbacks c) \<and> set (cl_callbacks c) = {g. g < length (cl_gens c) \<and> cl_gens c ! g = GenClosed} \<and>
    (\<forall>a<length (cl_attempts c). at_cancelledByDisconnect (cl_attempts c ! a) \<longrightarrow> (\<forall>g. at_phase (cl_attempts c ! a) \<noteq> Over (Inr g)))"
proof -
  have "client_ok c" using state_run_ok [OF client_ok_New assms] .
  then show ?thesis by (simp add: client_ok_def attempts_ok_def gens_ok_def state_ok_def)
qed

section \<open>Packets from the server\<close>

text \<open>The client reads packets like the server: \<open>readPacket\<close> succeeds exactly where \<open>GetNextMessage\<close> of a TCP connection does, and takes the same bytes.\<close>

lemma readPacket_like_server:
  "readPacket conn = (Inr p, conn') \<longleftrightarrow>
     (\<exists>m. tcp_GetNextMessage conn = (Inr m, conn') \<and> m = frame (pkt_Type p) (pkt_Data p) \<and>
       pkt_Length p = word_of_nat (length (pkt_Data p)))"
proof -
  let ?n = "HeadLength" and ?bs = "tcp_bytes conn"
  show ?thesis
  proof (cases "?n \<le> length ?bs")
    case False
    then have "\<nexists>sz ty. ParseHeader ?bs = Inr (sz, ty)" by (auto simp: ParseHeader_def)
    then show ?thesis
      using False by (auto simp: readPacket_def tcp_GetNextMessage_def ReadFull_def read_limited_def split: option.splits sum.splits)
  next
    case True
    let ?c = "conn\<lparr>tcp_bytes := drop ?n ?bs\<rparr>"
    show ?thesis
    proof (cases "ParseHeader (take ?n ?bs)")
      case (Inl e)
      then show ?thesis using True by (auto simp: readPacket_def tcp_GetNextMessage_def ReadFull_def read_limited_def HeadLength_def)
    next
      case (Inr st)
      obtain sz ty where st: "st = (sz, ty)" by (cases st)
      note head = ParseHeader_InrD [OF Inr [unfolded st]]
      have frame: "take ?n ?bs @ xs = frame ty xs" if "length xs = unat sz" for xs
        using head(2) that by (simp add: frame_def)
      show ?thesis
      proof (cases "unat sz \<le> length ?bs - ?n")
        case False
        then have "int (length (drop ?n ?bs)) < sint sz" unfolding head(4) length_drop by linarith
        then show ?thesis
          using True Inr st head(4) False
          by (auto simp: readPacket_def tcp_GetNextMessage_def ReadFull_def read_limited_def HeadLength_def split: option.splits)
      next
        case enough: True
        let ?xs = "take (unat sz) (drop ?n ?bs)"
        let ?d = "?c\<lparr>tcp_bytes := drop (unat sz) (drop ?n ?bs)\<rparr>"
        have client: "readPacket conn = (Inr \<lparr>pkt_Type = ty, pkt_Length = sz, pkt_Data = ?xs\<rparr>, ?d)"
          using True Inr st head(4) enough by (simp add: readPacket_def ReadFull_def)
        have server: "tcp_GetNextMessage conn = (Inr (frame ty ?xs), ?d)"
          using True Inr st head(4) enough frame [of ?xs]
          by (auto simp: tcp_GetNextMessage_def read_limited_def HeadLength_def)
        have len: "sz = word_of_nat (length ?xs)" using enough by simp
        have "frame ty ?xs = frame (pkt_Type p) (pkt_Data p) \<Longrightarrow> pkt_Type p = ty \<and> pkt_Data p = ?xs"
          by (auto simp: frame_def IntToBytes_def)
        then show ?thesis unfolding client server using len by (cases p) auto
      qed
    qed
  qed
qed

section \<open>Examples\<close>

definition client_example :: "unit client_env" where
  "client_example =
     \<lparr>ce_compression = False, ce_zlib = \<lparr>zlib_write = (\<lambda>b. Inr b), zlib_NewReader = (\<lambda>b. Inl ErrInvalidMessage), zlib_ReadAll = (\<lambda>_. Inr [])\<rparr>,
      ce_dictionary = \<lparr>routes = Map.empty, codes = Map.empty\<rparr>, ce_requestTimeout = 5, ce_timeout_status = []\<rparr>"

text \<open>A client that has begun to send its first request, and a run in which the request is answered and a late answer comes in too.\<close>

definition first_request :: message where
  "first_request = \<lparr>msg_Type = Request, msg_ID = 1, msg_Route = ''a.b'', msg_Data = [7], msg_compressed = False, msg_Err = False\<rparr>"

definition sending :: connection where
  "sending = (connection_init 0)\<lparr>cn_nextID := 1,
     cn_senders := [Wanting first_request (frame DataPacket [0, 1, 3, 97, 46, 98, 7])]\<rparr>"

definition answered_run :: "client_event list" where
  "answered_run =
     [Sender 0 3 None, Sender 0 3 None, Sender 0 3 None, Sender 0 3 None,
      Packet \<lparr>pkt_Type = DataPacket, pkt_Length = 2, pkt_Data = [4, 1]\<rparr>, HandlerDeliver, Reap 9 [],
      Packet \<lparr>pkt_Type = DataPacket, pkt_Length = 2, pkt_Data = [4, 1]\<rparr>]"

lemma sending_reached: "client_run client_example (Send Request ''a.b'' [7] # es) (connection_init 0) = client_run client_example es sending"
proof -
  have "MessageEncode False (ce_zlib client_example) (ce_dictionary client_example) first_request = Inr ([0, 1, 3, 97, 46, 98, 7], first_request)"
    by code_simp
  then have "buildPacket client_example first_request = Inr (frame DataPacket [0, 1, 3, 97, 46, 98, 7])"
    by (simp add: buildPacket_def client_example_def PacketEncode_Inr_iff validPacketType_def MaxPacketSize_def)
  then show ?thesis by (simp add: sendMsgTo_def Let_def NewMessage_def sending_def connection_init_def first_request_def)
qed

theorem client_places_witness:
  "\<exists>c. client_run client_example [Send Request ''a.b'' [7], Sender 0 3 None, Sender 0 3 None] (connection_init 0) = Some c \<and>
     gn_slots (cn_gen c) = 1 \<and> length (gn_pending (cn_gen c)) + length (filter is_holding (cn_senders c)) = 1 \<and>
     takePending 1 (cn_gen c) \<noteq> None"
proof -
  have "map_option (\<lambda>c. gn_slots (cn_gen c)) (client_run client_example [Sender 0 3 None, Sender 0 3 None] sending) = Some 1"
    by code_simp
  then obtain c where c: "client_run client_example [Sender 0 3 None, Sender 0 3 None] sending = Some c" "gn_slots (cn_gen c) = 1"
    by (auto simp del: client_run.simps)
  have run: "client_run client_example [Send Request ''a.b'' [7], Sender 0 3 None, Sender 0 3 None] (connection_init 0) = Some c"
    unfolding sending_reached by (rule c(1))
  show ?thesis using client_places [OF run, of 1] run c(2) by (intro exI [of _ c]) simp
qed

theorem client_answers_once_witness:
  "\<exists>c. client_run client_example (Send Request ''a.b'' [7] # answered_run) (connection_init 0) = Some c \<and>
     map msg_ID (cn_delivered c) = [1] \<and> cn_registered c = [1] \<and>
     count_list (map msg_ID (filter is_response (cn_delivered c))) 1 \<le> 1"
proof -
  have "map_option (\<lambda>c. (map msg_ID (cn_delivered c), cn_registered c)) (client_run client_example answered_run sending) = Some ([1], [1])"
    by code_simp
  then obtain c where c: "client_run client_example answered_run sending = Some c"
    "map msg_ID (cn_delivered c) = [1]" "cn_registered c = [1]"
    by (auto simp del: client_run.simps)
  have run: "client_run client_example (Send Request ''a.b'' [7] # answered_run) (connection_init 0) = Some c"
    unfolding sending_reached by (rule c(1))
  show ?thesis using client_answers_once [OF run, of 1] run c(2,3) by (intro exI [of _ c]) simp
qed

theorem client_one_connection_witness:
  "\<exists>c. state_run [Connect, UserDisconnect, Attempt 0 None False, Attempt 0 None False, Attempt 0 None False, Connect,
       Attempt 1 None False, Attempt 1 None False, Attempt 1 None False, LoopDisconnect 0, UserDisconnect, ResetClient 0] client_New = Some c \<and>
     length (cl_gens c) = 1 \<and> \<not> cl_Connected c \<and> set (cl_callbacks c) = {0}"
proof -
  let ?es = "[Connect, UserDisconnect, Attempt 0 None False, Attempt 0 None False, Attempt 0 None False, Connect,
       Attempt 1 None False, Attempt 1 None False, Attempt 1 None False, LoopDisconnect 0, UserDisconnect, ResetClient 0]"
  have "map_option (\<lambda>c. (cl_gens c, cl_current c)) (state_run ?es client_New) = Some ([GenClosed], None)" by code_simp
  then obtain c where c: "state_run ?es client_New = Some c" "cl_gens c = [GenClosed]" "cl_current c = None"
    by (auto simp del: state_run.simps)
  show ?thesis using client_one_connection [OF c(1)] c by (intro exI [of _ c]) auto
qed

end
