(* ===== verification/App.thy ===== *)
theory App
  imports Nats_Rpc Etcd_Groups
begin

text \<open>
  The application: its modules (\<open>module.go\<close>), how it starts and stops (\<open>app.go\<close>), pushes, kicks and group broadcasts (\<open>push.go\<close>, \<open>kick.go\<close>, \<open>group.go\<close>), the calls of other
  servers (\<open>rpc.go\<close>) and the module that keeps sessions unique (\<open>modules/unique_session.go\<close>). Modules are stopped in the reverse of the order they are started in; a broadcast
  reaches every member of its group once; a shutdown that is asked for while sessions are drained makes the server panic, and a push without
  the type of the frontend is lost without an error.
\<close>

section \<open>Modules\<close>

text \<open>A module, with its name and whether it also is a session module.\<close>

record app_module =
  md_name :: string
  md_session :: bool

record modules =
  ap_modulesMap :: "string \<rightharpoonup> app_module"
  ap_modulesArr :: "app_module list"
  ap_sessionModulesArr :: "app_module list"

definition alreadyRegistered :: "string \<Rightarrow> modules \<Rightarrow> goerr option" where
  "alreadyRegistered name M = (if ap_modulesMap M name \<noteq> None then Some (ErrNew ''module already exists'') else None)"

definition RegisterModuleAfter :: "app_module \<Rightarrow> modules \<Rightarrow> modules res" where
  "RegisterModuleAfter m M =
     (case alreadyRegistered (md_name m) M of
        Some e \<Rightarrow> Inl e
      | None \<Rightarrow> Inr
          (M\<lparr>ap_modulesMap := (ap_modulesMap M)(md_name m \<mapsto> m), ap_modulesArr := ap_modulesArr M @ [m],
             ap_sessionModulesArr := (if md_session m then ap_sessionModulesArr M @ [m] else ap_sessionModulesArr M)\<rparr>))"

definition RegisterModule :: "app_module \<Rightarrow> modules \<Rightarrow> modules res" where
  "RegisterModule m M = RegisterModuleAfter m M"

definition RegisterModuleBefore :: "app_module \<Rightarrow> modules \<Rightarrow> modules res" where
  "RegisterModuleBefore m M =
     (case alreadyRegistered (md_name m) M of
        Some e \<Rightarrow> Inl e
      | None \<Rightarrow> Inr
          (M\<lparr>ap_modulesMap := (ap_modulesMap M)(md_name m \<mapsto> m), ap_modulesArr := m # ap_modulesArr M,
             ap_sessionModulesArr := (if md_session m then m # ap_sessionModulesArr M else ap_sessionModulesArr M)\<rparr>))"

definition GetModule :: "string \<Rightarrow> modules \<Rightarrow> app_module res" where
  "GetModule name M = (case ap_modulesMap M name of Some m \<Rightarrow> Inr m | None \<Rightarrow> Inl (ErrNew ''module not found''))"

text \<open>The calls that modules get, in order.\<close>

datatype lifecycle = LInit string | LAfterInit string | LBeforeShutdown string | LShutdown string | LDrain string

text \<open>\<open>startModules\<close>, with the calls it makes; \<open>False\<close> when the initialisation of a module fails, which ends the process.\<close>

fun init_loop :: "(string \<Rightarrow> bool) \<Rightarrow> app_module list \<Rightarrow> lifecycle list \<times> bool" where
  "init_loop ok [] = ([], True)"
| "init_loop ok (m # ms) =
     (if ok (md_name m) then case init_loop ok ms of (log, r) \<Rightarrow> (LInit (md_name m) # log, r) else ([LInit (md_name m)], False))"

definition startModules :: "(string \<Rightarrow> bool) \<Rightarrow> modules \<Rightarrow> lifecycle list \<times> bool" where
  "startModules ok M =
     (case init_loop ok (ap_modulesArr M) of
        (log, True) \<Rightarrow> (log @ map (\<lambda>m. LAfterInit (md_name m)) (ap_modulesArr M), True)
      | (log, False) \<Rightarrow> (log, False))"

definition startModuleSessionDraining :: "modules \<Rightarrow> lifecycle list" where
  "startModuleSessionDraining M = map (\<lambda>m. LDrain (md_name m)) (rev (ap_sessionModulesArr M))"

definition maxModuleSessionCount :: "(string \<Rightarrow> i64) \<Rightarrow> modules \<Rightarrow> i64" where
  "maxModuleSessionCount count M =
     fold (\<lambda>m c. if c <s count (md_name m) then count (md_name m) else c) (ap_sessionModulesArr M) 0"

definition shutdownModules :: "modules \<Rightarrow> lifecycle list" where
  "shutdownModules M =
     map (\<lambda>m. LBeforeShutdown (md_name m)) (rev (ap_modulesArr M)) @ map (\<lambda>m. LShutdown (md_name m)) (rev (ap_modulesArr M))"

section \<open>Starting\<close>

definition framework_module :: "string \<Rightarrow> app_module" where
  "framework_module name = \<lparr>md_name = name, md_session = False\<rparr>"

text \<open>
  The modules that \<open>Start\<close> and then \<open>listen\<close> add to those of the user, before all of them are started. An error in \<open>Start\<close> ends the process, \<open>None\<close>; errors in \<open>listen\<close> are ignored.
  \<open>cluster\<close> is the mode of the server and \<open>conf\<close> tells whether there is a configuration to reload.
\<close>

definition start_registers :: "bool \<Rightarrow> modules \<Rightarrow> modules option" where
  "start_registers cluster M =
     (if \<not> cluster then Some M
      else case and_then (RegisterModuleBefore (framework_module ''rpcServer'') M)
             (\<lambda>M. and_then (RegisterModuleBefore (framework_module ''rpcClient'') M)
             (RegisterModuleAfter (framework_module ''serviceDiscovery''))) of
        Inl e \<Rightarrow> None
      | Inr M \<Rightarrow> Some M)"

definition or_same :: "modules \<Rightarrow> modules res \<Rightarrow> modules" where
  "or_same M r = (case r of Inl e \<Rightarrow> M | Inr M' \<Rightarrow> M')"

definition listen_registers :: "bool \<Rightarrow> bool \<Rightarrow> modules \<Rightarrow> modules" where
  "listen_registers cluster conf M =
     (let M = (if cluster then or_same M (RegisterModule (framework_module ''uniqueSession'') M) else M);
          M = (if conf then or_same M (RegisterModuleBefore (framework_module ''configLoader'') M) else M)
      in or_same M (RegisterModuleBefore (framework_module ''statefulGoPool'') M))"

section \<open>Stopping\<close>

text \<open>
  The end of \<open>Start\<close>: it waits for the channel \<open>dieChan\<close> or a signal; at the signal SIGTERM it may first drain the sessions, and at every signal it closes \<open>dieChan\<close> itself.
  Closing a closed channel is a panic.
\<close>

datatype os_signal = SIGINT | SIGQUIT | SIGTERM

datatype stop_phase = Waiting | Draining | Stopping | StopPanicked | Stopped

record stopping =
  st_dieClosed :: bool
  st_phase :: stop_phase

text \<open>\<open>Shutdown\<close> closes the channel unless it is closed.\<close>

definition app_Shutdown :: "stopping \<Rightarrow> stopping" where
  "app_Shutdown s = (if st_dieClosed s then s else s\<lparr>st_dieClosed := True\<rparr>)"

definition close_die :: "stopping \<Rightarrow> stopping" where
  "close_die s =
     (if st_dieClosed s then s\<lparr>st_phase := StopPanicked\<rparr> else s\<lparr>st_dieClosed := True, st_phase := Stopping\<rparr>)"

text \<open>\<open>DrainRound\<close> is a look at the number of sessions that are left, \<open>DrainSignal\<close> and \<open>DrainTimeout\<close> end the draining early, and \<open>StopAll\<close> closes the sessions and stops modules and components.\<close>

datatype stop_event =
    ShutdownCalled | Die | Signal os_signal | DrainRound i64 | DrainSignal os_signal | DrainTimeout | StopAll

definition stop_step :: "bool \<Rightarrow> stop_event \<Rightarrow> stopping \<Rightarrow> stopping option" where
  "stop_step drain e s =
     (case (e, st_phase s) of
        (ShutdownCalled, _) \<Rightarrow> Some (app_Shutdown s)
      | (Die, Waiting) \<Rightarrow> if st_dieClosed s then Some (s\<lparr>st_phase := Stopping\<rparr>) else None
      | (Signal sg, Waiting) \<Rightarrow> if drain \<and> sg = SIGTERM then Some (s\<lparr>st_phase := Draining\<rparr>) else Some (close_die s)
      | (DrainRound count, Draining) \<Rightarrow> if count = 0 then Some (close_die s) else Some s
      | (DrainSignal sg, Draining) \<Rightarrow> Some (close_die s)
      | (DrainTimeout, Draining) \<Rightarrow> Some (close_die s)
      | (StopAll, Stopping) \<Rightarrow> Some (s\<lparr>st_phase := Stopped\<rparr>)
      | _ \<Rightarrow> None)"

fun stop_run :: "bool \<Rightarrow> stop_event list \<Rightarrow> stopping \<Rightarrow> stopping option" where
  "stop_run drain [] s = Some s"
| "stop_run drain (e # es) s = (case stop_step drain e s of None \<Rightarrow> None | Some s \<Rightarrow> stop_run drain es s)"

section \<open>Pushes and kicks\<close>

text \<open>
  \<open>aa_Push\<close> is \<open>Push\<close> of a session, and the two functions of the RPC client are there unless it is nil.
\<close>

record ('c, 'v) app_env =
  aa_server :: server
  aa_Serialize :: "'v \<Rightarrow> byte list res"
  aa_Push :: "nat \<Rightarrow> string \<Rightarrow> byte list \<Rightarrow> 'c pool \<Rightarrow> 'c pool \<times> goerr option"
  aa_pool :: "'c pool_env"
  aa_SendPush :: "(string \<Rightarrow> server \<Rightarrow> string \<times> string \<times> byte list \<Rightarrow> 'c pool \<Rightarrow> 'c pool \<times> goerr option) option"
  aa_SendKick :: "(string \<Rightarrow> string \<Rightarrow> string \<times> cbk \<times> 32 word \<Rightarrow> 'c pool \<Rightarrow> 'c pool \<times> goerr option) option"

definition type_server :: "string \<Rightarrow> server" where
  "type_server ty =
     \<lparr>sv_ID = [], sv_Type = ty, sv_Metadata = None, sv_Frontend = False, sv_Hostname = [], sv_SessionStickiness = False,
      sv_Subscribe = None\<rparr>"

text \<open>The loop over users: those for whom the action failed.\<close>

fun users_loop :: "(string \<Rightarrow> 'w \<Rightarrow> 'w \<times> bool) \<Rightarrow> string list \<Rightarrow> 'w \<Rightarrow> 'w \<times> string list" where
  "users_loop f [] P = (P, [])"
| "users_loop f (u # us) P =
     (case f u P of (P, ok) \<Rightarrow> case users_loop f us P of (P, bad) \<Rightarrow> (P, if ok then bad else u # bad))"

definition push_user ::
  "('c, 'v) app_env \<Rightarrow> string \<Rightarrow> byte list \<Rightarrow> string \<Rightarrow> string \<Rightarrow> 'c pool \<Rightarrow> 'c pool \<times> bool" where
  "push_user env rt payload frontendType u P =
     (case (if sv_Type (aa_server env) = frontendType then GetSessionByUID P u else None) of
        Some q \<Rightarrow> map_prod id (\<lambda>e. e = None) (aa_Push env q rt payload P)
      | None \<Rightarrow>
          (case aa_SendPush env of
             Some send \<Rightarrow> map_prod id (\<lambda>e. e = None) (send u (type_server frontendType) (rt, u, payload) P)
           | None \<Rightarrow> (P, False)))"

definition SendPushToUsers ::
  "('c, 'v) app_env \<Rightarrow> string \<Rightarrow> 'v \<Rightarrow> string list \<Rightarrow> string \<Rightarrow> 'c pool \<Rightarrow> 'c pool \<times> string list \<times> goerr option" where
  "SendPushToUsers env rt v uids frontendType P =
     (case aa_Serialize env v of
        Inl e \<Rightarrow> (P, uids, Some e)
      | Inr payload \<Rightarrow>
          if \<not> sv_Frontend (aa_server env) \<and> frontendType = [] then (P, uids, Some ErrFrontendTypeNotSpecified)
          else case users_loop (push_user env rt payload frontendType) uids P of
            (P, notPushedUids) \<Rightarrow>
              if notPushedUids \<noteq> [] then (P, notPushedUids, Some ErrPushingToUsers) else (P, [], None))"

definition kick_user ::
  "('c, 'v) app_env \<Rightarrow> string \<Rightarrow> cbk \<Rightarrow> i64 \<Rightarrow> string \<Rightarrow> 'c pool \<Rightarrow> 'c pool \<times> bool" where
  "kick_user env frontendType callback reason u P =
     (case GetSessionByUID P u of
        Some q \<Rightarrow> map_prod id (\<lambda>e. e = None) (sess_Kick (aa_pool env) q callback [reason] P)
      | None \<Rightarrow>
          (case aa_SendKick env of
             Some send \<Rightarrow> map_prod id (\<lambda>e. e = None) (send u frontendType (u, callback, ucast reason) P)
           | None \<Rightarrow> (P, False)))"

definition SendKickToUsers ::
  "('c, 'v) app_env \<Rightarrow> string list \<Rightarrow> string \<Rightarrow> cbk \<Rightarrow> i64 \<Rightarrow> 'c pool \<Rightarrow> 'c pool \<times> string list \<times> goerr option" where
  "SendKickToUsers env uids frontendType callback reason P =
     (if \<not> sv_Frontend (aa_server env) \<and> frontendType = [] then (P, uids, Some ErrFrontendTypeNotSpecified)
      else case users_loop (kick_user env frontendType callback reason) uids P of
        (P, notKickedUids) \<Rightarrow> if notKickedUids \<noteq> [] then (P, notKickedUids, Some ErrKickingUsers) else (P, [], None))"

section \<open>Groups\<close>

definition sendDataToMembers ::
  "('c, 'v) app_env \<Rightarrow> string list \<Rightarrow> string \<Rightarrow> string \<Rightarrow> 'v \<Rightarrow> 'c pool \<Rightarrow> 'c pool \<times> goerr option" where
  "sendDataToMembers env uids frontendType rt v P =
     (case SendPushToUsers env rt v uids frontendType P of (P, errUids, err) \<Rightarrow> (P, err))"

definition GroupBroadcast ::
  "'st group_service \<Rightarrow> ('c, 'v) app_env \<Rightarrow> string \<Rightarrow> string \<Rightarrow> string \<Rightarrow> 'v \<Rightarrow> 'st \<Rightarrow> 'c pool \<Rightarrow> 'c pool \<times> goerr option" where
  "GroupBroadcast svc env frontendType groupName rt v st P =
     (case svc_GroupMembers svc groupName st of
        Inl e \<Rightarrow> (P, Some e)
      | Inr members \<Rightarrow> sendDataToMembers env members frontendType rt v P)"

definition app_GroupContainsMember :: "'st group_service \<Rightarrow> string \<Rightarrow> string \<Rightarrow> 'st \<Rightarrow> bool res" where
  "app_GroupContainsMember svc groupName u st =
     (if u = [] then Inl ErrEmptyUID else svc_GroupContainsMember svc groupName u st)"

definition app_GroupAddMember :: "'st group_service \<Rightarrow> string \<Rightarrow> string \<Rightarrow> 'st \<Rightarrow> 'st \<times> goerr option" where
  "app_GroupAddMember svc groupName u st =
     (if u = [] then (st, Some ErrEmptyUID) else svc_GroupAddMember svc groupName u st)"

section \<open>Unique sessions\<close>

text \<open>The listener for bindings on other servers, with the errors of the kicks ignored. \<open>None\<close> is a panic.\<close>

definition OnUserBind :: "server \<Rightarrow> 'c pool_env \<Rightarrow> string \<Rightarrow> string \<Rightarrow> 'c pool \<Rightarrow> 'c pool" where
  "OnUserBind self env u fid P =
     (if sv_ID self = fid \<or> \<not> sv_Frontend self then P
      else case GetSessionByUID P u of None \<Rightarrow> P | Some q \<Rightarrow> fst (sess_Kick env q None [CloseReasonKickRebind] P))"

definition OnUserBindBackend :: "server \<Rightarrow> 'c pool_env \<Rightarrow> string \<Rightarrow> string \<Rightarrow> string \<Rightarrow> 'c pool \<Rightarrow> 'c pool option" where
  "OnUserBindBackend self env u serverType serverId P =
     (if serverType \<noteq> sv_Type self \<or> serverId = sv_ID self then Some P
      else case GetSessionByUID P u of
             None \<Rightarrow> Some P
           | Some q \<Rightarrow> map_option fst (KickBackend env q serverType None [CloseReasonKickRebind] P))"

section \<open>Calls\<close>

text \<open>
  What the functions of \<open>rpc.go\<close> work on: whether the RPC server and client are there, the session pool, and the remote service with its client. \<open>now\<close> and \<open>ent\<close> are the time and the network
  entity of a session that is made.
\<close>

record ('h, 'c, 's) app_rpc =
  ar_rpcServer :: bool
  ar_rpcClient :: bool
  ar_pool :: "'c pool_env"
  ar_remote :: "('h, 'c, 's) rpc_env"
  ar_now :: i64
  ar_entity :: nat

text \<open>\<open>NewCluster\<close> of \<open>agent/agent_cluster.go\<close>: a session of the user with what the cache holds.\<close>

definition NewCluster :: "('h, 'c, 's) app_rpc \<Rightarrow> string \<Rightarrow> 'c pool \<Rightarrow> 'c pool \<times> nat res" where
  "NewCluster env u P =
     (case NewSession (ar_now env) (ar_entity env) False [u] P of
        (q, _, P) \<Rightarrow> (case pool_obtain (ar_pool env) q P of (P, Some e) \<Rightarrow> (P, Inl e) | (P, None) \<Rightarrow> (P, Inr q)))"

definition imperfectSessionForRPC :: "('h, 'c, 's) app_rpc \<Rightarrow> hctx \<Rightarrow> string \<Rightarrow> 'c pool \<Rightarrow> 'c pool \<times> nat res" where
  "imperfectSessionForRPC env ctx u P =
     (if u = [] then (P, Inl ErrIllegalUID)
      else case GetSessionByUID P u of
        Some q \<Rightarrow> (P, Inr q)
      | None \<Rightarrow>
          (case hc_session ctx of
             Some q \<Rightarrow> if uid (heap P q) = u then (P, Inr q) else NewCluster env u P
           | None \<Rightarrow> NewCluster env u P))"

text \<open>The session of a call, none without a user, and the rest of the call.\<close>

definition with_session ::
  "('h, 'c, 's) app_rpc \<Rightarrow> hctx \<Rightarrow> string \<Rightarrow> (goerr \<Rightarrow> 'r) \<Rightarrow> (nat option \<Rightarrow> 'c pool \<Rightarrow> ('c pool \<times> 'r) option) \<Rightarrow> 'c pool \<Rightarrow> ('c pool \<times> 'r) option" where
  "with_session env ctx u err rest P =
     (if u = [] then rest None P
      else case imperfectSessionForRPC env ctx u P of
        (P, Inl e) \<Rightarrow> Some (P, err e)
      | (P, Inr q) \<Rightarrow> rest (Some q) P)"

definition nonsense :: "server \<Rightarrow> string \<Rightarrow> route \<Rightarrow> bool" where
  "nonsense self serverID r \<longleftrightarrow> SvType r = sv_Type self \<and> serverID = [] \<or> serverID = sv_ID self"

text \<open>\<open>reply\<close> tells whether there is a message for the answer; without one, \<open>None\<close>, the test of its type panics.\<close>

definition doSendRPC ::
  "('h, 'c, 's) app_rpc \<Rightarrow> hctx \<Rightarrow> string \<Rightarrow> string \<Rightarrow> bool \<Rightarrow> proto_msg option \<Rightarrow> string \<Rightarrow> 'c pool
     \<Rightarrow> ('c pool \<times> proto_msg option res) option" where
  "doSendRPC env ctx serverID routeStr reply arg u P =
     (if \<not> ar_rpcServer env then Some (P, Inl ErrRPCServerNotInitialized)
      else if \<not> reply then None
      else case RouteDecode routeStr of
        Inl e \<Rightarrow> Some (P, Inl e)
      | Inr r \<Rightarrow>
          if SvType r = [] then Some (P, Inl ErrNoServerTypeChosenForRPC)
          else if nonsense (rp_server (ar_remote env)) serverID r then Some (P, Inl ErrNonsenseRPC)
          else with_session env ctx u Inl (\<lambda>q. remote_RPC (ar_remote env) serverID r reply arg q) P)"

definition doSendRPCRaw ::
  "('h, 'c, 's) app_rpc \<Rightarrow> hctx \<Rightarrow> string \<Rightarrow> string \<Rightarrow> byte list \<Rightarrow> string \<Rightarrow> 'c pool \<Rightarrow> ('c pool \<times> byte list res) option" where
  "doSendRPCRaw env ctx serverID routeStr arg u P =
     (if \<not> ar_rpcServer env then Some (P, Inl ErrRPCServerNotInitialized)
      else case RouteDecode routeStr of
        Inl e \<Rightarrow> Some (P, Inl e)
      | Inr r \<Rightarrow>
          if SvType r = [] then Some (P, Inl ErrNoServerTypeChosenForRPC)
          else if nonsense (rp_server (ar_remote env)) serverID r then Some (P, Inl ErrNonsenseRPC)
          else with_session env ctx u Inl
            (\<lambda>q P. case DoRPC (ar_remote env) serverID r arg q P of
               None \<Rightarrow> None
             | Some (P, Inl e) \<Rightarrow> Some (P, Inl e)
             | Some (P, Inr res) \<Rightarrow>
                 Some (P, case resp_Status res of Some st \<Rightarrow> Inl (rp_FromStatus (ar_remote env) st) | None \<Rightarrow> Inr (resp_Data res))) P)"

definition doSendNotifyAll ::
  "('h, 'c, 's) app_rpc \<Rightarrow> hctx \<Rightarrow> string \<Rightarrow> proto_msg option \<Rightarrow> string \<Rightarrow> 'c pool \<Rightarrow> ('c pool \<times> goerr option) option" where
  "doSendNotifyAll env ctx routeStr arg u P =
     (case RouteDecode routeStr of
        Inl e \<Rightarrow> Some (P, Some e)
      | Inr r \<Rightarrow>
          if SvType r \<noteq> [] then Some (P, Some ErrNotifyAllSvTypeNotEmpty)
          else if \<not> ar_rpcServer env then Some (P, Some ErrRPCServerNotInitialized)
          else with_session env ctx u Some (remote_NotifyAll (ar_remote env) r arg) P)"

definition doSendNotify ::
  "('h, 'c, 's) app_rpc \<Rightarrow> hctx \<Rightarrow> string \<Rightarrow> string \<Rightarrow> proto_msg option \<Rightarrow> string \<Rightarrow> 'c pool \<Rightarrow> ('c pool \<times> goerr option) option" where
  "doSendNotify env ctx serverID routeStr arg u P =
     (if \<not> ar_rpcServer env then Some (P, Some ErrRPCServerNotInitialized)
      else case RouteDecode routeStr of
        Inl e \<Rightarrow> Some (P, Some e)
      | Inr r \<Rightarrow>
          if nonsense (rp_server (ar_remote env)) serverID r then Some (P, Some ErrNonsenseRPC)
          else with_session env ctx u Some (remote_Notify (ar_remote env) serverID r arg) P)"

text \<open>\<open>es\<close> is the interleaving of the goroutines of a fork or of a publication.\<close>

definition doFork ::
  "('h, 'c, 's) app_rpc \<Rightarrow> fork_event list \<Rightarrow> hctx \<Rightarrow> bool \<Rightarrow> string \<Rightarrow> proto_msg option \<Rightarrow> string \<Rightarrow> 'c pool
     \<Rightarrow> ('c pool \<times> 's rpc_response option list \<times> goerr option) option" where
  "doFork env es ctx notify routeStr arg u P =
     (if \<not> ar_rpcServer env then Some (P, [], Some ErrRPCServerNotInitialized)
      else case RouteDecode routeStr of
        Inl e \<Rightarrow> Some (P, [], Some e)
      | Inr r \<Rightarrow>
          if SvType r = [] then Some (P, [], Some ErrNoServerTypeChosenForRPC)
          else with_session env ctx u (\<lambda>e. ([], Some e)) (remote_Fork (ar_remote env) es notify r arg) P)"

definition doPublish ::
  "('h, 'c, 's) app_rpc \<Rightarrow> publish_event list \<Rightarrow> hctx \<Rightarrow> string \<Rightarrow> bool \<Rightarrow> proto_msg option \<Rightarrow> string \<Rightarrow> 'c pool
     \<Rightarrow> ('c pool \<times> 's rpc_response list \<times> goerr option) option" where
  "doPublish env es ctx routeStr notify arg u P =
     (if \<not> ar_rpcClient env then Some (P, [], Some ErrRPCClientNotInitialized)
      else case RouteDecode routeStr of
        Inl e \<Rightarrow> Some (P, [], Some e)
      | Inr r \<Rightarrow>
          with_session env ctx u (\<lambda>e. ([], Some e))
            (\<lambda>q P. map_option (\<lambda>(P, _, rs, err). (P, rs, err)) (remote_Publish (ar_remote env) es r notify arg q P)) P)"

definition app_BindBackend ::
  "('h, 'c, 's) app_rpc \<Rightarrow> hctx \<Rightarrow> string \<Rightarrow> string \<Rightarrow> string \<Rightarrow> cbk \<Rightarrow> 'c pool \<Rightarrow> ('c pool \<times> goerr option) option" where
  "app_BindBackend env ctx u targetServerType targetServerID callback P =
     (case imperfectSessionForRPC env ctx u P of
        (P, Inl e) \<Rightarrow> Some (P, Some e)
      | (P, Inr q) \<Rightarrow> BindBackend (ar_pool env) q targetServerType targetServerID callback P)"

definition app_KickBackend ::
  "('h, 'c, 's) app_rpc \<Rightarrow> hctx \<Rightarrow> string \<Rightarrow> string \<Rightarrow> cbk \<Rightarrow> 'c pool \<Rightarrow> ('c pool \<times> goerr option) option" where
  "app_KickBackend env ctx u targetServerType callback P =
     (case imperfectSessionForRPC env ctx u P of
        (P, Inl e) \<Rightarrow> Some (P, Some e)
      | (P, Inr q) \<Rightarrow> KickBackend (ar_pool env) q targetServerType callback [] P)"

text \<open>The remote service takes a call without a message for the answer, but the application panics on it.\<close>

lemma rpc_without_reply_panics: "ar_rpcServer env \<Longrightarrow> doSendRPC env ctx serverID routeStr False arg u P = None"
  by (simp add: doSendRPC_def)

section \<open>Calls go to other servers\<close>

definition other_than :: "server \<Rightarrow> server \<Rightarrow> bool" where
  "other_than self sv \<longleftrightarrow> sv_ID sv \<noteq> sv_ID self \<or> sv_Type sv \<noteq> sv_Type self"

lemma routed_type:
  assumes sd: "sd_consistent senv sd" and r: "r = etcd_router senv sd fs" and "fs ty = None"
    and ks: "\<And>servers. GetServersByType ty sd = Inr servers \<Longrightarrow> enumerates ks servers \<and> pick < length ks"
    and route: "router_Route r ks pick ty rt payload sess = Some (Inr sv)"
  shows "sv_Type sv = ty"
proof -
  obtain servers where servers: "GetServersByType ty sd = Inr servers"
    using route r by (auto simp: router_Route_def etcd_router_def split: sum.splits)
  then have "defaultRoute r ks pick ty servers sess = Some (Inr sv)"
    using route r assms(3) by (simp add: router_Route_def etcd_router_def)
  then obtain i where "servers i = Some sv" using defaultRoute_random ks [OF servers] by blast
  then show ?thesis using etcd_sd.in_type [OF sd servers] by blast
qed

lemma with_call_parts:
  "rp_sd (env\<lparr>rp_Call := f\<rparr>) = rp_sd env" "rp_router (env\<lparr>rp_Call := f\<rparr>) = rp_router env" "rp_keys (env\<lparr>rp_Call := f\<rparr>) = rp_keys env"
  "rp_pick (env\<lparr>rp_Call := f\<rparr>) = rp_pick env" "rp_Marshal (env\<lparr>rp_Call := f\<rparr>) = rp_Marshal env" "rp_Unmarshal (env\<lparr>rp_Call := f\<rparr>) = rp_Unmarshal env"
  "rp_FromStatus (env\<lparr>rp_Call := f\<rparr>) = rp_FromStatus env" "rp_FromError (env\<lparr>rp_Call := f\<rparr>) = rp_FromError env"
  "rp_Call (env\<lparr>rp_Call := f\<rparr>) = f" "rp_server (env\<lparr>rp_Call := f\<rparr>) = rp_server env"
  by simp_all

lemma DoRPC_other:
  assumes sd: "sd_consistent senv (rp_sd env)" and "rp_router env = etcd_router senv (rp_sd env) fs" and "fs (SvType r) = None"
    and "\<And>servers. GetServersByType (SvType r) (rp_sd env) = Inr servers \<Longrightarrow>
      enumerates (rp_keys env (SvType r)) servers \<and> rp_pick env (SvType r) < length (rp_keys env (SvType r))"
    and ok: "\<not> nonsense (rp_server env) serverID r"
    and f: "\<And>ty rt q msg sv P. other_than (rp_server env) sv \<Longrightarrow> f ty rt q msg sv P = rp_Call env ty rt q msg sv P"
  shows "DoRPC (env\<lparr>rp_Call := f\<rparr>) serverID r b q P = DoRPC env serverID r b q P"
proof (cases "serverID = []")
  case True
  have "other_than (rp_server env) sv" if "router_Route (rp_router env) (rp_keys env (SvType r)) (rp_pick env (SvType r)) (SvType r) r payload sess = Some (Inr sv)"
    for payload sess sv
    using routed_type [OF sd assms(2,3,4) that] ok True by (auto simp: other_than_def nonsense_def)
  then show ?thesis
    unfolding DoRPC_def remoteCall_def Let_def with_call_parts using True f by (simp split: option.splits sum.splits)
next
  case False
  have "other_than (rp_server env) sv" if "GetServer serverID (rp_sd env) = Inr sv" for sv
    using etcd_sd.known_id [OF sd that] ok by (auto simp: other_than_def nonsense_def)
  then show ?thesis
    unfolding DoRPC_def remoteCall_def Let_def with_call_parts
    using False f by (cases "serverMapByID (rp_sd env) serverID") (simp_all add: GetServer_def)
qed

text \<open>
  C38. A server does not call itself by RPC. Whatever a call to the server itself would do, \<open>RPC\<close> and \<open>RPCTo\<close> do the same: the server that is called has another type, when the router chooses it
  from consistent caches, or another id, when it is given. \<open>f\<close> is any client that agrees with the real one on all other servers.
\<close>

theorem rpc_not_to_self:
  assumes "sd_consistent senv (rp_sd (ar_remote env))"
    and "rp_router (ar_remote env) = etcd_router senv (rp_sd (ar_remote env)) Map.empty"
    and "\<And>ty servers. GetServersByType ty (rp_sd (ar_remote env)) = Inr servers \<Longrightarrow>
      enumerates (rp_keys (ar_remote env) ty) servers \<and> rp_pick (ar_remote env) ty < length (rp_keys (ar_remote env) ty)"
    and f: "\<And>ty rt q msg sv P. other_than (rp_server (ar_remote env)) sv \<Longrightarrow> f ty rt q msg sv P = rp_Call (ar_remote env) ty rt q msg sv P"
  shows "doSendRPC (env\<lparr>ar_remote := (ar_remote env)\<lparr>rp_Call := f\<rparr>\<rparr>) ctx serverID routeStr reply arg u P =
    doSendRPC env ctx serverID routeStr reply arg u P"
proof -
  have rpc: "remote_RPC ((ar_remote env)\<lparr>rp_Call := f\<rparr>) serverID r b arg = remote_RPC (ar_remote env) serverID r b arg"
    if "\<not> nonsense (rp_server (ar_remote env)) serverID r" for r b
  proof -
    have "DoRPC ((ar_remote env)\<lparr>rp_Call := f\<rparr>) serverID r = DoRPC (ar_remote env) serverID r"
      using DoRPC_other [OF assms(1,2) _ assms(3) that, of f] f by (simp add: fun_eq_iff)
    then show ?thesis by (simp only: fun_eq_iff remote_RPC_def marshalled_def with_call_parts) simp
  qed
  have new: "NewCluster (env\<lparr>ar_remote := x\<rparr>) = NewCluster env" for x by (simp add: fun_eq_iff NewCluster_def)
  have sess: "imperfectSessionForRPC (env\<lparr>ar_remote := x\<rparr>) = imperfectSessionForRPC env" for x
    unfolding imperfectSessionForRPC_def new ..
  show ?thesis
    unfolding doSendRPC_def with_session_def sess using rpc by (simp split: sum.splits)
qed

section \<open>The order of modules\<close>

definition module_names :: "modules \<Rightarrow> string list" where
  "module_names M = map md_name (ap_modulesArr M)"

text \<open>The table and the list of modules agree, as every registration leaves them.\<close>

definition modules_ok :: "modules \<Rightarrow> bool" where
  "modules_ok M \<longleftrightarrow>
     dom (ap_modulesMap M) = set (module_names M) \<and> distinct (module_names M) \<and>
     ap_sessionModulesArr M = filter md_session (ap_modulesArr M)"

definition no_modules :: modules where
  "no_modules = \<lparr>ap_modulesMap = Map.empty, ap_modulesArr = [], ap_sessionModulesArr = []\<rparr>"

lemma register_after:
  assumes "modules_ok M"
  shows "md_name m \<in> set (module_names M) \<Longrightarrow> \<exists>e. RegisterModuleAfter m M = Inl e"
    and "md_name m \<notin> set (module_names M) \<Longrightarrow>
      \<exists>M'. RegisterModuleAfter m M = Inr M' \<and> modules_ok M' \<and> module_names M' = module_names M @ [md_name m]"
  using assms by (auto simp: RegisterModuleAfter_def alreadyRegistered_def modules_ok_def module_names_def)

lemma register_before:
  assumes "modules_ok M"
  shows "md_name m \<in> set (module_names M) \<Longrightarrow> \<exists>e. RegisterModuleBefore m M = Inl e"
    and "md_name m \<notin> set (module_names M) \<Longrightarrow>
      \<exists>M'. RegisterModuleBefore m M = Inr M' \<and> modules_ok M' \<and> module_names M' = md_name m # module_names M"
  using assms by (auto simp: RegisterModuleBefore_def alreadyRegistered_def modules_ok_def module_names_def)

lemma init_loop_all:
  "\<forall>m\<in>set ms. ok (md_name m) \<Longrightarrow> init_loop ok ms = (map (\<lambda>m. LInit (md_name m)) ms, True)"
  by (induction ms) auto

lemma framework_name [simp]: "md_name (framework_module n) = n"
  by (simp add: framework_module_def)

definition framework_names :: "string list" where
  "framework_names = [''rpcServer'', ''rpcClient'', ''serviceDiscovery'', ''uniqueSession'', ''configLoader'', ''statefulGoPool'']"

text \<open>
  C39. The modules of a server in a cluster start and stop in a fixed order. With the modules of the user in the middle, in their order, the pools of goroutines come first and the modules of the
  RPC client and server before those of the user; the service discovery comes after them, but the module for unique sessions is started after it. Every module is initialised
  before any is told that all are; then they are stopped in the reverse order, again each in two rounds.
\<close>

theorem module_order:
  assumes "modules_ok M" and "set (module_names M) \<inter> set framework_names = {}" and "\<And>n. ok n"
  shows "\<exists>M1. start_registers True M = Some M1 \<and>
    (let M2 = listen_registers True conf M1;
         names = [''statefulGoPool''] @ (if conf then [''configLoader''] else []) @ [''rpcClient'', ''rpcServer''] @
           module_names M @ [''serviceDiscovery'', ''uniqueSession'']
     in modules_ok M2 \<and> module_names M2 = names \<and>
       startModules ok M2 = (map LInit names @ map LAfterInit names, True) \<and>
       shutdownModules M2 = map LBeforeShutdown (rev names) @ map LShutdown (rev names))"
proof -
  have fresh: "n \<notin> set (module_names M)" if "n \<in> set framework_names" for n using assms(2) that by auto
  note names = framework_names_def
  have "''rpcServer'' \<notin> set (module_names M)" by (rule fresh) (simp add: names)
  then obtain A where A: "RegisterModuleBefore (framework_module ''rpcServer'') M = Inr A" "modules_ok A"
    "module_names A = ''rpcServer'' # module_names M"
    using register_before(2) [OF assms(1), of "framework_module ''rpcServer''"] unfolding framework_name by blast
  have "''rpcClient'' \<notin> set (module_names A)" using fresh [of "''rpcClient''"] unfolding A(3) by (simp add: names)
  then obtain B where B: "RegisterModuleBefore (framework_module ''rpcClient'') A = Inr B" "modules_ok B"
    "module_names B = ''rpcClient'' # module_names A"
    using register_before(2) [OF A(2), of "framework_module ''rpcClient''"] unfolding framework_name by blast
  have "''serviceDiscovery'' \<notin> set (module_names B)" using fresh [of "''serviceDiscovery''"] unfolding A(3) B(3) by (simp add: names)
  then obtain C where C: "RegisterModuleAfter (framework_module ''serviceDiscovery'') B = Inr C" "modules_ok C"
    "module_names C = module_names B @ [''serviceDiscovery'']"
    using register_after(2) [OF B(2), of "framework_module ''serviceDiscovery''"] unfolding framework_name by blast
  have start: "start_registers True M = Some C" by (simp add: start_registers_def A(1) B(1) C(1))
  have "''uniqueSession'' \<notin> set (module_names C)" using fresh [of "''uniqueSession''"] unfolding A(3) B(3) C(3) by (simp add: names)
  then obtain D where D: "RegisterModuleAfter (framework_module ''uniqueSession'') C = Inr D" "modules_ok D"
    "module_names D = module_names C @ [''uniqueSession'']"
    using register_after(2) [OF C(2), of "framework_module ''uniqueSession''"] unfolding framework_name by blast
  have "''configLoader'' \<notin> set (module_names D)" using fresh [of "''configLoader''"] unfolding A(3) B(3) C(3) D(3) by (simp add: names)
  then obtain L where L: "RegisterModuleBefore (framework_module ''configLoader'') D = Inr L" "modules_ok L"
    "module_names L = ''configLoader'' # module_names D"
    using register_before(2) [OF D(2), of "framework_module ''configLoader''"] unfolding framework_name by blast
  define E where "E = (if conf then L else D)"
  have E: "modules_ok E" "module_names E = (if conf then [''configLoader''] else []) @ module_names D"
    using D(2) L(2,3) by (simp_all add: E_def)
  have "''statefulGoPool'' \<notin> set (module_names E)"
    using fresh [of "''statefulGoPool''"] unfolding E(2) A(3) B(3) C(3) D(3) by (simp add: names)
  then obtain F where F: "RegisterModuleBefore (framework_module ''statefulGoPool'') E = Inr F" "modules_ok F"
    "module_names F = ''statefulGoPool'' # module_names E"
    using register_before(2) [OF E(1), of "framework_module ''statefulGoPool''"] unfolding framework_name by blast
  have listen: "listen_registers True conf C = F"
    using D(1) L(1) F(1) by (simp add: listen_registers_def Let_def RegisterModule_def or_same_def E_def split: if_splits)
  have calls: "startModules ok F = (map LInit (module_names F) @ map LAfterInit (module_names F), True)"
    using init_loop_all [of "ap_modulesArr F" ok] assms(3) by (simp add: startModules_def module_names_def comp_def)
  have stops: "shutdownModules F = map LBeforeShutdown (rev (module_names F)) @ map LShutdown (rev (module_names F))"
    by (simp add: shutdownModules_def module_names_def rev_map comp_def)
  have order: "module_names F = [''statefulGoPool''] @ (if conf then [''configLoader''] else []) @ [''rpcClient'', ''rpcServer''] @
      module_names M @ [''serviceDiscovery'', ''uniqueSession'']"
    unfolding F(3) E(2) D(3) C(3) B(3) A(3) by simp
  show ?thesis
    by (rule exI [of _ C]) (simp only: Let_def listen start F(2) calls stops order [symmetric] simp_thms)
qed

theorem module_order_witness:
  "\<exists>M1. start_registers True no_modules = Some M1 \<and>
     module_names (listen_registers True False M1) = [''statefulGoPool'', ''rpcClient'', ''rpcServer'', ''serviceDiscovery'', ''uniqueSession'']"
  using module_order [of no_modules "\<lambda>_. True" False]
  by (auto simp: no_modules_def modules_ok_def module_names_def Let_def)

section \<open>Stopping while sessions are drained\<close>


definition server_waiting :: stopping where
  "server_waiting = \<lparr>st_dieClosed = False, st_phase = Waiting\<rparr>"


text \<open>Without such a call the server stops, from every signal and with or without draining.\<close>

lemma signal_stops:
  "\<exists>es s. stop_run drain (Signal sg # es) server_waiting = Some s \<and> st_phase s = Stopped"
proof (cases "drain \<and> sg = SIGTERM")
  case True
  then show ?thesis
    by (intro exI [of _ "[DrainTimeout, StopAll]"] exI [of _ "\<lparr>st_dieClosed = True, st_phase = Stopped\<rparr>"])
      (simp add: stop_step_def server_waiting_def close_die_def)
next
  case False
  then show ?thesis
    by (intro exI [of _ "[StopAll]"] exI [of _ "\<lparr>st_dieClosed = True, st_phase = Stopped\<rparr>"])
      (auto simp: stop_step_def server_waiting_def close_die_def)
qed

section \<open>Broadcasts to groups\<close>

context group_contract
begin

lemma broadcast_members:
  assumes "inv st" "name_ok g"
  shows "case view st g of
      None \<Rightarrow> GroupBroadcast svc env frontendType g rt v st P = (P, Some ErrGroupNotFound)
    | Some U \<Rightarrow> \<exists>us. distinct us \<and> set us = U \<and>
        GroupBroadcast svc env frontendType g rt v st P = sendDataToMembers env us frontendType rt v P"
  using members [OF assms] members_none [OF assms] by (fastforce simp: GroupBroadcast_def split: option.splits)

end


text \<open>The same for the group service on etcd, of groups and users without a slash in their names.\<close>

lemma etcd_broadcast_members:
  assumes "etcd_laws c kv" "store_ok (kv st)" "slashless g" "store_view (kv st) g = Some U"
  shows "\<exists>us. distinct us \<and> set us = U \<and>
    GroupBroadcast (etcd_service c) env frontendType g rt v st P = sendDataToMembers env us frontendType rt v P"
  using group_contract.broadcast_members [OF etcd_keeps_contract [OF assms(1)] assms(2,3)] assms(4) by fastforce

section \<open>Pushes without a type\<close>

lemma topics_differ:
  assumes "ty \<noteq> []" "hd ty \<noteq> CHR ''/''"
  shows "GetUserMessagesTopic u [] \<noteq> GetUserMessagesTopic u' ty"
  using assms by (cases ty) (auto simp: GetUserMessagesTopic_def)

text \<open>
  On a frontend, a push without the type of the frontend reports success and reaches nobody. The check for a missing type is for backends only; on a frontend no session is of that type, so that
  the push goes to the topic of the user for the empty type, also for users connected to this very server, while the topics that frontends subscribe to have their type in them.
\<close>

theorem push_without_type_lost:
  assumes "sv_Frontend (aa_server env)" and "sv_Type (aa_server env) \<noteq> []" and "hd (sv_Type (aa_server env)) \<noteq> CHR ''/''"
    and "aa_SendPush env = Some (nats_SendPush nenv nc)" and "nc_running nc"
    and "\<And>t b Q. snd (ne_Publish nenv t b Q) = None" and "\<And>p. ne_Marshal_Push nenv p = Inr (enc p)"
    and "aa_Serialize env v = Inr payload"
  shows "SendPushToUsers env rt v uids [] P =
      (fold (\<lambda>u P. fst (ne_Publish nenv (GetUserMessagesTopic u []) (enc (rt, u, payload)) P)) uids P, [], None) \<and>
    (\<forall>u u'. GetUserMessagesTopic u [] \<noteq> GetUserMessagesTopic u' (sv_Type (aa_server env)))"
proof -
  have one: "push_user env rt payload [] u Q = (fst (ne_Publish nenv (GetUserMessagesTopic u []) (enc (rt, u, payload)) Q), True)" for u Q
    using assms(2,4-7)
    by (simp add: push_user_def nats_SendPush_def nats_Send_def type_server_def Let_def prod_eq_iff)
  have "users_loop (push_user env rt payload []) uids P =
      (fold (\<lambda>u P. fst (ne_Publish nenv (GetUserMessagesTopic u []) (enc (rt, u, payload)) P)) uids P, [])"
    by (induction uids arbitrary: P) (simp_all add: one)
  then show ?thesis using assms(1,8) topics_differ [OF assms(2,3)] by (simp add: SendPushToUsers_def)
qed

section \<open>Examples\<close>

definition app_example :: "(string \<Rightarrow> string \<rightharpoonup> string, byte list) app_env" where
  "app_example =
     \<lparr>aa_server = front_server, aa_Serialize = Inr, aa_Push = (\<lambda>q rt b P. (P, Some ErrBrokenPipe)), aa_pool = env_example,
      aa_SendPush = Some (nats_SendPush nats_example (\<lparr>nc_connString = ''nats'', nc_connectionTimeout = 0, nc_maxReconnectionRetries = 0,
        nc_reqTimeout = 1, nc_running = True\<rparr>)), aa_SendKick = None\<rparr>"

lemma front_parts [simp]: "sv_Frontend front_server" "sv_Type front_server = ''connector''" "sv_ID front_server = ''f1''"
  by (simp_all add: front_server_def NewServer_def)

theorem push_without_type_lost_witness:
  "snd (SendPushToUsers app_example ''r'' [1] [''u''] [] backend_pool) = ([], None)"
proof -
  have laws: "\<And>t b Q. snd (ne_Publish nats_example t b Q) = None" "\<And>p. ne_Marshal_Push nats_example p = Inr ((\<lambda>_. []) p)"
    by (simp_all add: nats_example_def)
  show ?thesis
    using push_without_type_lost [of app_example nats_example _ "\<lambda>_. []", OF _ _ _ _ _ laws, of _ "[1]" "[1]" "''r''" "[''u'']" backend_pool]
    by (simp add: app_example_def)
qed


text \<open>A frontend that knows one server of games, and a client that would panic on a call to the frontend itself.\<close>

definition front_rpc :: "(string list, (server \<times> message) list, nat) rpc_env" where
  "front_rpc = (rpc_example Map.empty [''g1''])\<lparr>rp_server := front_server, rp_sd := sd_synced,
     rp_router := etcd_router sd_example sd_synced Map.empty\<rparr>"

lemma front_rpc_parts:
  "rp_server front_rpc = front_server" "rp_sd front_rpc = sd_synced" "rp_router front_rpc = etcd_router sd_example sd_synced Map.empty"
  "rp_keys front_rpc ty = [''g1'']" "rp_pick front_rpc ty = 0"
  by (simp_all add: front_rpc_def rpc_example_def Let_def)

lemma sd_synced_enumerated:
  assumes "GetServersByType ty sd_synced = Inr servers"
  shows "enumerates [''g1''] servers"
proof -
  have "servers i = Some sv \<Longrightarrow> i = ''g1''" for i sv
    using etcd_sd.in_type [OF sd_synced_consistent assms, of i sv] sd_synced_parts(2) by (auto split: if_splits)
  moreover obtain i sv where "servers i = Some sv"
    using etcd_sd.by_type_nonempty [OF sd_synced_consistent assms] by (auto simp: fun_eq_iff)
  ultimately show ?thesis by (auto simp: enumerates_def)
qed

definition front_app :: "(server \<times> message) list pool_env \<Rightarrow> (string list, (server \<times> message) list, nat) app_rpc" where
  "front_app penv = \<lparr>ar_rpcServer = True, ar_rpcClient = True, ar_pool = penv, ar_remote = front_rpc, ar_now = 0, ar_entity = 0\<rparr>"

definition loud_call :: "nat \<Rightarrow> route \<Rightarrow> nat option \<Rightarrow> message \<Rightarrow> server \<Rightarrow> (server \<times> message) list pool
     \<Rightarrow> (server \<times> message) list pool \<times> nat rpc_response res" where
  "loud_call ty rt q msg sv P =
     (if other_than front_server sv then rp_Call front_rpc ty rt q msg sv P else (P, Inl (ErrNew ''called itself'')))"

theorem rpc_not_to_self_witness:
  "\<forall>penv. doSendRPC ((front_app penv)\<lparr>ar_remote := front_rpc\<lparr>rp_Call := loud_call\<rparr>\<rparr>)
       \<lparr>hc_values = NilCtx, hc_session = None, hc_logger = None\<rparr> [] ''game.room.join'' True None [] (NewSessionPool []) =
     doSendRPC (front_app penv)
       \<lparr>hc_values = NilCtx, hc_session = None, hc_logger = None\<rparr> [] ''game.room.join'' True None [] (NewSessionPool [])"
proof
  fix penv
  have remote: "ar_remote (front_app penv) = front_rpc" by (simp add: front_app_def)
  have "doSendRPC ((front_app penv)\<lparr>ar_remote := (ar_remote (front_app penv))\<lparr>rp_Call := loud_call\<rparr>\<rparr>) ctx [] rt True None [] Q =
      doSendRPC (front_app penv) ctx [] rt True None [] Q" for ctx rt Q
    by (rule rpc_not_to_self [where senv = sd_example])
      (simp_all add: remote front_rpc_parts sd_synced_consistent sd_synced_enumerated loud_call_def)
  then show "doSendRPC ((front_app penv)\<lparr>ar_remote := front_rpc\<lparr>rp_Call := loud_call\<rparr>\<rparr>)
       \<lparr>hc_values = NilCtx, hc_session = None, hc_logger = None\<rparr> [] ''game.room.join'' True None [] (NewSessionPool []) =
     doSendRPC (front_app penv)
       \<lparr>hc_values = NilCtx, hc_session = None, hc_logger = None\<rparr> [] ''game.room.join'' True None [] (NewSessionPool [])"
    by (simp only: remote)
qed

end
