(* ===== verification/Spec2Isabelle.thy ===== *)
theory Spec2Isabelle
  imports Packet Message Route Memory_Groups Etcd_Groups Acceptor Rate_Limiter Session_Pool Router Sys_Remote Handler_Service Remote_Service
    Remote_Server Nats_Rpc Timers Client App
begin

text \<open>
  A model of pitaya, a framework for game servers in Go, and the theorems about it.

  \<^bold>\<open>The program.\<close> A cluster has frontend servers, which hold the connections of players, and backend servers. A connection is read by an
  acceptor (\<open>acceptor\<close>) as packets (\<open>conn/packet\<close>, \<open>conn/codec\<close>), which carry messages (\<open>conn/message\<close>) with a route (\<open>route\<close>). Behind a
  connection stand an agent (\<open>agent\<close>) and a session (\<open>session\<close>). The handler service (\<open>service/handler.go\<close>) calls the user's handler for a message, or
  gives the message to the remote service (\<open>service/remote.go\<close>), which chooses a server with the router (\<open>router\<close>) among those the service discovery knows
  (\<open>cluster/etcd_service_discovery.go\<close>) and calls it over NATS (\<open>cluster/nats_rpc_client.go\<close>, \<open>cluster/nats_rpc_server.go\<close>). Sessions are shared through a cache, and the
  servers tell each other of bindings with the system remote (\<open>remote/sys.go\<close>). Groups of users (\<open>groups\<close>), timers (\<open>timer\<close>) and modules (\<open>module.go\<close>) are
  used through the application (\<open>app.go\<close>), and \<open>client\<close> is the client of tests and tools.

  \<^bold>\<open>How code is modelled.\<close> An operation of the source is a function with the name of the source, with a prefix where two types share it
  (\<open>agent_Kick\<close>, \<open>tcp_GetNextMessage\<close>). A struct is a record and a pointer to a shared struct is an address in a heap. Bytes are 8-bit words and Go's integers
  64-bit words, so that arithmetic wraps. An error is a left value of a sum or an option, a panic is \<open>None\<close>. The order in which a Go map is visited, a random
  index and the time are arguments. Code outside the repository (etcd, NATS, the cache, zlib, JSON, protobuf, the user's handlers) is a field of a
  record of parameters; where a theorem relies on it, its documented behaviour is a hypothesis, and the witness of the theorem
  has an instance of it. Goroutines are explicit lists of events or steps, one for each section that runs under a lock or is atomic, so that a theorem about
  every list is a theorem about every interleaving.

  \<^bold>\<open>The theories.\<close>

  \<^item> \<open>Pitaya_Prelude\<close>, \<open>Pitaya_Errors\<close>, \<open>Go_Values\<close>: types, errors, strings and dynamic values of Go, \<open>util/util.go\<close> and \<open>context/context.go\<close>. A context that is
    encoded for a call is decoded with its values.
  \<^item> \<open>Packet\<close>, \<open>Message\<close>, \<open>Route\<close>: the three codecs. Decoding inverts encoding, and is total and exact on arbitrary bytes; the dictionary of routes
    stays one to one.
  \<^item> \<open>Acceptor\<close>, \<open>Rate_Limiter\<close>: reading TCP and websocket connections, with the locale \<open>player_conn\<close> that both connections interpret, and the limiter. A message
    is exactly one packet, and the queue of the limiter is a sliding window.
  \<^item> \<open>Memory_Groups\<close>, \<open>Etcd_Groups\<close>: the locale \<open>group_contract\<close> is the interface \<open>GroupService\<close> over sets of members. The service in memory
    interprets it, the service on etcd keeps it under the laws of an etcd transaction, and so both behave alike.
  \<^item> \<open>Session\<close>, \<open>Session_Cluster\<close>, \<open>Session_Pool\<close>: the data of a session and its encoded copy, the exchange through the cache, and the tables of all sessions
    with their counters. What one server flushes another obtains, and tables and counters agree while a session is bound once and closed once.
  \<^item> \<open>Service_Discovery\<close>, \<open>Router\<close>: the caches of servers, with the locale \<open>discovery\<close> for what the router asks of them. The caches agree with one another
    and follow the registry, and the requests of one user go to one server of a type.
  \<^item> \<open>Sys_Remote\<close>: the callbacks and requests that make a binding known to the cluster.
  \<^item> \<open>Component\<close>, \<open>Handler_Pool\<close>: handlers found by reflection, hooks, and the call of a handler. A registered handler is called with arguments of its types;
    the locale \<open>user_code\<close> holds what the user's functions may do.
  \<^item> \<open>Agent\<close>, \<open>Handler_Service\<close>: a connection from its first packet to its close callbacks, which are started exactly once however its goroutines interleave.
  \<^item> \<open>Remote_Service\<close>, \<open>Remote_Server\<close>, \<open>Nats_Rpc\<close>: calling, notifying and forking to other servers, handling their calls, and the NATS transport.
  \<^item> \<open>Timers\<close>: timers and the goroutines that run them; how often a timer may run, and that a stopped one may run again.
  \<^item> \<open>Client\<close>: the requests of a connection of the client and the states of the client.
  \<^item> \<open>App\<close>: modules, start and stop, pushes, kicks, broadcasts and calls of the application.
  \<^item> This theory: a client's request through the codecs, the agent and the remote service, and its answer.

  \<^bold>\<open>Loops and bounds.\<close> The loop of \<open>PacketDecode\<close> and the readers of connections recurse on the bytes that are left, with a proof of
  termination. Loops that end only when something outside lets them (goroutines, retries, waiting for replies) consume a list of events; that they come to
  an end is stated as such, for example that a server that loses its lease has a new one or dies after the configured number of attempts, and that
  asking all replicas can always come to its end exactly when there is another replica. There is no fuel that could run out unnoticed. Sizes are those of the
  source: packets of less than \<open>2 ^ 24\<close> bytes and 30 requests in flight in the client.

  \<^bold>\<open>What the theorems found.\<close> Some theorems state what the code does where that is not what it means to do: a shutdown during the draining of sessions ends in a panic, a
  stopped timer runs again, a fork for answers never returns on the only replica, a request whose route does not decode is never
  answered. They are named after that behaviour.

  \<^bold>\<open>Not modelled.\<close> Network input and output itself: dialling, TLS, listening, the proxy protocol, and the handshake and the heartbeats of the client. The gRPC client
  and server, another implementation of the interfaces of NATS, and the binding storage that only they read. The worker for reliable calls, a job queue on redis. The
  protobuf client and the documentation generator, which reflect over types that are only known at run time. Metrics, tracing and logs, which the modelled code
  does not read. Configuration, whose values are arguments here. The builder and the static functions, which wire and forward. Generated code, except for the
  fields of the protocol messages that the servers read. The memory model of Go: data races within a step are not considered, an access of a shared map or counter
  is one step.
\<close>

section \<open>A request that is forwarded\<close>

text \<open>
  C26. A client's request that another server answers is answered to the client. When the remote call gives a response and the agent
  is alive, forwarding the request queues exactly one more packet for the client. That packet is one data packet, whose message is a
  response with the id of the request and the bytes the other server answered.
\<close>

theorem forwarded_request_answered:
  assumes "dict_ok (ae_dict env)"
    and "\<And>x y. DeflateData (ae_zlib env) x = Inr y \<Longrightarrow> InflateData (ae_zlib env) y = Inr x"
    and "msg_Type msg = Request" and "msg_ID msg \<noteq> 0"
    and "remoteCall rpc sv RPCType_Sys rt (Some (ag_Session (agent_at P a))) msg P = Some (Q, Inr x)"
    and "entity (heap Q (ag_Session (agent_at Q a))) = a"
    and "ag_state (agent_at Q a) \<noteq> StatusClosed" and "\<not> ag_chDie (agent_at Q a)"
    and "packetEncodeMessage env ((NewMessage [])\<lparr>msg_Type := Response, msg_ID := msg_ID msg, msg_Data := resp_Data x\<rparr>) = Inr p"
    and "length p < HeadLength + MaxPacketSize"
  shows "\<exists>P' em. remoteProcess rpc env sv a rt msg P = Some P' \<and>
    ag_chSend (agent_at P' a) = ag_chSend (agent_at Q a) @ [p] \<and> PacketDecode p = Inr [packet_of DataPacket em] \<and>
    MessageDecode (ae_zlib env) (ae_dict env) em =
      Some (Inr ((NewMessage [])\<lparr>msg_Type := Response, msg_ID := msg_ID msg, msg_Data := resp_Data x\<rparr>))"
proof -
  let ?m = "(NewMessage [])\<lparr>msg_Type := Response, msg_ID := msg_ID msg, msg_Data := resp_Data x\<rparr>"
  have m: "\<lparr>msg_Type = Response, msg_ID = msg_ID msg, msg_Route = [], msg_Data = resp_Data x, msg_compressed = False,
      msg_Err = False\<rparr> = ?m" by (simp add: NewMessage_def)
  obtain em m' where em: "MessageEncode (ae_compress env) (ae_zlib env) (ae_dict env) ?m = Inr (em, m')"
    "PacketEncode DataPacket em = Inr p"
    using assms(9) by (auto simp: packetEncodeMessage_def split: sum.splits)
  have p: "p = frame DataPacket em" "validPacketType DataPacket" using em(2) by (simp_all add: PacketEncode_Inr_iff)
  have empty: "incomplete []" by (simp add: incomplete_def HeadLength_def)
  have "PacketDecode (concat (map (\<lambda>(t, d). frame t d) [(DataPacket, em)]) @ []) = Packet.decoded [(DataPacket, em)] []"
    by (rule PacketDecode_frames) (use p assms(10) empty in simp_all)
  then have packet: "PacketDecode p = Inr [packet_of DataPacket em]" using incomplete_not_bad [OF empty] by (simp add: p Packet.decoded_def)
  have type: "msg_Type ?m = Response" "\<not> routable (msg_Type ?m)" by (simp_all add: routable_def)
  have "MessageDecode (ae_zlib env) (ae_dict env) em = Some (Inr (received (ae_dict env) ?m))"
    by (rule MessageDecode_encoded [OF assms(1,2) _ em(1)]) (use type in simp_all)
  moreover have "received (ae_dict env) ?m = ?m" using type by (simp add: received_def NewMessage_def)
  ultimately have message: "MessageDecode (ae_zlib env) (ae_dict env) em = Some (Inr ?m)" by simp
  have "sess_ResponseMID env (ag_Session (agent_at Q a)) (msg_ID msg) (BytesV (resp_Data x)) [] Q =
      (upd_agent a (enqueue env p) Q, None)"
    using assms(4,6,7,9) m
    by (simp add: sess_ResponseMID_def agent_ResponseMID_def agent_send_def getMessageFromPendingMessage_def)
  then have "remoteProcess rpc env sv a rt msg P = Some (upd_agent a (enqueue env p) Q)"
    unfolding remoteProcess_def assms(5) using assms(3) by simp
  moreover have "ag_chSend (agent_at (upd_agent a (enqueue env p) Q) a) = ag_chSend (agent_at Q a) @ [p]"
    using assms(8) by (simp add: enqueue_def)
  ultimately show ?thesis using packet message by blast
qed

text \<open>A frontend with one connection that forwards to a server of type game.\<close>

definition forward_rpc :: "(string list, (unit, byte list) front, nat) rpc_env" where
  "forward_rpc =
     \<lparr>rp_server = front_server, rp_sd = sd_start, rp_router = etcd_router sd_example sd_start Map.empty, rp_keys = (\<lambda>_. []),
      rp_pick = (\<lambda>_. 0), rp_order = (\<lambda>_. []),
      rp_Call = (\<lambda>ty rt q msg sv P. (P, Inr \<lparr>resp_Data = [42], resp_Status = None\<rparr>)),
      rp_Fork = (\<lambda>rt q msg P. (P, None)), rp_Marshal = (\<lambda>m. Inr []), rp_Unmarshal = (\<lambda>b. Inl ErrWrongValueType),
      rp_FromError = (\<lambda>e. e), rp_FromStatus = (\<lambda>_. ErrWrongValueType)\<rparr>"

lemma forwarded_request_answered_witness:
  "\<exists>P'. remoteProcess forward_rpc agent_example (Some game_server) 0 (NewRoute ''game'' ''room'' ''join'')
       ((NewMessage [])\<lparr>msg_ID := 5\<rparr>) front_one = Some P' \<and> ag_chSend (agent_at P' 0) = [[4, 0, 0, 3, 4, 5, 42]]"
proof -
  let ?msg = "(NewMessage [])\<lparr>msg_ID := 5\<rparr>"
  let ?x = "\<lparr>resp_Data = [42], resp_Status = None\<rparr> :: nat rpc_response"
  have dict: "dict_ok (ae_dict agent_example)" by (simp add: dict_ok_def)
  have call: "remoteCall forward_rpc (Some game_server) RPCType_Sys (NewRoute ''game'' ''room'' ''join'')
      (Some (ag_Session (agent_at front_one 0))) ?msg front_one = Some (front_one, Inr ?x)"
    by (simp add: forward_rpc_def)
  have "MessageEncode False zlib_example \<lparr>routes = Map.empty, codes = Map.empty\<rparr>
      \<lparr>msg_Type = Response, msg_ID = 5, msg_Route = [], msg_Data = [42], msg_compressed = False, msg_Err = False\<rparr> =
    Inr ([4, 5, 42], \<lparr>msg_Type = Response, msg_ID = 5, msg_Route = [], msg_Data = [42], msg_compressed = False, msg_Err = False\<rparr>)"
    by code_simp
  moreover have "PacketEncode DataPacket [4, 5, 42] = Inr [4, 0, 0, 3, 4, 5, 42]"
    by (simp add: PacketEncode_def MaxPacketSize_def IntToBytes_eq)
  ultimately have enc: "packetEncodeMessage agent_example
      ((NewMessage [])\<lparr>msg_Type := Response, msg_ID := msg_ID ?msg, msg_Data := resp_Data ?x\<rparr>) = Inr [4, 0, 0, 3, 4, 5, 42]"
    by (simp add: packetEncodeMessage_def NewMessage_def)
  have zlib: "InflateData (ae_zlib agent_example) y = Inr x" if "DeflateData (ae_zlib agent_example) x = Inr y" for x y
    using zlib_example_inverse that by simp
  have "\<exists>P' em. remoteProcess forward_rpc agent_example (Some game_server) 0 (NewRoute ''game'' ''room'' ''join'') ?msg front_one = Some P' \<and>
      ag_chSend (agent_at P' 0) = ag_chSend (agent_at front_one 0) @ [[4, 0, 0, 3, 4, 5, 42]] \<and>
      PacketDecode [4, 0, 0, 3, 4, 5, 42] = Inr [packet_of DataPacket em] \<and>
      MessageDecode (ae_zlib agent_example) (ae_dict agent_example) em =
        Some (Inr ((NewMessage [])\<lparr>msg_Type := Response, msg_ID := msg_ID ?msg, msg_Data := resp_Data ?x\<rparr>))"
    by (rule forwarded_request_answered [OF dict zlib _ _ call _ _ _ enc])
      (simp_all add: front_one_parts zero_agent_def new_session_def NewMessage_def MaxPacketSize_def HeadLength_def)
  then show ?thesis by (auto simp: front_one_parts zero_agent_def)
qed

end
